(* ===== verification/Prelude.thy ===== *)
theory Prelude
  imports Main "HOL-Library.Word"
begin

text \<open>
  Shared vocabulary of the development: Rust's \<open>Result\<close>, the machine integer types, a counting
  function over lists of tasks with its update laws, executable runs of a step function, and the
  contract of an inductive invariant of such a step function, which every state machine of the
  development interprets.
\<close>

named_theorems run_simps \<open>equations that evaluate runs of a step function\<close>
named_theorems tally_simps \<open>how a tally of tasks changes when one task changes\<close>

section \<open>Types\<close>

datatype ('a, 'e) result = Ok 'a | Err 'e

type_synonym u8 = "8 word"
type_synonym u16 = "16 word"
type_synonym u32 = "32 word"
type_synonym u64 = "64 word"

fun is_ok :: "('a, 'e) result \<Rightarrow> bool" where
  "is_ok (Ok _) = True"
| "is_ok (Err _) = False"

fun ok_of :: "('a, 'e) result \<Rightarrow> 'a option" where
  "ok_of (Ok a) = Some a"
| "ok_of (Err _) = None"

fun and_then :: "('a, 'e) result \<Rightarrow> ('a \<Rightarrow> ('b, 'e) result) \<Rightarrow> ('b, 'e) result" where
  "and_then (Ok a) f = f a"
| "and_then (Err e) f = Err e"

lemma and_then_eq_Ok [simp]:
  "and_then r f = Ok b \<longleftrightarrow> (\<exists>a. r = Ok a \<and> f a = Ok b)"
  by (cases r) auto

lemma is_ok_iff: "is_ok r \<longleftrightarrow> (\<exists>a. r = Ok a)"
  by (cases r) auto

definition USIZE_MAX :: nat where
  "USIZE_MAX = 2 ^ 64 - 1"

lemma unat_plus_one:
  fixes w :: "'a::len word"
  shows "unat w + 1 < 2 ^ LENGTH('a) \<Longrightarrow> unat (w + 1) = unat w + 1"
  by (metis Suc_eq_plus1 unat_1 unat_add_lem)

section \<open>Counting the tasks of a list that satisfy a predicate\<close>

definition tally :: "('a \<Rightarrow> bool) \<Rightarrow> 'a list \<Rightarrow> nat" where
  "tally P xs = length (filter P xs)"

lemma tally_Nil [simp]: "tally P [] = 0"
  by (simp add: tally_def)

lemma tally_Cons [simp]: "tally P (x # xs) = (if P x then Suc (tally P xs) else tally P xs)"
  by (simp add: tally_def)

lemma tally_append [simp]: "tally P (xs @ ys) = tally P xs + tally P ys"
  by (simp add: tally_def)

lemma tally_le_length: "tally P xs \<le> length xs"
  by (simp add: tally_def)

lemma tally_pos: "i < length xs \<Longrightarrow> P (xs ! i) \<Longrightarrow> 0 < tally P xs"
  by (auto simp: tally_def filter_empty_conv intro: nth_mem)

lemma tally_mono: "(\<And>x. x \<in> set xs \<Longrightarrow> P x \<Longrightarrow> Q x) \<Longrightarrow> tally P xs \<le> tally Q xs"
  by (induction xs) auto

lemma tally_zero_iff: "tally P xs = 0 \<longleftrightarrow> (\<forall>x\<in>set xs. \<not> P x)"
  by (auto simp: tally_def filter_empty_conv)

lemma tally_update:
  assumes "i < length xs"
  shows "tally P (xs[i := v]) + of_bool (P (xs ! i)) = tally P xs + of_bool (P v)"
  using assms
proof (induction xs arbitrary: i)
  case Nil
  then show ?case by simp
next
  case (Cons x xs)
  then show ?case by (cases i) auto
qed

lemma tally_update_cases [tally_simps]:
  assumes "i < length xs"
  shows "\<not> P (xs ! i) \<Longrightarrow> P v \<Longrightarrow> tally P (xs[i := v]) = Suc (tally P xs)"
    and "P (xs ! i) \<Longrightarrow> \<not> P v \<Longrightarrow> tally P (xs[i := v]) = tally P xs - 1"
    and "P (xs ! i) = P v \<Longrightarrow> tally P (xs[i := v]) = tally P xs"
  using tally_update [OF assms, of P v] by auto

section \<open>Runs of a step function\<close>

text \<open>
  A concurrent component is a step function on its state: an event names the task that moves,
  \<^const>\<open>None\<close> is an event that cannot happen in that state.
\<close>

primrec runs :: "('s \<Rightarrow> 'e \<Rightarrow> 's option) \<Rightarrow> 's \<Rightarrow> 'e list \<Rightarrow> 's option" where
  "runs step s [] = Some s"
| "runs step s (e # es) = (case step s e of None \<Rightarrow> None | Some s' \<Rightarrow> runs step s' es)"

declare runs.simps [run_simps]

lemma runs_append:
  "runs step s (es @ fs) = (case runs step s es of None \<Rightarrow> None | Some s' \<Rightarrow> runs step s' fs)"
  by (induction es arbitrary: s) (auto split: option.splits)

locale step_invariant =
  fixes step :: "'s \<Rightarrow> 'e \<Rightarrow> 's option"
    and init :: "'s \<Rightarrow> bool"
    and inv :: "'s \<Rightarrow> bool"
  assumes init_inv: "init s \<Longrightarrow> inv s"
    and step_inv: "inv s \<Longrightarrow> step s e = Some s' \<Longrightarrow> inv s'"
begin

lemma runs_inv_from:
  "inv s \<Longrightarrow> runs step s es = Some s' \<Longrightarrow> inv s'"
proof (induction es arbitrary: s)
  case Nil
  then show ?case by simp
next
  case (Cons e es)
  then show ?case by (auto split: option.splits intro: step_inv)
qed

lemma runs_inv:
  "init s \<Longrightarrow> runs step s es = Some s' \<Longrightarrow> inv s'"
  by (rule runs_inv_from [OF init_inv])

lemma step_after_runs_inv:
  assumes "init s" and "runs step s es = Some s'" and "step s' e = Some s''"
  shows "inv s'" and "inv s''"
  using runs_inv [OF assms(1,2)] step_inv [OF _ assms(3)] by auto

end

end
