(* ===== verification/Semaphore.thy ===== *)
theory Semaphore
  imports Prelude
begin

text \<open>
  The contract of \<open>tokio::sync::Semaphore\<close> the runner relies on. The semaphore is not part of the
  repository: its operations are arguments of the definitions that use it, bundled in a record,
  and the locale states what its documentation promises. \<open>count_sem\<close> is a concrete semaphore that
  satisfies the contract, at which the witnesses evaluate.
\<close>

record 's semaphore_ops =
  sem_new :: "nat \<Rightarrow> 's"
  sem_take :: "'s \<Rightarrow> 's option"
  sem_release :: "'s \<Rightarrow> 's"
  sem_available :: "'s \<Rightarrow> nat"
  sem_closed :: "'s \<Rightarrow> bool"

locale semaphore =
  fixes S :: "'s semaphore_ops"
  assumes new_available: "sem_available S (sem_new S n) = n"
    and new_open: "\<not> sem_closed S (sem_new S n)"
    and take_succeeds: "\<not> sem_closed S s \<Longrightarrow> 0 < sem_available S s \<Longrightarrow> \<exists>s'. sem_take S s = Some s'"
    and take_available: "sem_take S s = Some s' \<Longrightarrow> sem_available S s = Suc (sem_available S s')"
    and take_closed: "sem_take S s = Some s' \<Longrightarrow> sem_closed S s' = sem_closed S s"
    and release_available: "sem_available S (sem_release S s) = Suc (sem_available S s)"
    and release_closed: "sem_closed S (sem_release S s) = sem_closed S s"
begin

lemma take_None_iff:
  "\<not> sem_closed S s \<Longrightarrow> sem_take S s = None \<longleftrightarrow> sem_available S s = 0"
proof (cases "sem_take S s")
  case None
  moreover assume "\<not> sem_closed S s"
  ultimately show ?thesis using take_succeeds [of s] by auto
next
  case (Some s')
  then show ?thesis using take_available [of s s'] by auto
qed

lemma take_release_available:
  "sem_take S s = Some s' \<Longrightarrow> sem_available S (sem_release S s') = sem_available S s"
  using take_available [of s s'] release_available [of s'] by simp

end

definition count_sem :: "nat semaphore_ops" where
  "count_sem = \<lparr> sem_new = id, sem_take = (\<lambda>n. if n = 0 then None else Some (n - 1)),
     sem_release = Suc, sem_available = id, sem_closed = (\<lambda>_. False) \<rparr>"

interpretation counting: semaphore count_sem
  by unfold_locales (auto simp: count_sem_def split: if_splits)

end
