(* ===== verification/Limiter.thy ===== *)
theory Limiter
  imports Semaphore
begin

text \<open>
  \<open>src/limiter.rs\<close>: the per-binding limiter of a worker's operations. A limiter counts the calls of
  a request (an atomic \<open>u32\<close>) and bounds the concurrent ones (a semaphore). \<open>acquire\<close> is modelled
  one atomic operation at a time, so that calls interleave, and as the whole call run alone.
\<close>

section \<open>State\<close>

datatype limit_error =
    TotalExceeded (le_binding: string) (le_limit: u32) (le_current: u32)
  | SemaphoreClosed (le_binding: string)

record binding_limit =
  bl_max_total :: u32
  bl_max_concurrent :: u32

record 's binding_limiter =
  lim_semaphore :: "'s option"
  total_count :: u32
  max_total :: u32
  lim_name :: string

definition limiter_new :: "'s semaphore_ops \<Rightarrow> binding_limit \<Rightarrow> string \<Rightarrow> 's binding_limiter" where
  "limiter_new S limit nm = \<lparr>
     lim_semaphore = (if 0 < bl_max_concurrent limit
       then Some (sem_new S (unat (bl_max_concurrent limit))) else None),
     total_count = 0,
     max_total = bl_max_total limit,
     lim_name = nm \<rparr>"

definition limiter_unlimited :: "string \<Rightarrow> 's binding_limiter" where
  "limiter_unlimited nm =
     \<lparr> lim_semaphore = None, total_count = 0, max_total = 0, lim_name = nm \<rparr>"

section \<open>Acquire, one atomic operation at a time\<close>

text \<open>
  Where a call of \<open>acquire\<close> stands: before the check of the total, before the undo of its
  increment (with the value it read), before the semaphore, holding its guard (with or without a
  permit), refused, or finished (its guard dropped).
\<close>

datatype acquire_pc =
    Enter
  | Undo u32
  | Wait
  | Held bool
  | Refused limit_error
  | Finished

fun acquire_step ::
  "'s semaphore_ops \<Rightarrow> 's binding_limiter \<Rightarrow> acquire_pc \<Rightarrow> ('s binding_limiter \<times> acquire_pc) option" where
  "acquire_step S l Enter =
     (if 0 < max_total l
      then let current = total_count l; l' = l\<lparr> total_count := current + 1 \<rparr> in
           if max_total l \<le> current then Some (l', Undo current) else Some (l', Wait)
      else Some (l, Wait))"
| "acquire_step S l (Undo current) =
     Some (l\<lparr> total_count := total_count l - 1 \<rparr>,
           Refused (TotalExceeded (lim_name l) (max_total l) (current + 1)))"
| "acquire_step S l Wait =
     (case lim_semaphore l of
        None \<Rightarrow> Some (l, Held False)
      | Some s \<Rightarrow>
          if sem_closed S s then Some (l, Refused (SemaphoreClosed (lim_name l)))
          else (case sem_take S s of
                  None \<Rightarrow> None
                | Some s' \<Rightarrow> Some (l\<lparr> lim_semaphore := Some s' \<rparr>, Held True)))"
| "acquire_step S l (Held _) = None"
| "acquire_step S l (Refused _) = None"
| "acquire_step S l Finished = None"

text \<open>Dropping the guard returns the permit it holds.\<close>

definition drop_guard :: "'s semaphore_ops \<Rightarrow> 's binding_limiter \<Rightarrow> bool \<Rightarrow> 's binding_limiter" where
  "drop_guard S l permit =
     (case lim_semaphore l of
        Some s \<Rightarrow> if permit then l\<lparr> lim_semaphore := Some (sem_release S s) \<rparr> else l
      | None \<Rightarrow> l)"

text \<open>The whole call with no other call in between; \<^const>\<open>None\<close> is a call that waits for a slot.\<close>

definition acquire ::
  "'s semaphore_ops \<Rightarrow> 's binding_limiter \<Rightarrow> ('s binding_limiter \<times> (bool, limit_error) result) option" where
  "acquire S l =
     (let current = total_count l;
          counted = (if 0 < max_total l then l\<lparr> total_count := current + 1 \<rparr> else l)
      in if 0 < max_total l \<and> max_total l \<le> current
         then Some (counted\<lparr> total_count := total_count counted - 1 \<rparr>,
                    Err (TotalExceeded (lim_name l) (max_total l) (current + 1)))
         else case lim_semaphore counted of
             None \<Rightarrow> Some (counted, Ok False)
           | Some s \<Rightarrow>
               if sem_closed S s then Some (counted, Err (SemaphoreClosed (lim_name l)))
               else (case sem_take S s of
                       None \<Rightarrow> None
                     | Some s' \<Rightarrow> Some (counted\<lparr> lim_semaphore := Some s' \<rparr>, Ok True)))"

definition limiter_count :: "'s binding_limiter \<Rightarrow> u32" where
  "limiter_count l = total_count l"

definition available_permits :: "'s semaphore_ops \<Rightarrow> 's binding_limiter \<Rightarrow> nat" where
  "available_permits S l =
     (case lim_semaphore l of Some s \<Rightarrow> sem_available S s | None \<Rightarrow> USIZE_MAX)"

definition limiter_reset :: "'s binding_limiter \<Rightarrow> 's binding_limiter" where
  "limiter_reset l = l\<lparr> total_count := 0 \<rparr>"

section \<open>The limiters of a worker\<close>

record runtime_limits =
  fetch_limit :: binding_limit
  kv_limit :: binding_limit
  database_limit :: binding_limit
  storage_limit :: binding_limit

record 's binding_limiters =
  fetch_limiter :: "'s binding_limiter"
  kv_limiter :: "'s binding_limiter"
  database_limiter :: "'s binding_limiter"
  storage_limiter :: "'s binding_limiter"

definition limiters_new :: "'s semaphore_ops \<Rightarrow> runtime_limits \<Rightarrow> 's binding_limiters" where
  "limiters_new S limits = \<lparr>
     fetch_limiter = limiter_new S (fetch_limit limits) ''fetch'',
     kv_limiter = limiter_new S (kv_limit limits) ''kv'',
     database_limiter = limiter_new S (database_limit limits) ''database'',
     storage_limiter = limiter_new S (storage_limit limits) ''storage'' \<rparr>"

definition concurrent_only :: "binding_limit \<Rightarrow> binding_limit" where
  "concurrent_only limit = \<lparr> bl_max_total = 0, bl_max_concurrent = bl_max_concurrent limit \<rparr>"

definition limiters_for_object :: "'s semaphore_ops \<Rightarrow> runtime_limits \<Rightarrow> 's binding_limiters" where
  "limiters_for_object S limits = \<lparr>
     fetch_limiter = limiter_unlimited ''fetch'',
     kv_limiter = limiter_new S (concurrent_only (kv_limit limits)) ''kv'',
     database_limiter = limiter_new S (concurrent_only (database_limit limits)) ''database'',
     storage_limiter = limiter_new S (concurrent_only (storage_limit limits)) ''storage'' \<rparr>"

definition limiters_unlimited :: "'s binding_limiters" where
  "limiters_unlimited = \<lparr>
     fetch_limiter = limiter_unlimited ''fetch'',
     kv_limiter = limiter_unlimited ''kv'',
     database_limiter = limiter_unlimited ''database'',
     storage_limiter = limiter_unlimited ''storage'' \<rparr>"

definition limiters_reset_all :: "'s binding_limiters \<Rightarrow> 's binding_limiters" where
  "limiters_reset_all ls = \<lparr>
     fetch_limiter = limiter_reset (fetch_limiter ls),
     kv_limiter = limiter_reset (kv_limiter ls),
     database_limiter = limiter_reset (database_limiter ls),
     storage_limiter = limiter_reset (storage_limiter ls) \<rparr>"

section \<open>Concurrent calls\<close>

text \<open>
  Any number of calls on one limiter: a new call starts, a call performs its next atomic
  operation, a call drops its guard. A call that waits for a slot has no step until one is free.
\<close>

record 's limiter_state =
  the_limiter :: "'s binding_limiter"
  calls :: "acquire_pc list"

datatype limiter_event = Call | Step nat | Drop nat

fun limiter_step ::
  "'s semaphore_ops \<Rightarrow> 's limiter_state \<Rightarrow> limiter_event \<Rightarrow> 's limiter_state option" where
  "limiter_step S st Call = Some (st\<lparr> calls := calls st @ [Enter] \<rparr>)"
| "limiter_step S st (Step i) =
     (if i < length (calls st)
      then map_option (\<lambda>(l, pc). st\<lparr> the_limiter := l, calls := (calls st)[i := pc] \<rparr>)
             (acquire_step S (the_limiter st) (calls st ! i))
      else None)"
| "limiter_step S st (Drop i) =
     (if i < length (calls st)
      then case calls st ! i of
             Held permit \<Rightarrow> Some (st\<lparr> the_limiter := drop_guard S (the_limiter st) permit,
                                  calls := (calls st)[i := Finished] \<rparr>)
           | _ \<Rightarrow> None
      else None)"

definition limiter_start :: "'s semaphore_ops \<Rightarrow> binding_limit \<Rightarrow> string \<Rightarrow> 's limiter_state" where
  "limiter_start S limit nm = \<lparr> the_limiter = limiter_new S limit nm, calls = [] \<rparr>"

text \<open>A call that passed the check of the total, and a call whose increment is still to be undone.\<close>

fun is_admitted :: "acquire_pc \<Rightarrow> bool" where
  "is_admitted Wait = True"
| "is_admitted (Held _) = True"
| "is_admitted Finished = True"
| "is_admitted (Refused (SemaphoreClosed _)) = True"
| "is_admitted _ = False"

fun is_undoing :: "acquire_pc \<Rightarrow> bool" where
  "is_undoing (Undo _) = True"
| "is_undoing _ = False"

fun is_holding :: "acquire_pc \<Rightarrow> bool" where
  "is_holding (Held permit) = permit"
| "is_holding _ = False"

fun refused_total :: "acquire_pc \<Rightarrow> bool" where
  "refused_total (Refused (TotalExceeded _ _ _)) = True"
| "refused_total _ = False"

definition over_limit :: "acquire_pc list \<Rightarrow> bool" where
  "over_limit pcs \<longleftrightarrow> (\<exists>pc \<in> set pcs. is_undoing pc \<or> refused_total pc)"

text \<open>
  The counter is the number of admitted calls plus the increments still to be undone, no more than
  \<open>m\<close> calls are admitted, and a call is refused only when \<open>m\<close> have been.
\<close>

definition total_ok :: "nat \<Rightarrow> u32 \<Rightarrow> acquire_pc list \<Rightarrow> bool" where
  "total_ok m c pcs \<longleftrightarrow>
     unat c = tally is_admitted pcs + tally is_undoing pcs \<and>
     tally is_admitted pcs \<le> m \<and> (over_limit pcs \<longrightarrow> tally is_admitted pcs = m)"

definition total_inv :: "binding_limit \<Rightarrow> 's limiter_state \<Rightarrow> bool" where
  "total_inv limit st \<longleftrightarrow>
     max_total (the_limiter st) = bl_max_total limit \<and>
     (0 < bl_max_total limit \<and> length (calls st) < 2 ^ 32 \<longrightarrow>
        total_ok (unat (bl_max_total limit)) (total_count (the_limiter st)) (calls st))"

definition slots_inv :: "'s semaphore_ops \<Rightarrow> binding_limit \<Rightarrow> 's limiter_state \<Rightarrow> bool" where
  "slots_inv S limit st \<longleftrightarrow>
     (case lim_semaphore (the_limiter st) of
        None \<Rightarrow> bl_max_concurrent limit = 0 \<and> tally is_holding (calls st) = 0
      | Some s \<Rightarrow> \<not> sem_closed S s \<and> 0 < bl_max_concurrent limit \<and>
          sem_available S s + tally is_holding (calls st) = unat (bl_max_concurrent limit))"

definition limiter_inv :: "'s semaphore_ops \<Rightarrow> binding_limit \<Rightarrow> 's limiter_state \<Rightarrow> bool" where
  "limiter_inv S limit st \<longleftrightarrow> total_inv limit st \<and> slots_inv S limit st"

subsection \<open>The total\<close>

lemma tally_admitted_undoing: "tally is_admitted xs + tally is_undoing xs \<le> length xs"
  by (induction xs) (auto elim!: is_admitted.elims is_undoing.elims)

lemma over_limit_simps [simp]:
  "\<not> over_limit []" "over_limit (pcs @ [pc]) \<longleftrightarrow> over_limit pcs \<or> is_undoing pc \<or> refused_total pc"
  by (auto simp: over_limit_def)

lemma over_limit_member: "pc \<in> set pcs \<Longrightarrow> is_undoing pc \<or> refused_total pc \<Longrightarrow> over_limit pcs"
  by (auto simp: over_limit_def)

lemma over_limit_update: "over_limit (pcs[i := pc]) \<Longrightarrow> is_undoing pc \<or> refused_total pc \<or> over_limit pcs"
  by (auto simp: over_limit_def dest!: set_update_subset_insert [THEN subsetD])

lemma total_ok_enter_over:
  assumes "total_ok m c pcs" "i < length pcs" "pcs ! i = Enter" "length pcs < 2 ^ 32" "m \<le> unat c"
  shows "total_ok m (c + 1) (pcs[i := Undo c])"
proof -
  have t: "tally is_admitted (pcs[i := Undo c]) = tally is_admitted pcs"
    "tally is_undoing (pcs[i := Undo c]) = Suc (tally is_undoing pcs)"
    using assms by (simp_all add: tally_simps)
  have "tally is_admitted pcs = m"
  proof (cases "tally is_undoing pcs = 0")
    case False
    then show ?thesis using assms(1) by (auto simp: tally_zero_iff total_ok_def over_limit_def)
  qed (use assms in \<open>auto simp: total_ok_def\<close>)
  moreover have "unat c + 1 < 2 ^ 32"
    using tally_admitted_undoing [of "pcs[i := Undo c]"] t assms by (simp add: total_ok_def)
  ultimately show ?thesis using t assms(1) by (simp add: total_ok_def unat_plus_one)
qed

lemma total_ok_enter_under:
  assumes "total_ok m c pcs" "i < length pcs" "pcs ! i = Enter" "length pcs < 2 ^ 32" "unat c < m"
  shows "total_ok m (c + 1) (pcs[i := Wait])"
proof -
  have t: "tally is_admitted (pcs[i := Wait]) = Suc (tally is_admitted pcs)"
    "tally is_undoing (pcs[i := Wait]) = tally is_undoing pcs"
    using assms by (simp_all add: tally_simps)
  have "\<not> over_limit (pcs[i := Wait])"
    using over_limit_update [of pcs i Wait] assms(1,5) by (auto simp: total_ok_def)
  moreover have "unat c + 1 < 2 ^ 32"
    using tally_admitted_undoing [of "pcs[i := Wait]"] t assms by (simp add: total_ok_def)
  ultimately show ?thesis using t assms(1,5) by (simp add: total_ok_def unat_plus_one)
qed

lemma total_ok_undo:
  assumes "total_ok m c pcs" "i < length pcs" "pcs ! i = Undo d" "refused_total pc"
  shows "total_ok m (c - 1) (pcs[i := pc])"
proof -
  have pc: "\<not> is_admitted pc" "\<not> is_undoing pc"
    using assms(4) by (auto elim: refused_total.elims)
  have t: "tally is_admitted (pcs[i := pc]) = tally is_admitted pcs"
    "tally is_undoing (pcs[i := pc]) = tally is_undoing pcs - 1" "0 < tally is_undoing pcs"
    using assms pc by (simp_all add: tally_simps tally_pos)
  have "over_limit pcs" using over_limit_member [of "pcs ! i" pcs] nth_mem [OF assms(2)] assms(3) by simp
  moreover have "c \<noteq> 0" using t assms(1) by (auto simp: total_ok_def)
  ultimately show ?thesis using t assms(1) by (simp add: total_ok_def unat_minus_one)
qed

lemma total_ok_keep:
  assumes "total_ok m c pcs" "i < length pcs" "is_admitted (pcs ! i)" "is_admitted pc"
  shows "total_ok m c (pcs[i := pc])"
proof -
  have "\<not> is_undoing (pcs ! i)" "\<not> is_undoing pc" "\<not> refused_total pc"
    using assms(3,4) by (auto elim!: is_admitted.elims)
  then show ?thesis
    using assms over_limit_update [of pcs i pc] by (simp add: total_ok_def tally_simps)
qed

lemma total_inv_acquire_step:
  assumes inv: "total_inv limit st" and i: "i < length (calls st)"
    and step: "acquire_step S (the_limiter st) (calls st ! i) = Some (l, pc)"
  shows "total_inv limit (st\<lparr> the_limiter := l, calls := (calls st)[i := pc] \<rparr>)"
proof -
  have m: "max_total l = bl_max_total limit"
    using inv step by (cases "calls st ! i") (auto simp: total_inv_def Let_def split: if_splits option.splits)
  have "total_ok (unat (bl_max_total limit)) (total_count l) ((calls st)[i := pc])"
    if lim: "0 < bl_max_total limit" "length (calls st) < 2 ^ 32"
  proof -
    have ok: "total_ok (unat (bl_max_total limit)) (total_count (the_limiter st)) (calls st)"
      and mt: "max_total (the_limiter st) = bl_max_total limit"
      using inv lim by (auto simp: total_inv_def)
    show ?thesis
    proof (cases "calls st ! i")
      case Enter
      then show ?thesis
        using step mt lim total_ok_enter_over [OF ok i Enter] total_ok_enter_under [OF ok i Enter]
        by (auto simp: Let_def word_le_nat_alt split: if_splits)
    next
      case Undo
      then show ?thesis using step total_ok_undo [OF ok i Undo, of pc] by auto
    next
      case Wait
      then have "is_admitted pc" "total_count l = total_count (the_limiter st)"
        using step by (auto split: option.splits if_splits)
      then show ?thesis using total_ok_keep [OF ok i] Wait by simp
    qed (use step in auto)
  qed
  with m show ?thesis by (simp add: total_inv_def)
qed

lemma drop_guard_total [simp]:
  "total_count (drop_guard S l p) = total_count l" "max_total (drop_guard S l p) = max_total l"
  by (simp_all add: drop_guard_def split: option.split)

lemma total_inv_step:
  assumes "total_inv limit st" and "limiter_step S st e = Some st'"
  shows "total_inv limit st'"
proof (cases e)
  case Call
  with assms show ?thesis by (auto simp: total_inv_def total_ok_def)
next
  case (Step i)
  with assms show ?thesis by (auto split: if_splits intro: total_inv_acquire_step)
next
  case (Drop i)
  with assms show ?thesis
    by (auto simp: total_inv_def intro!: total_ok_keep split: if_splits acquire_pc.splits)
qed

subsection \<open>The slots\<close>

lemma holding_update [tally_simps]:
  assumes "i < length pcs" "is_holding (pcs ! i) = is_holding pc"
  shows "tally is_holding (pcs[i := pc]) = tally is_holding pcs"
  using assms by (simp add: tally_simps)

lemma acquire_step_same_semaphore:
  assumes "acquire_step S l pc = Some (l', pc')" "pc \<noteq> Wait"
  shows "lim_semaphore l' = lim_semaphore l" "\<not> is_holding pc" "\<not> is_holding pc'"
  using assms by (cases pc; auto simp: Let_def split: if_splits)+

context semaphore
begin

lemma slots_inv_acquire_step:
  assumes inv: "slots_inv S limit st" and i: "i < length (calls st)"
    and step: "acquire_step S (the_limiter st) (calls st ! i) = Some (l, pc)"
  shows "slots_inv S limit (st\<lparr> the_limiter := l, calls := (calls st)[i := pc] \<rparr>)"
proof (cases "calls st ! i = Wait")
  case False
  then show ?thesis
    using inv i acquire_step_same_semaphore [OF step False]
    by (simp add: slots_inv_def holding_update split: option.splits)
next
  case True
  show ?thesis
  proof (cases "lim_semaphore (the_limiter st)")
    case None
    then show ?thesis using True inv i step by (auto simp: slots_inv_def holding_update)
  next
    case (Some s)
    then obtain s' where s': "sem_take S s = Some s'"
      and l: "l = (the_limiter st)\<lparr> lim_semaphore := Some s' \<rparr>" "pc = Held True"
      using True inv step by (auto simp: slots_inv_def split: option.splits)
    have "tally is_holding ((calls st)[i := pc]) = Suc (tally is_holding (calls st))"
      using i True l by (simp add: tally_simps)
    then show ?thesis
      using inv Some l take_available [OF s'] take_closed [OF s'] by (simp add: slots_inv_def)
  qed
qed

lemma slots_inv_drop:
  assumes inv: "slots_inv S limit st" and i: "i < length (calls st)" and pc: "calls st ! i = Held p"
  shows "slots_inv S limit
    (st\<lparr> the_limiter := drop_guard S (the_limiter st) p, calls := (calls st)[i := Finished] \<rparr>)"
proof (cases p)
  case True
  then have "0 < tally is_holding (calls st)" using i pc by (simp add: tally_pos)
  moreover have "tally is_holding ((calls st)[i := Finished]) = tally is_holding (calls st) - 1"
    using i pc True by (simp add: tally_simps)
  ultimately show ?thesis
    using inv True by (auto simp: slots_inv_def drop_guard_def release_available release_closed
        split: option.splits)
next
  case False
  then show ?thesis
    using inv i pc by (auto simp: slots_inv_def drop_guard_def holding_update split: option.splits)
qed

lemma limiter_inv_step:
  assumes "limiter_inv S limit st" and "limiter_step S st e = Some st'"
  shows "limiter_inv S limit st'"
proof -
  have "slots_inv S limit st'"
  proof (cases e)
    case Call
    then show ?thesis using assms by (auto simp: limiter_inv_def slots_inv_def split: option.splits)
  next
    case (Step i)
    then show ?thesis
      using assms by (auto simp: limiter_inv_def split: if_splits intro: slots_inv_acquire_step)
  next
    case (Drop i)
    then show ?thesis
      using assms by (auto simp: limiter_inv_def split: if_splits acquire_pc.splits intro: slots_inv_drop)
  qed
  then show ?thesis using assms total_inv_step by (auto simp: limiter_inv_def)
qed

lemma limiter_inv_start: "limiter_inv S limit (limiter_start S limit nm)"
  by (auto simp: limiter_inv_def total_inv_def total_ok_def slots_inv_def limiter_start_def
      limiter_new_def new_available new_open word_gt_0)

end

sublocale semaphore \<subseteq> limiter_runs:
  step_invariant "limiter_step S" "\<lambda>st. st = limiter_start S limit nm" "limiter_inv S limit"
  for limit nm
  by unfold_locales (auto intro: limiter_inv_start limiter_inv_step)

context semaphore
begin

lemma limiter_reachable_inv:
  "runs (limiter_step S) (limiter_start S limit nm) es = Some st \<Longrightarrow> limiter_inv S limit st"
  by (rule limiter_runs.runs_inv [OF refl])

lemma waiting_call_blocked:
  assumes "slots_inv S limit st" "i < length (calls st)" "calls st ! i = Wait"
    and "limiter_step S st (Step i) = None"
  shows "tally is_holding (calls st) = unat (bl_max_concurrent limit)"
  using assms take_None_iff by (auto simp: slots_inv_def split: option.splits if_splits)

end

lemma limiter_step_calls_le: "limiter_step S st e = Some st' \<Longrightarrow> length (calls st') \<le> Suc (length (calls st))"
  by (cases e) (auto split: if_splits acquire_pc.splits)

lemma limiter_runs_calls_le:
  "runs (limiter_step S) st es = Some st' \<Longrightarrow> length (calls st') \<le> length (calls st) + length es"
  by (induction es arbitrary: st) (fastforce split: option.splits dest: limiter_step_calls_le)+

text \<open>A limiter without a total: no call is refused for it, whatever its semaphore does.\<close>

definition untotalled :: "'s binding_limiter \<Rightarrow> 's limiter_state \<Rightarrow> bool" where
  "untotalled l st \<longleftrightarrow> max_total (the_limiter st) = 0 \<and> \<not> over_limit (calls st) \<and>
     (lim_semaphore l = None \<longrightarrow> lim_semaphore (the_limiter st) = None)"

lemma untotalled_step:
  assumes "untotalled l st" and "limiter_step S st e = Some st'"
  shows "untotalled l st'"
proof (cases e)
  case Call
  with assms show ?thesis by (auto simp: untotalled_def)
next
  case (Step i)
  then obtain l' pc where i: "i < length (calls st)"
    and step: "acquire_step S (the_limiter st) (calls st ! i) = Some (l', pc)"
    and st': "st' = st\<lparr> the_limiter := l', calls := (calls st)[i := pc] \<rparr>"
    using assms(2) by (auto split: if_splits)
  have "\<not> is_undoing (calls st ! i)" using assms(1) i by (auto simp: untotalled_def over_limit_def)
  then have "\<not> is_undoing pc" "\<not> refused_total pc" "max_total l' = 0"
    "lim_semaphore (the_limiter st) = None \<longrightarrow> lim_semaphore l' = None"
    using assms(1) step
    by (cases "calls st ! i"; auto simp: untotalled_def split: option.splits if_splits)+
  then show ?thesis
    using assms(1) st' over_limit_update [of "calls st" i pc] by (auto simp: untotalled_def)
next
  case (Drop i)
  with assms over_limit_update [of "calls st" i Finished] show ?thesis
    by (auto simp: untotalled_def drop_guard_def split: if_splits acquire_pc.splits option.splits)
qed

interpretation untotalled_runs:
  step_invariant "limiter_step S" "\<lambda>st. st = \<lparr> the_limiter = l, calls = [] \<rparr> \<and> max_total l = 0" "untotalled l"
  for S l
  by unfold_locales (simp add: untotalled_def, rule untotalled_step)

text \<open>A call run alone for at most \<open>n\<close> atomic operations.\<close>

fun run_call ::
  "'s semaphore_ops \<Rightarrow> nat \<Rightarrow> 's binding_limiter \<times> acquire_pc \<Rightarrow> ('s binding_limiter \<times> acquire_pc) option" where
  "run_call S 0 x = Some x"
| "run_call S (Suc n) (l, pc) =
     (case pc of
        Held _ \<Rightarrow> Some (l, pc)
      | Refused _ \<Rightarrow> Some (l, pc)
      | _ \<Rightarrow> (case acquire_step S l pc of None \<Rightarrow> None | Some x \<Rightarrow> run_call S n x))"

section \<open>Properties\<close>

text \<open>
  C30. However the calls on one limiter interleave, the calls that pass the check of the total never
  outnumber \<open>max_total\<close>, the counter is exact once no undo is pending, and a call is refused with
  \<open>TotalExceeded\<close> only when \<open>max_total\<close> calls have passed. The number of events is below \<open>2^32\<close>, so
  that the \<open>u32\<close> counter cannot wrap.
\<close>

theorem limiter_total_bound:
  assumes "semaphore S"
    and "runs (limiter_step S) (limiter_start S limit nm) es = Some st"
    and "0 < bl_max_total limit" and "length es < 2 ^ 32"
  shows "tally is_admitted (calls st) \<le> unat (bl_max_total limit)
    \<and> unat (limiter_count (the_limiter st)) = tally is_admitted (calls st) + tally is_undoing (calls st)
    \<and> ((\<exists>pc \<in> set (calls st). refused_total pc) \<longrightarrow>
         tally is_admitted (calls st) = unat (bl_max_total limit))"
proof -
  have "limiter_inv S limit st"
    using semaphore.limiter_reachable_inv [OF assms(1,2)] .
  moreover have "length (calls st) < 2 ^ 32"
    using limiter_runs_calls_le [OF assms(2)] assms(4) by (simp add: limiter_start_def)
  ultimately have "total_ok (unat (bl_max_total limit)) (total_count (the_limiter st)) (calls st)"
    using assms(3) by (simp add: limiter_inv_def total_inv_def)
  then show ?thesis by (auto simp: total_ok_def limiter_count_def over_limit_def)
qed

definition demo_limit :: binding_limit where
  "demo_limit = \<lparr> bl_max_total = 2, bl_max_concurrent = 1 \<rparr>"

definition demo_events :: "limiter_event list" where
  "demo_events = [Call, Call, Call, Step 0, Step 0, Step 1, Step 2, Step 2, Drop 0, Step 1]"

definition demo_state :: "nat limiter_state" where
  "demo_state = the (runs (limiter_step count_sem) (limiter_start count_sem demo_limit ''kv'') demo_events)"

lemma demo_run:
  "runs (limiter_step count_sem) (limiter_start count_sem demo_limit ''kv'') demo_events = Some demo_state"
  by code_simp

theorem limiter_total_bound_witness:
  "tally is_admitted (calls demo_state) \<le> 2 \<and> (\<exists>pc \<in> set (calls demo_state). refused_total pc)"
proof -
  have "tally is_admitted (calls demo_state) \<le> unat (bl_max_total demo_limit)"
    using limiter_total_bound [OF counting.semaphore_axioms demo_run] by (simp add: demo_limit_def demo_events_def)
  then show ?thesis by (simp add: demo_limit_def) code_simp
qed

text \<open>
  C31. The guards that hold a permit never outnumber \<open>max_concurrent\<close>: with the permits still
  available they are exactly that many. A call that cannot move waits for a slot, and then all
  \<open>max_concurrent\<close> slots are held by guards, so that a drop of one of them is what it waits for.
\<close>

theorem limiter_slots_bound:
  assumes "semaphore S"
    and "runs (limiter_step S) (limiter_start S limit nm) es = Some st"
    and "0 < bl_max_concurrent limit"
  shows "available_permits S (the_limiter st) + tally is_holding (calls st) = unat (bl_max_concurrent limit)
    \<and> (i < length (calls st) \<and> calls st ! i = Wait \<and> limiter_step S st (Step i) = None \<longrightarrow>
         tally is_holding (calls st) = unat (bl_max_concurrent limit))"
proof -
  have inv: "slots_inv S limit st"
    using semaphore.limiter_reachable_inv [OF assms(1,2)] by (simp add: limiter_inv_def)
  then show ?thesis
    using assms(3) semaphore.waiting_call_blocked [OF assms(1) inv]
    by (auto simp: slots_inv_def available_permits_def split: option.splits)
qed

theorem limiter_slots_bound_witness:
  "available_permits count_sem (the_limiter demo_state) + tally is_holding (calls demo_state) = 1
    \<and> tally is_holding (calls demo_state) = 1"
proof -
  have "available_permits count_sem (the_limiter demo_state) + tally is_holding (calls demo_state)
      = unat (bl_max_concurrent demo_limit)"
    using limiter_slots_bound [OF counting.semaphore_axioms demo_run] by (simp add: demo_limit_def)
  then show ?thesis by (simp add: demo_limit_def) code_simp
qed

text \<open>
  A call of \<open>acquire\<close> that no other call interleaves is the sequence of its atomic operations:
  the read-modify-write of the counter, its undo when the limit is reached, and the semaphore.
\<close>

lemma acquire_is_its_steps:
  "run_call S 2 (l, Enter) = map_option (\<lambda>(l', r). (l', case r of Ok p \<Rightarrow> Held p | Err e \<Rightarrow> Refused e)) (acquire S l)"
  by (auto simp: acquire_def Let_def numeral_2_eq_2 split: option.splits)

text \<open>
  The limiters of a Durable Object never refuse a call for a total, however its calls
  interleave and however many there are, and a fetch of the object never waits for a slot: no call
  that has not finished is blocked, so the object can wait on its own events without a deadlock.
\<close>

lemma object_limiters_never_total:
  assumes "l \<in> {fetch_limiter (limiters_for_object S limits), kv_limiter (limiters_for_object S limits),
      database_limiter (limiters_for_object S limits), storage_limiter (limiters_for_object S limits)}"
    and "runs (limiter_step S) \<lparr> the_limiter = l, calls = [] \<rparr> es = Some st"
  shows "(\<forall>pc \<in> set (calls st). \<not> refused_total pc)
    \<and> (l = fetch_limiter (limiters_for_object S limits) \<and> i < length (calls st) \<and> calls st ! i \<in> {Enter, Wait}
       \<longrightarrow> limiter_step S st (Step i) \<noteq> None)"
proof -
  have "untotalled l st"
    by (rule untotalled_runs.runs_inv [OF _ assms(2)])
      (use assms(1) in \<open>auto simp: limiters_for_object_def limiter_new_def limiter_unlimited_def concurrent_only_def\<close>)
  then show ?thesis
    by (auto simp: untotalled_def over_limit_def limiters_for_object_def limiter_unlimited_def Let_def)
qed

lemma object_limiters_never_total_witness:
  "\<exists>st. runs (limiter_step count_sem)
      \<lparr> the_limiter = fetch_limiter (limiters_for_object count_sem
          \<lparr> fetch_limit = demo_limit, kv_limit = demo_limit, database_limit = demo_limit,
            storage_limit = demo_limit \<rparr>), calls = [] \<rparr>
      [Call, Step 0, Step 0, Call, Step 1, Step 1, Call, Step 2] = Some st
    \<and> calls st = [Held False, Held False, Wait] \<and> (\<forall>pc \<in> set (calls st). \<not> refused_total pc)"
proof -
  let ?l = "fetch_limiter (limiters_for_object count_sem
     \<lparr> fetch_limit = demo_limit, kv_limit = demo_limit, database_limit = demo_limit,
       storage_limit = demo_limit \<rparr>)"
  let ?es = "[Call, Step 0, Step 0, Call, Step 1, Step 1, Call, Step 2]"
  let ?st = "\<lparr> the_limiter = ?l, calls = [Held False, Held False, Wait] \<rparr>"
  have run: "runs (limiter_step count_sem) \<lparr> the_limiter = ?l, calls = [] \<rparr> ?es = Some ?st"
    by (simp add: limiters_for_object_def limiter_unlimited_def)
  then show ?thesis using object_limiters_never_total [OF _ run] by fastforce
qed

end
