(* ===== verification/Net_Guard.thy ===== *)
theory Net_Guard
  imports Rust_Str
begin

text \<open>
  \<open>src/services/net_guard.rs\<close>: the guard on the addresses worker code may reach. The predicates of
  \<open>std::net\<close> the code calls are spelled out on octets and segments, and the guard is compared with
  the table of address blocks it documents. The URL parser and the DNS lookup are arguments.
\<close>

unbundle bit_operations_syntax

section \<open>Addresses of the standard library\<close>

datatype ipv4_addr = Ipv4Addr u8 u8 u8 u8

datatype ipv6_addr = Ipv6Addr u16 u16 u16 u16 u16 u16 u16 u16

datatype ip_addr = V4 ipv4_addr | V6 ipv6_addr

record socket_addr =
  sa_ip :: ip_addr
  sa_port :: u16

fun is_unspecified :: "ipv4_addr \<Rightarrow> bool" where
  "is_unspecified (Ipv4Addr a b c d) \<longleftrightarrow> a = 0 \<and> b = 0 \<and> c = 0 \<and> d = 0"

fun is_loopback :: "ipv4_addr \<Rightarrow> bool" where
  "is_loopback (Ipv4Addr a b c d) \<longleftrightarrow> a = 127"

fun is_private :: "ipv4_addr \<Rightarrow> bool" where
  "is_private (Ipv4Addr a b c d) \<longleftrightarrow>
     a = 10 \<or> (a = 172 \<and> 16 \<le> b \<and> b \<le> 31) \<or> (a = 192 \<and> b = 168)"

fun is_link_local :: "ipv4_addr \<Rightarrow> bool" where
  "is_link_local (Ipv4Addr a b c d) \<longleftrightarrow> a = 169 \<and> b = 254"

fun is_broadcast :: "ipv4_addr \<Rightarrow> bool" where
  "is_broadcast (Ipv4Addr a b c d) \<longleftrightarrow> a = 255 \<and> b = 255 \<and> c = 255 \<and> d = 255"

fun is_documentation :: "ipv4_addr \<Rightarrow> bool" where
  "is_documentation (Ipv4Addr a b c d) \<longleftrightarrow>
     (a = 192 \<and> b = 0 \<and> c = 2) \<or> (a = 198 \<and> b = 51 \<and> c = 100) \<or> (a = 203 \<and> b = 0 \<and> c = 113)"

fun is_unspecified6 :: "ipv6_addr \<Rightarrow> bool" where
  "is_unspecified6 ip \<longleftrightarrow> ip = Ipv6Addr 0 0 0 0 0 0 0 0"

fun is_loopback6 :: "ipv6_addr \<Rightarrow> bool" where
  "is_loopback6 ip \<longleftrightarrow> ip = Ipv6Addr 0 0 0 0 0 0 0 1"

fun is_multicast6 :: "ipv6_addr \<Rightarrow> bool" where
  "is_multicast6 (Ipv6Addr a b c d e f g h) \<longleftrightarrow> a AND 0xff00 = 0xff00"

fun to_ipv4_mapped :: "ipv6_addr \<Rightarrow> ipv4_addr option" where
  "to_ipv4_mapped (Ipv6Addr a b c d e f g h) =
     (if a = 0 \<and> b = 0 \<and> c = 0 \<and> d = 0 \<and> e = 0 \<and> f = 0xffff
      then Some (Ipv4Addr (ucast (drop_bit 8 g)) (ucast g) (ucast (drop_bit 8 h)) (ucast h))
      else None)"

section \<open>Which addresses are public\<close>

fun ipv4_is_public :: "ipv4_addr \<Rightarrow> bool" where
  "ipv4_is_public (Ipv4Addr a b c d) =
     (let ip = Ipv4Addr a b c d in
      if is_unspecified ip \<or> is_loopback ip \<or> is_private ip \<or> is_link_local ip \<or> is_broadcast ip
         \<or> is_documentation ip then False
      else if a = 100 \<and> 64 \<le> b \<and> b \<le> 127 then False
      else if a = 192 \<and> b = 0 \<and> c = 0 then False
      else if a = 198 \<and> (b = 18 \<or> b = 19) then False
      else if 240 \<le> a then False
      else True)"

fun ipv6_is_public :: "ipv6_addr \<Rightarrow> bool" where
  "ipv6_is_public (Ipv6Addr a b c d e f g h) =
     (let ip = Ipv6Addr a b c d e f g h in
      if is_unspecified6 ip \<or> is_loopback6 ip \<or> is_multicast6 ip then False
      else if a AND 0xfe00 = 0xfc00 then False
      else if a AND 0xffc0 = 0xfe80 then False
      else if a = 0x2001 \<and> b = 0x0db8 then False
      else True)"

fun ip_is_public :: "ip_addr \<Rightarrow> bool" where
  "ip_is_public (V4 v4) = ipv4_is_public v4"
| "ip_is_public (V6 v6) =
     (case to_ipv4_mapped v6 of Some v4 \<Rightarrow> ipv4_is_public v4 | None \<Rightarrow> ipv6_is_public v6)"

section \<open>The guards\<close>

datatype egress_policy = Unrestricted | PublicOnly

datatype url_host = HostDomain string | HostIpv4 ipv4_addr | HostIpv6 ipv6_addr

text \<open>The text of an address, as \<open>Display\<close> of the standard library writes it.\<close>

fun show_ipv4 :: "ipv4_addr \<Rightarrow> string" where
  "show_ipv4 (Ipv4Addr a b c d) =
     show_nat (unat a) @ ''.'' @ show_nat (unat b) @ ''.'' @
     show_nat (unat c) @ ''.'' @ show_nat (unat d)"

fun join_segments :: "u16 list \<Rightarrow> string" where
  "join_segments [] = ''''"
| "join_segments [s] = show_radix 16 (unat s)"
| "join_segments (s # t # ss) = show_radix 16 (unat s) @ '':'' @ join_segments (t # ss)"

text \<open>The first longest run of zero segments, as its start and length.\<close>

fun longest_zeroes :: "nat \<Rightarrow> nat \<times> nat \<Rightarrow> nat \<times> nat \<Rightarrow> u16 list \<Rightarrow> nat \<times> nat" where
  "longest_zeroes i longest current [] = longest"
| "longest_zeroes i longest current (s # ss) =
     (if s = 0
      then let current' = (if snd current = 0 then (i, 1) else (fst current, Suc (snd current)));
               longest' = (if snd longest < snd current' then current' else longest)
           in longest_zeroes (Suc i) longest' current' ss
      else longest_zeroes (Suc i) longest (0, 0) ss)"

fun segments :: "ipv6_addr \<Rightarrow> u16 list" where
  "segments (Ipv6Addr a b c d e f g h) = [a, b, c, d, e, f, g, h]"

definition show_ipv6 :: "ipv6_addr \<Rightarrow> string" where
  "show_ipv6 ip =
     (case to_ipv4_mapped ip of
        Some v4 \<Rightarrow> ''::ffff:'' @ show_ipv4 v4
      | None \<Rightarrow>
          let zeroes = longest_zeroes 0 (0, 0) (0, 0) (segments ip) in
          if 1 < snd zeroes
          then join_segments (take (fst zeroes) (segments ip)) @ ''::'' @
               join_segments (drop (fst zeroes + snd zeroes) (segments ip))
          else join_segments (segments ip))"

fun show_ip :: "ip_addr \<Rightarrow> string" where
  "show_ip (V4 ip) = show_ipv4 ip"
| "show_ip (V6 ip) = show_ipv6 ip"

definition blocked_msg :: "string \<Rightarrow> string" where
  "blocked_msg host = ''fetch to non-public address is not allowed: '' @ host"

text \<open>
  \<open>allow_private\<close> is the environment's \<open>FETCH_ALLOW_PRIVATE_NETWORK\<close>; \<open>parse\<close> is \<open>url::Url::parse\<close>
  followed by \<open>host()\<close>.
\<close>

definition allow_private_network :: "string option \<Rightarrow> bool" where
  "allow_private_network var = (case var of Some v \<Rightarrow> v = ''1'' \<or> eq_ignore_ascii_case v ''true'' | None \<Rightarrow> False)"

definition guard_url_host ::
  "bool \<Rightarrow> (string \<Rightarrow> (url_host option, string) result) \<Rightarrow> string \<Rightarrow> (unit, string) result" where
  "guard_url_host allow_private parse url =
     (if allow_private then Ok ()
      else case parse url of
          Err e \<Rightarrow> Err (''invalid URL: '' @ e)
        | Ok (Some (HostIpv4 ip)) \<Rightarrow>
            if \<not> ip_is_public (V4 ip) then Err (blocked_msg (show_ip (V4 ip))) else Ok ()
        | Ok (Some (HostIpv6 ip)) \<Rightarrow>
            if \<not> ip_is_public (V6 ip) then Err (blocked_msg (show_ip (V6 ip))) else Ok ()
        | Ok (Some (HostDomain _)) \<Rightarrow> Ok ()
        | Ok None \<Rightarrow> Err ''URL has no host'')"

fun first_blocked :: "socket_addr list \<Rightarrow> ip_addr option" where
  "first_blocked [] = None"
| "first_blocked (addr # addrs) = (if \<not> ip_is_public (sa_ip addr) then Some (sa_ip addr) else first_blocked addrs)"

definition guard_tcp_host ::
  "bool \<Rightarrow> (string \<Rightarrow> u16 \<Rightarrow> (socket_addr list, string) result) \<Rightarrow> string \<Rightarrow> u16 \<Rightarrow> (unit, string) result" where
  "guard_tcp_host allow_private lookup_host host port =
     (if allow_private then Ok ()
      else case lookup_host host port of
          Err e \<Rightarrow> Err (''cannot resolve '' @ host @ '': '' @ e)
        | Ok addrs \<Rightarrow>
            (case first_blocked addrs of Some ip \<Rightarrow> Err (blocked_msg (show_ip ip)) | None \<Rightarrow> Ok ()))"

definition filtering_resolve ::
  "(string \<Rightarrow> (socket_addr list, string) result) \<Rightarrow> string \<Rightarrow> (socket_addr list, string) result" where
  "filtering_resolve lookup_host host =
     (case lookup_host (host @ '':0'') of
        Err e \<Rightarrow> Err e
      | Ok addrs \<Rightarrow>
          (case first_blocked addrs of Some ip \<Rightarrow> Err (blocked_msg (show_ip ip)) | None \<Rightarrow> Ok addrs))"

section \<open>The documented blocks\<close>

text \<open>
  An address as a number, and membership of a block given as base address and prefix length: the
  leading bits agree.
\<close>

fun ipv4_num :: "ipv4_addr \<Rightarrow> nat" where
  "ipv4_num (Ipv4Addr a b c d) = ((unat a * 256 + unat b) * 256 + unat c) * 256 + unat d"

fun ipv6_num :: "ipv6_addr \<Rightarrow> nat" where
  "ipv6_num (Ipv6Addr a b c d e f g h) =
     foldl (\<lambda>n s. n * 65536 + unat s) 0 [a, b, c, d, e, f, g, h]"

definition in_block :: "nat \<Rightarrow> nat \<times> nat \<Rightarrow> nat \<Rightarrow> bool" where
  "in_block width block x \<longleftrightarrow>
     x div 2 ^ (width - snd block) = fst block div 2 ^ (width - snd block)"

definition blocked_v4 :: "(ipv4_addr \<times> nat) list" where
  "blocked_v4 =
     [(Ipv4Addr 0 0 0 0, 32), (Ipv4Addr 10 0 0 0, 8), (Ipv4Addr 100 64 0 0, 10),
      (Ipv4Addr 127 0 0 0, 8), (Ipv4Addr 169 254 0 0, 16), (Ipv4Addr 172 16 0 0, 12),
      (Ipv4Addr 192 0 0 0, 24), (Ipv4Addr 192 0 2 0, 24), (Ipv4Addr 192 168 0 0, 16),
      (Ipv4Addr 198 18 0 0, 15), (Ipv4Addr 198 51 100 0, 24), (Ipv4Addr 203 0 113 0, 24),
      (Ipv4Addr 240 0 0 0, 4)]"

definition blocked_v6 :: "(ipv6_addr \<times> nat) list" where
  "blocked_v6 =
     [(Ipv6Addr 0 0 0 0 0 0 0 0, 128), (Ipv6Addr 0 0 0 0 0 0 0 1, 128),
      (Ipv6Addr 0xff00 0 0 0 0 0 0 0, 8), (Ipv6Addr 0xfc00 0 0 0 0 0 0 0, 7),
      (Ipv6Addr 0xfe80 0 0 0 0 0 0 0, 10), (Ipv6Addr 0x2001 0xdb8 0 0 0 0 0 0, 32)]"

lemma u8_bound: "unat (a :: u8) < 256"
  using unsigned_less [of a, where 'a = nat] by simp

lemma u16_bound: "unat (a :: u16) < 65536"
  using unsigned_less [of a, where 'a = nat] by simp

lemma and_high_bits:
  fixes a :: u16
  assumes "n < 16" "m = push_bit n (mask (16 - n))"
  shows "unat (a AND m) = unat a div 2 ^ n * 2 ^ n"
proof -
  have "a AND m = push_bit n (drop_bit n a)"
    unfolding assms(2) using assms(1) by (intro bit_word_eqI) (auto simp: bit_simps)
  also have "unat \<dots> = unat a div 2 ^ n * 2 ^ n"
  proof -
    have "unat a div 2 ^ n * 2 ^ n < 2 ^ 16"
      using unsigned_less [of a, where 'a = nat] le_less_trans [OF div_times_less_eq_dividend] by auto
    moreover have "unat (drop_bit n a) = unat a div 2 ^ n"
      by (simp only: unat_drop_bit_eq) (simp only: drop_bit_eq_div)
    moreover have "unat (push_bit n w) = unat w * 2 ^ n mod 2 ^ 16" for w :: u16
      by (simp only: unsigned_push_bit_eq) (simp add: push_bit_eq_mult take_bit_eq_mod)
    ultimately show ?thesis by simp
  qed
  finally show ?thesis .
qed

lemma high_masks: "0xff00 = push_bit 8 (mask (16 - 8) :: u16)"  "0xfe00 = push_bit 9 (mask (16 - 9) :: u16)" "0xffc0 = push_bit 6 (mask (16 - 6) :: u16)"
  by (simp_all add: mask_eq_exp_minus_1 push_bit_eq_mult)

lemma and_mask_iff:
  fixes a :: u16
  shows "a AND 0xfe00 = 0xfc00 \<longleftrightarrow> unat a div 512 = 126"
 "a AND 0xff00 = 0xff00 \<longleftrightarrow> unat a div 256 = 255"
 "a AND 0xffc0 = 0xfe80 \<longleftrightarrow> unat a div 64 = 1018"
  using and_high_bits [OF _ high_masks(1), of a] and_high_bits [OF _ high_masks(2), of a] and_high_bits [OF _ high_masks(3), of a]
  by (auto simp: word_unat_eq_iff)

lemma digit_eq: "(p :: nat) < 65536 \<Longrightarrow> q < 65536 \<Longrightarrow> x * 65536 + p = y * 65536 + q \<longleftrightarrow> x = y \<and> p = q"
proof (intro iffI conjI)
  assume *: "p < 65536" "q < 65536" "x * 65536 + p = y * 65536 + q"
  show "x = y" using arg_cong [OF *(3), of "\<lambda>n. n div 65536"] *(1,2) by simp
  with * show "p = q" by simp
qed simp

lemma horner_div:
  "foldl (\<lambda>n s. n * 65536 + unat s) n (ss :: u16 list) div 65536 ^ length ss = n"
proof (induction ss rule: rev_induct)
  case (snoc s ss)
  have "unat s < 65536" using unsigned_less [of s, where 'a = nat] by simp
  then have "(x * 65536 + unat s) div (65536 * 65536 ^ length ss) = x div 65536 ^ length ss" for x
    by (simp only: div_mult2_eq) simp
  then show ?case using snoc by simp
qed simp

lemma horner_eq:
  "length ss = length ts \<Longrightarrow> foldl (\<lambda>n s. n * 65536 + unat s) n (ss :: u16 list) = foldl (\<lambda>n s. n * 65536 + unat s) m ts \<longleftrightarrow> n = m \<and> ss = ts"
proof (induction ss arbitrary: ts rule: rev_induct)
  case (snoc s ss)
  then obtain t us where ts: "ts = us @ [t]" "length us = length ss" by (cases ts rule: rev_cases) auto
  have "unat s < 65536" "unat t < 65536" using unsigned_less [of s, where 'a = nat] unsigned_less [of t, where 'a = nat]  by auto
  then have "x * 65536 + unat s = y * 65536 + unat t \<longleftrightarrow> x = y \<and> unat s = unat t" for x y
    by (rule digit_eq)
  then show ?case using snoc.IH [of us] ts by (auto simp: word_unat_eq_iff)
qed simp

lemma v4_div:
  assumes "a < 256" "b < 256" "c < 256" "d < (256 :: nat)"
  defines "x \<equiv> ((a * 256 + b) * 256 + c) * 256 + d"
  shows "x div 256 = (a * 256 + b) * 256 + c" "x div 65536 = a * 256 + b" "x div 16777216 = a"
    "x div 268435456 = a div 16" "x div 4194304 = (a * 256 + b) div 64"
    "x div 1048576 = (a * 256 + b) div 16" "x div 131072 = (a * 256 + b) div 2"
proof -
  show 1: "x div 256 = (a * 256 + b) * 256 + c" using assms by simp
  show 2: "x div 65536 = a * 256 + b" using 1 assms(1-4) div_mult2_eq [of x 256 256] by simp
  show 3: "x div 16777216 = a" using 2 assms(1-4) div_mult2_eq [of x 65536 256] by simp
  show "x div 268435456 = a div 16" using 3 div_mult2_eq [of x 16777216 16] by simp
  show "x div 4194304 = (a * 256 + b) div 64" using 2 div_mult2_eq [of x 65536 64] by simp
  show "x div 1048576 = (a * 256 + b) div 16" using 2 div_mult2_eq [of x 65536 16] by simp
  show "x div 131072 = (a * 256 + b) div 2" using 2 div_mult2_eq [of x 65536 2] by simp
qed

lemma digit_iff: "b < 256 \<Longrightarrow> (a * 256 + b = n) \<longleftrightarrow> a = n div 256 \<and> b = n mod (256 :: nat)"
  by (auto simp: mult.commute)

lemma v4_ranges:
  fixes a b :: nat
  assumes "b < 256"
  shows "((a * 256 + b) div 64 = 401) = (a = 100 \<and> 64 \<le> b \<and> b \<le> 127)" (is "?A")
    "((a * 256 + b) div 16 = 2753) = (a = 172 \<and> 16 \<le> b \<and> b \<le> 31)" (is "?B")
    "((a * 256 + b) div 2 = 25353) = (a = 198 \<and> (b = 18 \<or> b = 19))" (is "?C")
    "(b div 16 = 15) = (240 \<le> b)" (is "?D")
proof -
  have "(a * 256 + b) div 64 = 401 \<Longrightarrow> a = 100" using assms by linarith
  then show ?A by auto
  have "(a * 256 + b) div 16 = 2753 \<Longrightarrow> a = 172" using assms by linarith
  then show ?B by auto
  have "(a * 256 + b) div 2 = 25353 \<Longrightarrow> a = 198" using assms by linarith
  then show ?C by auto
  show ?D using assms by auto
qed

lemma v4_prefix:
  fixes a b c d :: u8
  assumes "x = ipv4_num (Ipv4Addr a b c d)"
  shows "x div 16777216 = n \<longleftrightarrow> unat a = n"
    "x div 65536 = n \<longleftrightarrow> unat a = n div 256 \<and> unat b = n mod 256"
    "x div 256 = n \<longleftrightarrow> unat a = n div 256 div 256 \<and> unat b = n div 256 mod 256 \<and> unat c = n mod 256"
    "x div 268435456 = 15 \<longleftrightarrow> 240 \<le> unat a"
    "x div 4194304 = 401 \<longleftrightarrow> unat a = 100 \<and> 64 \<le> unat b \<and> unat b \<le> 127"
    "x div 1048576 = 2753 \<longleftrightarrow> unat a = 172 \<and> 16 \<le> unat b \<and> unat b \<le> 31"
    "x div 131072 = 25353 \<longleftrightarrow> unat a = 198 \<and> (unat b = 18 \<or> unat b = 19)"
    "x = 0 \<longleftrightarrow> unat a = 0 \<and> unat b = 0 \<and> unat c = 0 \<and> unat d = 0"
  unfolding assms ipv4_num.simps v4_div [OF u8_bound u8_bound u8_bound u8_bound]
    digit_iff [OF u8_bound] v4_ranges [OF u8_bound]
  by (simp_all only: refl conj_assoc) simp

lemma in_block_v4:
  fixes a b c d :: u8
  assumes x: "x = ipv4_num (Ipv4Addr a b c d)"
  shows "in_block 32 (ipv4_num (Ipv4Addr 0 0 0 0), 32) x \<longleftrightarrow> a = 0 \<and> b = 0 \<and> c = 0 \<and> d = 0"
    "in_block 32 (ipv4_num (Ipv4Addr 10 0 0 0), 8) x \<longleftrightarrow> a = 10"
    "in_block 32 (ipv4_num (Ipv4Addr 100 64 0 0), 10) x \<longleftrightarrow> a = 100 \<and> 64 \<le> b \<and> b \<le> 127"
    "in_block 32 (ipv4_num (Ipv4Addr 127 0 0 0), 8) x \<longleftrightarrow> a = 127"
    "in_block 32 (ipv4_num (Ipv4Addr 169 254 0 0), 16) x \<longleftrightarrow> a = 169 \<and> b = 254"
    "in_block 32 (ipv4_num (Ipv4Addr 172 16 0 0), 12) x \<longleftrightarrow> a = 172 \<and> 16 \<le> b \<and> b \<le> 31"
    "in_block 32 (ipv4_num (Ipv4Addr 192 0 0 0), 24) x \<longleftrightarrow> a = 192 \<and> b = 0 \<and> c = 0"
    "in_block 32 (ipv4_num (Ipv4Addr 192 0 2 0), 24) x \<longleftrightarrow> a = 192 \<and> b = 0 \<and> c = 2"
    "in_block 32 (ipv4_num (Ipv4Addr 192 168 0 0), 16) x \<longleftrightarrow> a = 192 \<and> b = 168"
    "in_block 32 (ipv4_num (Ipv4Addr 198 18 0 0), 15) x \<longleftrightarrow> a = 198 \<and> (b = 18 \<or> b = 19)"
    "in_block 32 (ipv4_num (Ipv4Addr 198 51 100 0), 24) x \<longleftrightarrow> a = 198 \<and> b = 51 \<and> c = 100"
    "in_block 32 (ipv4_num (Ipv4Addr 203 0 113 0), 24) x \<longleftrightarrow> a = 203 \<and> b = 0 \<and> c = 113"
    "in_block 32 (ipv4_num (Ipv4Addr 240 0 0 0), 4) x \<longleftrightarrow> 240 \<le> a"
  by (simp_all add: in_block_def v4_prefix [OF x] word_unat_eq_iff word_le_nat_alt)

lemma ipv4_is_public_iff:
  "ipv4_is_public ip \<longleftrightarrow>
     (\<forall>(base, len) \<in> set blocked_v4. \<not> in_block 32 (ipv4_num base, len) (ipv4_num ip))"
proof (cases ip)
  case (Ipv4Addr a b c d)
  show ?thesis
    unfolding Ipv4Addr by (auto simp: blocked_v4_def in_block_v4 [OF refl] Let_def simp del: ipv4_num.simps)
qed

abbreviation horner :: "nat \<Rightarrow> u16 list \<Rightarrow> nat" where
  "horner \<equiv> foldl (\<lambda>n s. n * 65536 + unat s)"

lemma v6_prefix:
  assumes "x = ipv6_num (Ipv6Addr a b c d e f g h)"
  shows "x div 2 ^ 112 = unat a" "x div 2 ^ 96 = unat a * 65536 + unat b"
    "x div 2 ^ 32 = horner 0 [a, b, c, d, e, f]"
    "x div 2 ^ 120 = unat a div 256" "x div 2 ^ 121 = unat a div 512" "x div 2 ^ 118 = unat a div 64"
    "x mod 2 ^ 32 = unat g * 65536 + unat h"
proof -
  show 1: "x div 2 ^ 112 = unat a"
    using horner_div [of "unat a" "[b, c, d, e, f, g, h]"] assms by simp
  show "x div 2 ^ 96 = unat a * 65536 + unat b"
    using horner_div [of "unat a * 65536 + unat b" "[c, d, e, f, g, h]"] assms by simp
  show 2: "x div 2 ^ 32 = horner 0 [a, b, c, d, e, f]"
    using horner_div [of "horner 0 [a, b, c, d, e, f]" "[g, h]"] assms by simp
  show "x div 2 ^ 120 = unat a div 256" using 1 div_mult2_eq [of x "2 ^ 112" 256] by simp
  show "x div 2 ^ 121 = unat a div 512" using 1 div_mult2_eq [of x "2 ^ 112" 512] by simp
  show "x div 2 ^ 118 = unat a div 64" using 1 div_mult2_eq [of x "2 ^ 112" 64] by simp
  show "x mod 2 ^ 32 = unat g * 65536 + unat h"
  proof -
    have "x = horner 0 [a, b, c, d, e, f] * 2 ^ 32 + (unat g * 65536 + unat h)"
      using assms by simp
    then show ?thesis using 2 by (metis add_left_cancel div_mult_mod_eq)
  qed
qed

lemma in_block_v6:
  assumes x: "x = ipv6_num (Ipv6Addr a b c d e f g h)"
  shows "in_block 128 (ipv6_num (Ipv6Addr 0 0 0 0 0 0 0 0), 128) x \<longleftrightarrow> Ipv6Addr a b c d e f g h = Ipv6Addr 0 0 0 0 0 0 0 0"
    "in_block 128 (ipv6_num (Ipv6Addr 0 0 0 0 0 0 0 1), 128) x \<longleftrightarrow> Ipv6Addr a b c d e f g h = Ipv6Addr 0 0 0 0 0 0 0 1"
    "in_block 128 (ipv6_num (Ipv6Addr 0xff00 0 0 0 0 0 0 0), 8) x \<longleftrightarrow> a AND 0xff00 = 0xff00"
    "in_block 128 (ipv6_num (Ipv6Addr 0xfc00 0 0 0 0 0 0 0), 7) x \<longleftrightarrow> a AND 0xfe00 = 0xfc00"
    "in_block 128 (ipv6_num (Ipv6Addr 0xfe80 0 0 0 0 0 0 0), 10) x \<longleftrightarrow> a AND 0xffc0 = 0xfe80"
    "in_block 128 (ipv6_num (Ipv6Addr 0x2001 0xdb8 0 0 0 0 0 0), 32) x \<longleftrightarrow> a = 0x2001 \<and> b = 0xdb8"
    "in_block 128 (ipv6_num (Ipv6Addr 0 0 0 0 0 0xffff 0 0), 96) x \<longleftrightarrow>
       a = 0 \<and> b = 0 \<and> c = 0 \<and> d = 0 \<and> e = 0 \<and> f = 0xffff"
proof -
  show "in_block 128 (ipv6_num (Ipv6Addr 0 0 0 0 0 0 0 0), 128) x \<longleftrightarrow> Ipv6Addr a b c d e f g h = Ipv6Addr 0 0 0 0 0 0 0 0"
    using horner_eq [of "[a, b, c, d, e, f, g, h]" "[0, 0, 0, 0, 0, 0, 0, 0]" 0 0] x
    by (simp add: in_block_def)
  show "in_block 128 (ipv6_num (Ipv6Addr 0 0 0 0 0 0 0 1), 128) x \<longleftrightarrow> Ipv6Addr a b c d e f g h = Ipv6Addr 0 0 0 0 0 0 0 1"
    using horner_eq [of "[a, b, c, d, e, f, g, h]" "[0, 0, 0, 0, 0, 0, 0, 1]" 0 0] x
    by (simp add: in_block_def)
  show "in_block 128 (ipv6_num (Ipv6Addr 0xff00 0 0 0 0 0 0 0), 8) x \<longleftrightarrow> a AND 0xff00 = 0xff00"
    using v6_prefix(4) [OF x] by (simp add: in_block_def and_mask_iff)
  show "in_block 128 (ipv6_num (Ipv6Addr 0xfc00 0 0 0 0 0 0 0), 7) x \<longleftrightarrow> a AND 0xfe00 = 0xfc00"
    using v6_prefix(5) [OF x] by (simp add: in_block_def and_mask_iff)
  show "in_block 128 (ipv6_num (Ipv6Addr 0xfe80 0 0 0 0 0 0 0), 10) x \<longleftrightarrow> a AND 0xffc0 = 0xfe80"
    using v6_prefix(6) [OF x] by (simp add: in_block_def and_mask_iff)
  show "in_block 128 (ipv6_num (Ipv6Addr 0x2001 0xdb8 0 0 0 0 0 0), 32) x \<longleftrightarrow> a = 0x2001 \<and> b = 0xdb8"
    using v6_prefix(2) [OF x] horner_eq [of "[a, b]" "[0x2001, 0xdb8]" 0 0] by (simp add: in_block_def)
  show "in_block 128 (ipv6_num (Ipv6Addr 0 0 0 0 0 0xffff 0 0), 96) x \<longleftrightarrow>
       a = 0 \<and> b = 0 \<and> c = 0 \<and> d = 0 \<and> e = 0 \<and> f = 0xffff"
    using v6_prefix(3) [OF x] horner_eq [of "[a, b, c, d, e, f]" "[0, 0, 0, 0, 0, 0xffff]" 0 0]
    by (simp add: in_block_def)
qed

lemma octets_of_segment:
  fixes g :: u16
  shows "unat (ucast (drop_bit 8 g) :: u8) * 256 + unat (ucast g :: u8) = unat g"
proof -
  have "unat (ucast (drop_bit 8 g) :: u8) = unat g div 256"
    using u16_bound [of g]
    by (simp only: unsigned_ucast_eq unat_drop_bit_eq) (simp add: take_bit_eq_mod drop_bit_eq_div)
  moreover have "unat (ucast g :: u8) = unat g mod 256"
    by (simp only: unsigned_ucast_eq) (simp add: take_bit_eq_mod)
  ultimately show ?thesis by simp
qed

lemma mapped_num:
  assumes "to_ipv4_mapped ip = Some v4"
  shows "ipv6_num ip mod 2 ^ 32 = ipv4_num v4"
proof (cases ip)
  case (Ipv6Addr a b c d e f g h)
  then have "v4 = Ipv4Addr (ucast (drop_bit 8 g)) (ucast g) (ucast (drop_bit 8 h)) (ucast h)"
    using assms by (auto split: if_splits)
  then have "ipv4_num v4 = unat g * 65536 + unat h"
    using octets_of_segment [of g] octets_of_segment [of h] by (simp add: add.commute)
  then show ?thesis using v6_prefix(7) [OF refl, of a b c d e f g h] Ipv6Addr by simp
qed

text \<open>An address, as a number, in none of the documented blocks.\<close>

definition outside_v4 :: "nat \<Rightarrow> bool" where
  "outside_v4 x \<longleftrightarrow> (\<forall>(base, len) \<in> set blocked_v4. \<not> in_block 32 (ipv4_num base, len) x)"

definition outside_v6 :: "nat \<Rightarrow> bool" where
  "outside_v6 x \<longleftrightarrow> (\<forall>(base, len) \<in> set blocked_v6. \<not> in_block 128 (ipv6_num base, len) x)"

definition mapped_block :: "nat \<times> nat" where
  "mapped_block = (ipv6_num (Ipv6Addr 0 0 0 0 0 0xffff 0 0), 96)"

fun public_spec :: "ip_addr \<Rightarrow> bool" where
  "public_spec (V4 ip) = outside_v4 (ipv4_num ip)"
| "public_spec (V6 ip) =
     (if in_block 128 mapped_block (ipv6_num ip) then outside_v4 (ipv6_num ip mod 2 ^ 32)
      else outside_v6 (ipv6_num ip))"

lemma mapped_block_iff: "in_block 128 mapped_block (ipv6_num ip) \<longleftrightarrow> to_ipv4_mapped ip \<noteq> None"
  unfolding mapped_block_def by (cases ip) (simp add: in_block_v6(7) [OF refl] del: ipv6_num.simps)

lemma ipv6_is_public_iff: "ipv6_is_public ip \<longleftrightarrow> outside_v6 (ipv6_num ip)"
  by (cases ip) (auto simp: outside_v6_def blocked_v6_def in_block_v6 [OF refl] Let_def simp del: ipv6_num.simps)

lemma first_blocked_None: "first_blocked addrs = None \<longleftrightarrow> (\<forall>a \<in> set addrs. ip_is_public (sa_ip a))"
  by (induction addrs) auto

lemma ip_is_public_spec: "ip_is_public ip = public_spec ip"
proof (cases ip)
  case (V4 v4)
  then show ?thesis by (simp add: ipv4_is_public_iff outside_v4_def)
next
  case (V6 v6)
  show ?thesis
  proof (cases "to_ipv4_mapped v6")
    case None
    then show ?thesis using V6 by (simp add: mapped_block_iff ipv6_is_public_iff)
  next
    case (Some v4)
    then show ?thesis
      using V6 mapped_num [OF Some] by (simp add: mapped_block_iff ipv4_is_public_iff outside_v4_def)
  qed
qed

lemma first_blocked_Some: "first_blocked addrs = Some ip \<Longrightarrow> \<not> (\<forall>a \<in> set addrs. ip_is_public (sa_ip a))"
  using first_blocked_None [of addrs] by auto

lemma filtering_resolve_Ok:
  "filtering_resolve lookup host = Ok addrs \<longleftrightarrow>
     lookup (host @ '':0'') = Ok addrs \<and> (\<forall>a \<in> set addrs. ip_is_public (sa_ip a))"
  by (auto simp: filtering_resolve_def first_blocked_None dest: first_blocked_Some split: result.splits option.splits)

lemma guard_tcp_host_Ok:
  "guard_tcp_host False lookup host port = Ok () \<longleftrightarrow>
     (\<exists>addrs. lookup host port = Ok addrs \<and> (\<forall>a \<in> set addrs. ip_is_public (sa_ip a)))"
  by (auto simp: guard_tcp_host_def first_blocked_None dest: first_blocked_Some split: result.splits option.splits)

lemma guard_url_host_Ok:
  "guard_url_host False parse url = Ok () \<longleftrightarrow>
     (\<exists>h. parse url = Ok (Some h) \<and>
        (case h of HostDomain d \<Rightarrow> True | HostIpv4 ip \<Rightarrow> ip_is_public (V4 ip) | HostIpv6 ip \<Rightarrow> ip_is_public (V6 ip)))"
  by (simp add: guard_url_host_def del: ip_is_public.simps split: result.splits option.splits url_host.splits)

section \<open>Properties\<close>

text \<open>
  C14. The address predicate, written with octet comparisons and masks, is exactly membership in
  none of the documented blocks: an IPv4 address as a 32-bit number, an IPv4-mapped IPv6 address
  (\<open>::ffff:0:0/96\<close>) through its low 32 bits, any other IPv6 address as a 128-bit number.
\<close>

theorem ip_is_public_blocks: "ip_is_public ip = public_spec ip"
  by (rule ip_is_public_spec)

text \<open>
  C17. The three guards let through exactly what they document. The resolver returns the lookup of
  the name unchanged when every address is public, and an error when one is not (there is no subset
  to keep); the TCP guard accepts exactly the targets all of whose addresses are public; the URL
  guard accepts a literal address exactly when it is public, leaves names to the resolver and
  refuses a URL without a host.
\<close>

theorem guards_accept_exactly_public:
  "(filtering_resolve lookup host = Ok addrs \<longleftrightarrow>
      lookup (host @ '':0'') = Ok addrs \<and> (\<forall>a \<in> set addrs. public_spec (sa_ip a)))
   \<and> (guard_tcp_host False lookup_tcp host port = Ok () \<longleftrightarrow>
      (\<exists>as. lookup_tcp host port = Ok as \<and> (\<forall>a \<in> set as. public_spec (sa_ip a))))
   \<and> (guard_url_host False parse url = Ok () \<longleftrightarrow>
      (\<exists>h. parse url = Ok (Some h) \<and>
        (case h of HostDomain d \<Rightarrow> True | HostIpv4 ip \<Rightarrow> public_spec (V4 ip) | HostIpv6 ip \<Rightarrow> public_spec (V6 ip))))"
  by (simp only: filtering_resolve_Ok guard_tcp_host_Ok guard_url_host_Ok ip_is_public_spec simp_thms)

definition demo_addrs :: "ip_addr \<Rightarrow> string \<Rightarrow> (socket_addr list, string) result" where
  "demo_addrs ip name = Ok [\<lparr> sa_ip = V4 (Ipv4Addr 8 8 8 8), sa_port = 0 \<rparr>, \<lparr> sa_ip = ip, sa_port = 0 \<rparr>]"

theorem guards_accept_exactly_public_witness:
  "\<not> is_ok (filtering_resolve (demo_addrs (V4 (Ipv4Addr 169 254 169 254))) ''a.test'')
   \<and> is_ok (filtering_resolve (demo_addrs (V4 (Ipv4Addr 1 1 1 1))) ''a.test'')"
proof
  show "\<not> is_ok (filtering_resolve (demo_addrs (V4 (Ipv4Addr 169 254 169 254))) ''a.test'')"
    using guards_accept_exactly_public [of "demo_addrs (V4 (Ipv4Addr 169 254 169 254))" "''a.test''"]
    by (auto simp: is_ok_iff demo_addrs_def ip_is_public_spec [symmetric] Let_def word_le_nat_alt)
  show "is_ok (filtering_resolve (demo_addrs (V4 (Ipv4Addr 1 1 1 1))) ''a.test'')"
    using guards_accept_exactly_public [of "demo_addrs (V4 (Ipv4Addr 1 1 1 1))" "''a.test''"]
    by (auto simp: is_ok_iff demo_addrs_def ip_is_public_spec [symmetric] Let_def word_le_nat_alt)
qed

text \<open>
  The documentation says globally routable; multicast, the rest of \<open>0.0.0.0/8\<close> and IPv6 addresses
  that embed an IPv4 address other than as mapped are accepted.
\<close>

lemma non_global_accepted:
  "ip_is_public (V4 (Ipv4Addr 224 0 0 1))" "ip_is_public (V4 (Ipv4Addr 0 1 2 3))"
  "ip_is_public (V6 (Ipv6Addr 0 0 0 0 0 0 0x7f00 1))"
  "ip_is_public (V6 (Ipv6Addr 0x64 0xff9b 0 0 0 0 0x7f00 1))"
  by (simp_all add: Let_def)

end
