(* ===== verification/Durable_Sockets.thy ===== *)
theory Durable_Sockets
  imports Semaphore Rust_Str "HOL-Library.AList"
begin

text \<open>
  \<open>src/durable/sockets.rs\<close>: the table of the WebSockets of Durable Objects. The table is an
  association list per object, as the code has a map of maps; the channel to the task of a socket is
  part of an explicit store, indexed by the task, because the table and the task share it.
\<close>

section \<open>State\<close>

type_synonym web_socket_id = nat

type_synonym object_ref = "string \<times> string"

datatype ws_outgoing =
    OutText string
  | OutBinary "u8 list"
  | OutClose u16 string

fun is_close :: "ws_outgoing \<Rightarrow> bool" where
  "is_close (OutClose _ _) = True"
| "is_close _ = False"

text \<open>
  \<open>so_task\<close> stands for the two channel ends the socket holds, which lead to the task spawned with
  it; \<open>so_attach\<close> tells whether the one-shot end of the hand-over is still there.
\<close>

record socket =
  so_task :: nat
  so_attach :: bool
  so_tags :: "string list"
  so_attachment :: "u8 list option"
  so_hibernatable :: bool

record sock_channel =
  ch_out :: "ws_outgoing list"
  ch_upgrade :: bool
  ch_open :: bool

type_synonym socket_table = "(object_ref \<times> (web_socket_id \<times> socket) list) list"

record 's sockets_state =
  sockets :: socket_table
  channels :: "sock_channel list"
  ws_slots :: 's

definition MAX_SOCKETS_PER_OBJECT :: nat where
  "MAX_SOCKETS_PER_OBJECT = 32768"

definition object_sockets :: "socket_table \<Rightarrow> object_ref \<Rightarrow> (web_socket_id \<times> socket) list" where
  "object_sockets tbl k = (case map_of tbl k of Some obj \<Rightarrow> obj | None \<Rightarrow> [])"

definition find_socket :: "socket_table \<Rightarrow> object_ref \<Rightarrow> web_socket_id \<Rightarrow> socket option" where
  "find_socket tbl k w = map_of (object_sockets tbl k) w"

text \<open>A send on the channel of a task: lost once the task has dropped its end.\<close>

definition chan_send :: "nat \<Rightarrow> ws_outgoing \<Rightarrow> sock_channel list \<Rightarrow> sock_channel list" where
  "chan_send t message chans =
     (if t < length chans \<and> ch_open (chans ! t)
      then chans[t := (chans ! t)\<lparr> ch_out := ch_out (chans ! t) @ [message] \<rparr>]
      else chans)"

section \<open>Operations\<close>

definition socket_accept ::
  "'s semaphore_ops \<Rightarrow> object_ref \<Rightarrow> web_socket_id \<Rightarrow> string list \<Rightarrow> bool
   \<Rightarrow> 's sockets_state \<Rightarrow> 's sockets_state \<times> (unit, string) result" where
  "socket_accept S k w tags hib st =
     (case sem_take S (ws_slots st) of
        None \<Rightarrow> (st, Err ''too many WebSockets are open on this runner'')
      | Some slots \<Rightarrow>
          let obj = object_sockets (sockets st) k in
          if MAX_SOCKETS_PER_OBJECT \<le> length obj
          then (st\<lparr> ws_slots := sem_release S slots \<rparr>,
                Err (''a Durable Object has at most '' @ show_nat MAX_SOCKETS_PER_OBJECT @ '' WebSockets''))
          else (st\<lparr> sockets := AList.update k (AList.update w
                    \<lparr> so_task = length (channels st), so_attach = True, so_tags = tags,
                      so_attachment = None, so_hibernatable = hib \<rparr> obj) (sockets st),
                  channels := channels st @ [\<lparr> ch_out = [], ch_upgrade = False, ch_open = True \<rparr>],
                  ws_slots := slots \<rparr>, Ok ()))"

definition socket_attach ::
  "object_ref \<Rightarrow> web_socket_id \<Rightarrow> 's sockets_state \<Rightarrow> 's sockets_state \<times> bool" where
  "socket_attach k w st =
     (case find_socket (sockets st) k w of
        None \<Rightarrow> (st, False)
      | Some s \<Rightarrow>
          if so_attach s
          then let taken = st\<lparr> sockets := AList.update k
                     (AList.update w (s\<lparr> so_attach := False \<rparr>) (object_sockets (sockets st) k)) (sockets st) \<rparr>;
                   c = channels st ! so_task s
               in if so_task s < length (channels st) \<and> ch_open c \<and> \<not> ch_upgrade c
                  then (taken\<lparr> channels := (channels st)[so_task s := c\<lparr> ch_upgrade := True \<rparr>] \<rparr>, True)
                  else (taken, False)
          else (st, False))"

definition socket_send ::
  "object_ref \<Rightarrow> web_socket_id \<Rightarrow> ws_outgoing \<Rightarrow> 's sockets_state \<Rightarrow> 's sockets_state" where
  "socket_send k w message st =
     (case map_of (sockets st) k of
        None \<Rightarrow> st
      | Some obj \<Rightarrow>
          let sent = (case map_of obj w of
                        Some s \<Rightarrow> st\<lparr> channels := chan_send (so_task s) message (channels st) \<rparr>
                      | None \<Rightarrow> st)
          in if is_close message
             then sent\<lparr> sockets := AList.update k (AList.delete w obj) (sockets st) \<rparr>
             else sent)"

definition set_attachment ::
  "object_ref \<Rightarrow> web_socket_id \<Rightarrow> u8 list option \<Rightarrow> 's sockets_state \<Rightarrow> 's sockets_state" where
  "set_attachment k w value st =
     (case find_socket (sockets st) k w of
        None \<Rightarrow> st
      | Some s \<Rightarrow> st\<lparr> sockets := AList.update k
          (AList.update w (s\<lparr> so_attachment := value \<rparr>) (object_sockets (sockets st) k)) (sockets st) \<rparr>)"

definition hibernatable_sockets ::
  "object_ref \<Rightarrow> 's sockets_state \<Rightarrow> (web_socket_id \<times> string list \<times> u8 list option) list" where
  "hibernatable_sockets k st =
     map (\<lambda>(w, s). (w, so_tags s, so_attachment s))
       (filter (\<lambda>(w, s). so_hibernatable s) (object_sockets (sockets st) k))"

text \<open>
  \<open>close_where\<close> visits every socket of every object; the selected ones leave the table after a close
  is put on their channel, and objects left without a socket leave the table.
\<close>

fun close_entry ::
  "(object_ref \<Rightarrow> socket \<Rightarrow> bool) \<Rightarrow> ws_outgoing \<Rightarrow> object_ref \<Rightarrow> (web_socket_id \<times> socket) list
   \<Rightarrow> sock_channel list \<Rightarrow> (web_socket_id \<times> socket) list \<times> sock_channel list" where
  "close_entry which message k [] chans = ([], chans)"
| "close_entry which message k ((w, s) # obj) chans =
     (if \<not> which k s
      then let (obj', chans') = close_entry which message k obj chans in ((w, s) # obj', chans')
      else close_entry which message k obj (chan_send (so_task s) message chans))"

fun close_table ::
  "(object_ref \<Rightarrow> socket \<Rightarrow> bool) \<Rightarrow> ws_outgoing \<Rightarrow> socket_table \<Rightarrow> sock_channel list
   \<Rightarrow> socket_table \<times> sock_channel list" where
  "close_table which message [] chans = ([], chans)"
| "close_table which message ((k, obj) # tbl) chans =
     (let (obj', chans') = close_entry which message k obj chans;
          (tbl', chans'') = close_table which message tbl chans'
      in ((k, obj') # tbl', chans''))"

definition close_where ::
  "(object_ref \<Rightarrow> socket \<Rightarrow> bool) \<Rightarrow> u16 \<Rightarrow> string \<Rightarrow> 's sockets_state \<Rightarrow> 's sockets_state" where
  "close_where which code reason st =
     (let (tbl, chans) = close_table which (OutClose code reason) (sockets st) (channels st)
      in st\<lparr> sockets := filter (\<lambda>(k, obj). obj \<noteq> []) tbl, channels := chans \<rparr>)"

definition close_object :: "string \<Rightarrow> string \<Rightarrow> u16 \<Rightarrow> string \<Rightarrow> 's sockets_state \<Rightarrow> 's sockets_state" where
  "close_object ns oid code reason = close_where (\<lambda>k _. fst k = ns \<and> snd k = oid) code reason"

definition close_namespace :: "string \<Rightarrow> 's sockets_state \<Rightarrow> 's sockets_state" where
  "close_namespace ns =
     close_where (\<lambda>k _. fst k = ns) 1001 ''the Durable Object namespace was deleted''"

definition instance_ended :: "string \<Rightarrow> string \<Rightarrow> 's sockets_state \<Rightarrow> 's sockets_state" where
  "instance_ended ns oid =
     close_where (\<lambda>k s. fst k = ns \<and> snd k = oid \<and> \<not> so_hibernatable s) 1011 ''the Durable Object stopped''"

definition forget_socket :: "object_ref \<Rightarrow> web_socket_id \<Rightarrow> 's sockets_state \<Rightarrow> 's sockets_state" where
  "forget_socket k w st =
     (case map_of (sockets st) k of
        None \<Rightarrow> st
      | Some obj \<Rightarrow>
          let obj' = AList.delete w obj in
          st\<lparr> sockets := (if obj' = [] then AList.delete k (sockets st) else AList.update k obj' (sockets st)) \<rparr>)"

section \<open>Runs of the table\<close>

text \<open>
  What changes the table and the channels: the operations above, a task that takes the next message
  of its channel, and a task that ends once its socket is out of the table, which gives its slot back.
\<close>

datatype sockets_event =
    EvAccept object_ref web_socket_id "string list" bool
  | EvAttach object_ref web_socket_id
  | EvSend object_ref web_socket_id ws_outgoing
  | EvSetAttachment object_ref web_socket_id "u8 list option"
  | EvCloseObject string string u16 string
  | EvCloseNamespace string
  | EvInstanceEnded string string
  | EvForget object_ref web_socket_id
  | EvTake nat
  | EvTaskEnd nat

definition task_take :: "nat \<Rightarrow> 's sockets_state \<Rightarrow> 's sockets_state option" where
  "task_take t st =
     (if t < length (channels st) \<and> ch_open (channels st ! t) \<and> ch_out (channels st ! t) \<noteq> []
      then Some (st\<lparr> channels := (channels st)[t := (channels st ! t)\<lparr> ch_out := tl (ch_out (channels st ! t)) \<rparr>] \<rparr>)
      else None)"

definition table_tasks :: "socket_table \<Rightarrow> nat list" where
  "table_tasks tbl = map (so_task \<circ> snd) (concat (map snd tbl))"

definition task_end :: "'s semaphore_ops \<Rightarrow> nat \<Rightarrow> 's sockets_state \<Rightarrow> 's sockets_state option" where
  "task_end S t st =
     (if t < length (channels st) \<and> ch_open (channels st ! t) \<and> t \<notin> set (table_tasks (sockets st))
      then Some (st\<lparr> channels := (channels st)[t := (channels st ! t)\<lparr> ch_open := False \<rparr>],
                     ws_slots := sem_release S (ws_slots st) \<rparr>)
      else None)"

fun sockets_step ::
  "'s semaphore_ops \<Rightarrow> 's sockets_state \<Rightarrow> sockets_event \<Rightarrow> 's sockets_state option" where
  "sockets_step S st (EvAccept k w tags hib) =
     (if find_socket (sockets st) k w = None then Some (fst (socket_accept S k w tags hib st)) else None)"
| "sockets_step S st (EvAttach k w) = Some (fst (socket_attach k w st))"
| "sockets_step S st (EvSend k w message) = Some (socket_send k w message st)"
| "sockets_step S st (EvSetAttachment k w value) = Some (set_attachment k w value st)"
| "sockets_step S st (EvCloseObject ns oid code reason) = Some (close_object ns oid code reason st)"
| "sockets_step S st (EvCloseNamespace ns) = Some (close_namespace ns st)"
| "sockets_step S st (EvInstanceEnded ns oid) = Some (instance_ended ns oid st)"
| "sockets_step S st (EvForget k w) = Some (forget_socket k w st)"
| "sockets_step S st (EvTake t) = task_take t st"
| "sockets_step S st (EvTaskEnd t) = task_end S t st"

definition sockets_start :: "'s semaphore_ops \<Rightarrow> nat \<Rightarrow> 's sockets_state" where
  "sockets_start S cap = \<lparr> sockets = [], channels = [], ws_slots = sem_new S cap \<rparr>"

section \<open>The table as a map\<close>

declare split_paired_All [simp del] split_paired_Ex [simp del]

definition wf_table :: "socket_table \<Rightarrow> bool" where
  "wf_table tbl \<longleftrightarrow> distinct (map fst tbl) \<and> (\<forall>(k, obj) \<in> set tbl. distinct (map fst obj))"

definition flat :: "socket_table \<Rightarrow> ((object_ref \<times> web_socket_id) \<times> socket) list" where
  "flat tbl = concat (map (\<lambda>(k, obj). map (\<lambda>(w, s). ((k, w), s)) obj) tbl)"

lemma flat_simps [simp]:
  "flat [] = []" "flat ((k, obj) # tbl) = map (\<lambda>(w, s). ((k, w), s)) obj @ flat tbl"
  by (simp_all add: flat_def)

lemma wf_table_simps [simp]:
  "wf_table []"
  "wf_table ((k, obj) # tbl) \<longleftrightarrow> k \<notin> fst ` set tbl \<and> distinct (map fst obj) \<and> wf_table tbl"
  by (auto simp: wf_table_def)

lemma flat_key: "((k, w), s) \<in> set (flat tbl) \<Longrightarrow> k \<in> fst ` set tbl"
  by (induction tbl) auto

lemma distinct_pairs: "distinct (map fst (map (\<lambda>(w, s). ((k, w), s)) obj)) \<longleftrightarrow> distinct (map fst obj)"
  by (induction obj) (auto simp: image_iff)

lemma distinct_flat: "wf_table tbl \<Longrightarrow> distinct (map fst (flat tbl))"
proof (induction tbl)
  case (Cons e tbl)
  obtain k obj where e: "e = (k, obj)" by (cases e)
  have "distinct (map fst (map (\<lambda>(w, s). ((k, w), s)) obj))"
    using Cons.prems e by (simp only: distinct_pairs) simp
  then show ?case using Cons e by (auto dest: flat_key)
qed simp

lemma map_of_pairs: "map_of (map (\<lambda>(w, s). ((k, w), s)) obj) (k', w) = (if k' = k then map_of obj w else None)"
  by (induction obj) auto

lemma map_of_flat: "wf_table tbl \<Longrightarrow> map_of (flat tbl) (k, w) = find_socket tbl k w"
proof (induction tbl)
  case (Cons e tbl)
  obtain k' obj where e: "e = (k', obj)" by (cases e)
  have "k' = k \<Longrightarrow> find_socket tbl k w = None"
    using Cons.prems e map_of_eq_None_iff [of tbl k] by (auto simp: find_socket_def object_sockets_def)
  then show ?case
    using Cons e by (auto simp: map_add_def map_of_pairs find_socket_def object_sockets_def split: option.splits)
qed (simp add: find_socket_def object_sockets_def)

lemma set_flat: "wf_table tbl \<Longrightarrow> ((k, w), s) \<in> set (flat tbl) \<longleftrightarrow> find_socket tbl k w = Some s"
  using map_of_flat distinct_flat by (metis map_of_eq_Some_iff)

lemma table_tasks_flat: "table_tasks tbl = map (so_task \<circ> snd) (flat tbl)"
  by (induction tbl) (auto simp: table_tasks_def)

lemma set_table_tasks:
  "wf_table tbl \<Longrightarrow> t \<in> set (table_tasks tbl) \<longleftrightarrow> (\<exists>k w s. find_socket tbl k w = Some s \<and> so_task s = t)"
  by (force simp: table_tasks_flat set_flat [symmetric])

lemma object_sockets_update [simp]:
  "object_sockets (AList.update k obj tbl) k' = (if k' = k then obj else object_sockets tbl k')"
  by (simp add: object_sockets_def update_conv')

lemma object_sockets_delete [simp]:
  "object_sockets (AList.delete k tbl) k' = (if k' = k then [] else object_sockets tbl k')"
  by (simp add: object_sockets_def delete_conv')

lemma wf_object_sockets: "wf_table tbl \<Longrightarrow> distinct (map fst (object_sockets tbl k))"
  by (auto simp: wf_table_def object_sockets_def dest!: map_of_SomeD split: option.splits)

lemma wf_table_update:
  assumes "wf_table tbl" "distinct (map fst obj)"
  shows "wf_table (AList.update k obj tbl)"
proof -
  have "set (AList.update k obj tbl) \<subseteq> insert (k, obj) (set tbl)"
    by (induction tbl) auto
  then show ?thesis using assms by (auto simp: wf_table_def distinct_update)
qed

lemma wf_table_delete: "wf_table tbl \<Longrightarrow> wf_table (AList.delete k tbl)"
  by (auto simp: wf_table_def AList.delete_eq distinct_map_filter)

lemma find_socket_update:
  "find_socket (AList.update k obj tbl) k' w = (if k' = k then map_of obj w else find_socket tbl k' w)"
  by (simp add: find_socket_def)


section \<open>Closing\<close>

lemma close_entry_conv:
  "close_entry which message k obj chans =
     (filter (\<lambda>(w, s). \<not> which k s) obj,
      fold (\<lambda>t. chan_send t message) (map (so_task \<circ> snd) (filter (\<lambda>(w, s). which k s) obj)) chans)"
  by (induction obj arbitrary: chans) auto

lemma close_table_conv:
  "close_table which message tbl chans =
     (map (\<lambda>(k, obj). (k, filter (\<lambda>(w, s). \<not> which k s) obj)) tbl,
      fold (\<lambda>t. chan_send t message)
        (map (so_task \<circ> snd) (filter (\<lambda>((k, w), s). which k s) (flat tbl))) chans)"
proof (induction tbl arbitrary: chans)
  case (Cons e tbl)
  obtain k obj where "e = (k, obj)" by (cases e)
  moreover have "filter (\<lambda>((k, w), s). which k s) (map (\<lambda>(w, s). ((k, w), s)) obj) =
      map (\<lambda>(w, s). ((k, w), s)) (filter (\<lambda>(w, s). which k s) obj)"
    by (induction obj) auto
  ultimately show ?case using Cons by (simp add: close_entry_conv comp_def split_def)
qed simp

lemma map_of_filter_distinct:
  "distinct (map fst xs) \<Longrightarrow>
     map_of (filter (\<lambda>(k, v). P k v) xs) k = (case map_of xs k of Some v \<Rightarrow> if P k v then Some v else None | None \<Rightarrow> None)"
  by (induction xs) (auto simp: map_of_eq_None_iff [symmetric] split: option.splits)

lemma map_of_map_keyed: "map_of (map (\<lambda>(k, v). (k, f k v)) xs) k = map_option (f k) (map_of xs k)"
  by (induction xs) auto

text \<open>What is left of the table after a close, as a map.\<close>

lemma find_socket_close_where:
  assumes "wf_table (sockets st)"
  shows "find_socket (sockets (close_where which code reason st)) k w =
    (case find_socket (sockets st) k w of Some s \<Rightarrow> if which k s then None else Some s | None \<Rightarrow> None)"
proof -
  let ?tbl = "map (\<lambda>(k, obj). (k, filter (\<lambda>(w, s). \<not> which k s) obj)) (sockets st)"
  have d: "distinct (map fst ?tbl)" using assms by (auto simp: wf_table_def comp_def split_def)
  have "map_of ?tbl k = map_option (filter (\<lambda>(w, s). \<not> which k s)) (map_of (sockets st) k)"
    by (rule map_of_map_keyed)
  then have "object_sockets (filter (\<lambda>(k, obj). obj \<noteq> []) ?tbl) k =
      filter (\<lambda>(w, s). \<not> which k s) (object_sockets (sockets st) k)"
    using map_of_filter_distinct [OF d, of "\<lambda>k obj. obj \<noteq> []" k]
    by (auto simp: object_sockets_def split: option.splits)
  then show ?thesis
    using map_of_filter_distinct [OF wf_object_sockets [OF assms], of "\<lambda>w s. \<not> which k s"]
    by (auto simp: find_socket_def close_where_def close_table_conv split: option.splits)
qed

lemma wf_table_close_where:
  assumes "wf_table (sockets st)"
  shows "wf_table (sockets (close_where which code reason st))"
  using assms
  by (auto simp: close_where_def close_table_conv wf_table_def comp_def split_def
      intro!: distinct_map_filter)

text \<open>A send to each of several distinct tasks appends the message to each of them once.\<close>

lemma length_chan_send [simp]: "length (chan_send t message chans) = length chans"
  by (simp add: chan_send_def)

lemma chan_send_nth:
  "i < length chans \<Longrightarrow> chan_send t message chans ! i =
     (if i = t \<and> ch_open (chans ! i) then (chans ! i)\<lparr> ch_out := ch_out (chans ! i) @ [message] \<rparr> else chans ! i)"
  by (auto simp: chan_send_def)

lemma length_chan_sends [simp]: "length (fold (\<lambda>t. chan_send t message) ts chans) = length chans"
  by (induction ts arbitrary: chans) auto

lemma chan_sends_nth:
  "distinct ts \<Longrightarrow> i < length chans \<Longrightarrow> fold (\<lambda>t. chan_send t message) ts chans ! i =
     (if i \<in> set ts \<and> ch_open (chans ! i) then (chans ! i)\<lparr> ch_out := ch_out (chans ! i) @ [message] \<rparr> else chans ! i)"
proof (induction ts arbitrary: chans)
  case (Cons t ts)
  then show ?case using Cons.IH [of "chan_send t message chans"] by (auto simp: chan_send_nth)
qed simp

section \<open>Invariant\<close>

text \<open>A close is the last message of a channel.\<close>

definition close_last :: "ws_outgoing list \<Rightarrow> bool" where
  "close_last out \<longleftrightarrow> (\<forall>m \<in> set (butlast out). \<not> is_close m)"

definition no_close :: "ws_outgoing list \<Rightarrow> bool" where
  "no_close out \<longleftrightarrow> (\<forall>m \<in> set out. \<not> is_close m)"

lemma close_last_append: "no_close out \<Longrightarrow> close_last (out @ [m])"
  by (simp add: close_last_def no_close_def)

lemma no_close_last: "no_close out \<Longrightarrow> close_last out"
  by (auto simp: close_last_def no_close_def dest: in_set_butlastD)

lemma no_close_append [simp]: "no_close (out @ [m]) \<longleftrightarrow> no_close out \<and> \<not> is_close m"
  by (auto simp: no_close_def)

lemma no_close_Nil [simp]: "no_close []"
  by (simp add: no_close_def)

lemma close_last_tl: "close_last out \<Longrightarrow> close_last (tl out)"
  by (cases out) (auto simp: close_last_def split: if_splits)

lemma no_close_tl: "no_close out \<Longrightarrow> no_close (tl out)"
  by (cases out) (auto simp: no_close_def)

text \<open>
  Each socket of the table has a task of its own that is there, with no close in its channel; in
  every channel a close comes last; an object has at most the documented number of sockets; and
  every task that is there holds one of the \<open>cap\<close> slots.
\<close>

definition own_tasks :: "socket_table \<Rightarrow> bool" where
  "own_tasks tbl \<longleftrightarrow>
     (\<forall>k w s k' w' s'. find_socket tbl k w = Some s \<and> find_socket tbl k' w' = Some s' \<and> so_task s = so_task s' \<longrightarrow>
        k = k' \<and> w = w')"

definition table_inv :: "socket_table \<Rightarrow> sock_channel list \<Rightarrow> bool" where
  "table_inv tbl chans \<longleftrightarrow>
     wf_table tbl \<and>
     (\<forall>k. length (object_sockets tbl k) \<le> MAX_SOCKETS_PER_OBJECT) \<and>
     (\<forall>k w s. find_socket tbl k w = Some s \<longrightarrow>
        so_task s < length chans \<and> ch_open (chans ! so_task s) \<and> no_close (ch_out (chans ! so_task s))) \<and>
     own_tasks tbl \<and>
     (\<forall>c \<in> set chans. close_last (ch_out c))"

definition sockets_inv :: "'s semaphore_ops \<Rightarrow> nat \<Rightarrow> 's sockets_state \<Rightarrow> bool" where
  "sockets_inv S cap st \<longleftrightarrow>
     table_inv (sockets st) (channels st) \<and>
     sem_available S (ws_slots st) + tally ch_open (channels st) = cap"

lemma table_invD:
  assumes "table_inv tbl chans"
  shows "wf_table tbl" "length (object_sockets tbl k) \<le> MAX_SOCKETS_PER_OBJECT"
    "find_socket tbl k w = Some s \<Longrightarrow>
       so_task s < length chans \<and> ch_open (chans ! so_task s) \<and> no_close (ch_out (chans ! so_task s))"
    "find_socket tbl k w = Some s \<Longrightarrow> find_socket tbl k' w' = Some s' \<Longrightarrow> so_task s = so_task s' \<Longrightarrow> k = k' \<and> w = w'"
    "c \<in> set chans \<Longrightarrow> close_last (ch_out c)" "own_tasks tbl"
  using assms unfolding table_inv_def own_tasks_def by blast+

lemma distinct_tasks:
  assumes "table_inv tbl chans"
  shows "distinct (map (so_task \<circ> snd) (filter P (flat tbl)))"
proof -
  have wf: "wf_table tbl" by (rule table_invD [OF assms])
  have "inj_on (so_task \<circ> snd) (set (flat tbl))"
  proof (rule inj_onI)
    fix x y assume "x \<in> set (flat tbl)" "y \<in> set (flat tbl)" "(so_task \<circ> snd) x = (so_task \<circ> snd) y"
    moreover obtain k w s k' w' s' where "x = ((k, w), s)" "y = ((k', w'), s')" by (metis surj_pair)
    ultimately show "x = y"
      using table_invD(4) [OF assms, of k w s k' w' s'] by (simp add: set_flat [OF wf])
  qed
  moreover have "distinct (flat tbl)"
    using distinct_flat [OF wf] by (simp add: distinct_map)
  ultimately show ?thesis by (simp add: distinct_map inj_on_subset subset_iff)
qed

lemma mem_update_chan: "c \<in> set (chans[t := d]) \<Longrightarrow> c = d \<or> c \<in> set chans"
  by (auto dest!: set_update_subset_insert [THEN subsetD])

text \<open>A table that only lost sockets, or changed them without their task, over unchanged channels.\<close>

lemma table_inv_shrink:
  assumes "table_inv tbl chans" "wf_table tbl'"
    and "\<And>k. length (object_sockets tbl' k) \<le> length (object_sockets tbl k)"
    and "\<And>k w s. find_socket tbl' k w = Some s \<Longrightarrow> \<exists>s'. find_socket tbl k w = Some s' \<and> so_task s' = so_task s"
  shows "table_inv tbl' chans"
proof -
  have "own_tasks tbl'"
    unfolding own_tasks_def
  proof (intro allI impI)
    fix k w s k' w' s'
    assume "find_socket tbl' k w = Some s \<and> find_socket tbl' k' w' = Some s' \<and> so_task s = so_task s'"
    then obtain r r' where "find_socket tbl k w = Some r" "find_socket tbl k' w' = Some r'" "so_task r = so_task r'"
      using assms(4) [of k w s] assms(4) [of k' w' s'] by auto
    then show "k = k' \<and> w = w'" by (rule table_invD(4) [OF assms(1)])
  qed
  moreover have "so_task s < length chans \<and> ch_open (chans ! so_task s) \<and> no_close (ch_out (chans ! so_task s))"
    if s: "find_socket tbl' k w = Some s" for k w s
  proof -
    obtain r where "find_socket tbl k w = Some r" "so_task r = so_task s"
      using assms(4) [OF s] by blast
    then show ?thesis using table_invD(3) [OF assms(1), of k w r] by auto
  qed
  moreover have "length (object_sockets tbl' k) \<le> MAX_SOCKETS_PER_OBJECT" for k
    using assms(3) [of k] table_invD(2) [OF assms(1), of k] by simp
  ultimately show ?thesis
    unfolding table_inv_def using assms(2) table_invD(5) [OF assms(1)] by blast
qed

text \<open>Channels that changed only where no socket of the table, or nothing but an appended frame, shows it.\<close>

lemma table_inv_channels:
  assumes "table_inv tbl chans" "length chans' = length chans"
    and "\<And>k w s. find_socket tbl k w = Some s \<Longrightarrow>
      ch_open (chans' ! so_task s) \<and> no_close (ch_out (chans' ! so_task s))"
    and "\<And>c. c \<in> set chans' \<Longrightarrow> close_last (ch_out c)"
  shows "table_inv tbl chans'"
proof -
  have "so_task s < length chans' \<and> ch_open (chans' ! so_task s) \<and> no_close (ch_out (chans' ! so_task s))"
    if "find_socket tbl k w = Some s" for k w s
    using assms(2) assms(3) [OF that] table_invD(3) [OF assms(1) that] by simp
  then show ?thesis
    unfolding table_inv_def using assms(4) table_invD(1,2,6) [OF assms(1)] by blast
qed

lemma table_inv_frame:
  assumes inv: "table_inv tbl chans" and s: "find_socket tbl k w = Some s" and m: "\<not> is_close m"
  shows "table_inv tbl (chan_send (so_task s) m chans)"
proof (rule table_inv_channels [OF inv])
  note task = table_invD(3) [OF inv]
  show "ch_open (chan_send (so_task s) m chans ! so_task r) \<and>
      no_close (ch_out (chan_send (so_task s) m chans ! so_task r))" if "find_socket tbl k' w' = Some r" for k' w' r
    using task [OF that] task [OF s] m by (simp add: chan_send_nth)
  show "close_last (ch_out c)" if "c \<in> set (chan_send (so_task s) m chans)" for c
    using that task [OF s] table_invD(5) [OF inv] close_last_append
    by (auto simp: chan_send_def dest!: mem_update_chan split: if_splits)
qed simp

lemma table_inv_closes:
  assumes inv: "table_inv tbl chans" and shrunk: "table_inv tbl' chans"
    and ts: "distinct ts" "\<And>t. t \<in> set ts \<Longrightarrow> \<exists>k w s. find_socket tbl k w = Some s \<and> so_task s = t"
    and gone: "\<And>k w s. find_socket tbl' k w = Some s \<Longrightarrow> so_task s \<notin> set ts"
  shows "table_inv tbl' (fold (\<lambda>t. chan_send t m) ts chans)" (is "table_inv _ ?chans")
proof (rule table_inv_channels [OF shrunk])
  show "ch_open (?chans ! so_task s) \<and> no_close (ch_out (?chans ! so_task s))"
    if "find_socket tbl' k w = Some s" for k w s
    using table_invD(3) [OF shrunk that] gone [OF that] by (simp add: chan_sends_nth [OF ts(1)])
  show "close_last (ch_out c)" if c: "c \<in> set ?chans" for c
  proof -
    obtain i where "i < length ?chans" and ci: "?chans ! i = c"
      using c unfolding in_set_conv_nth by blast
    then have i: "i < length chans" "c = ?chans ! i" by simp_all
    show ?thesis
    proof (cases "i \<in> set ts")
      case True
      then obtain k w s where "find_socket tbl k w = Some s" "so_task s = i"
        using ts(2) by blast
      then have "no_close (ch_out (chans ! i))" "ch_open (chans ! i)"
        using table_invD(3) [OF inv, of k w s] by auto
      then show ?thesis using i True by (simp add: chan_sends_nth [OF ts(1)] close_last_append)
    next
      case False
      then show ?thesis
        using i table_invD(5) [OF inv, of "chans ! i"] by (simp add: chan_sends_nth [OF ts(1)])
    qed
  qed
qed simp

lemma length_filter_map_of:
  "length (object_sockets (filter (\<lambda>(k, obj). obj \<noteq> []) tbl) k) \<le> length (object_sockets tbl k)
   \<or> \<not> distinct (map fst tbl)"
  using map_of_filter_distinct [of tbl "\<lambda>k obj. obj \<noteq> []" k]
  by (cases "map_of tbl k") (auto simp: object_sockets_def split: if_splits)

lemma object_sockets_close_where:
  assumes "wf_table (sockets st)"
  shows "length (object_sockets (sockets (close_where which code reason st)) k) \<le> length (object_sockets (sockets st) k)"
proof -
  let ?tbl = "map (\<lambda>(k, obj). (k, filter (\<lambda>(w, s). \<not> which k s) obj)) (sockets st)"
  have "distinct (map fst ?tbl)" using assms by (auto simp: wf_table_def comp_def split_def)
  then have "length (object_sockets (filter (\<lambda>(k, obj). obj \<noteq> []) ?tbl) k) \<le> length (object_sockets ?tbl k)"
    using length_filter_map_of [of ?tbl k] by blast
  also have "\<dots> \<le> length (object_sockets (sockets st) k)"
    by (simp add: object_sockets_def map_of_map_keyed split: option.splits)
  finally show ?thesis by (simp add: close_where_def close_table_conv)
qed

lemma channels_close_where:
  "channels (close_where which code reason st) =
     fold (\<lambda>t. chan_send t (OutClose code reason))
       (map (so_task \<circ> snd) (filter (\<lambda>((k, w), s). which k s) (flat (sockets st)))) (channels st)"
  by (simp add: close_where_def close_table_conv)

lemma table_inv_close_where:
  assumes inv: "table_inv (sockets st) (channels st)"
  shows "table_inv (sockets (close_where which code reason st)) (channels (close_where which code reason st))"
proof -
  have wf: "wf_table (sockets st)" by (rule table_invD [OF inv])
  note find = find_socket_close_where [OF wf, of which code reason]
  have shrunk: "table_inv (sockets (close_where which code reason st)) (channels st)"
    by (rule table_inv_shrink [OF inv wf_table_close_where [OF wf] object_sockets_close_where [OF wf]])
      (auto simp: find split: option.splits if_splits)
  show ?thesis
    unfolding channels_close_where
  proof (rule table_inv_closes [OF inv shrunk distinct_tasks [OF inv]])
    fix k w s assume "find_socket (sockets (close_where which code reason st)) k w = Some s"
    then have s: "find_socket (sockets st) k w = Some s" "\<not> which k s"
      by (auto simp: find split: option.splits if_splits)
    show "so_task s \<notin> set (map (so_task \<circ> snd) (filter (\<lambda>((k, w), s). which k s) (flat (sockets st))))"
    proof
      assume "so_task s \<in> set (map (so_task \<circ> snd) (filter (\<lambda>((k, w), s). which k s) (flat (sockets st))))"
      then obtain k' w' s' where s': "find_socket (sockets st) k' w' = Some s'" "which k' s'" "so_task s = so_task s'"
        by (auto simp: set_flat [OF wf])
      then have "k = k' \<and> w = w'" by (intro table_invD(4) [OF inv s(1)])
      then show False using s s' by simp
    qed
  qed (auto simp: set_flat [OF wf], blast)
qed

lemma length_alist_update:
  "length (AList.update w s xs) = (if w \<in> fst ` set xs then length xs else Suc (length xs))"
  by (induction xs) auto

lemma find_socket_remove:
  "find_socket (AList.update k (AList.delete w (object_sockets tbl k)) tbl) k' w' =
     (if k' = k \<and> w' = w then None else find_socket tbl k' w')"
  by (simp add: find_socket_update delete_conv' find_socket_def)

lemma table_inv_accept:
  assumes inv: "table_inv tbl chans" and free: "find_socket tbl k w = None"
    and room: "length (object_sockets tbl k) < MAX_SOCKETS_PER_OBJECT"
    and s: "so_task s = length chans" and c: "ch_open c" "ch_out c = []"
  shows "table_inv (AList.update k (AList.update w s (object_sockets tbl k)) tbl) (chans @ [c])"
    (is "table_inv ?tbl _")
proof -
  have wf: "wf_table tbl" by (rule table_invD [OF inv])
  have find: "find_socket ?tbl k' w' = (if k' = k \<and> w' = w then Some s else find_socket tbl k' w')" for k' w'
    by (simp add: find_socket_update update_conv' find_socket_def)
  have "wf_table ?tbl"
    by (intro wf_table_update wf distinct_update wf_object_sockets)
  moreover have "length (object_sockets ?tbl k') \<le> MAX_SOCKETS_PER_OBJECT" for k'
  proof -
    have "length (AList.update w s (object_sockets tbl k)) \<le> Suc (length (object_sockets tbl k))"
      by (simp add: length_alist_update)
    then show ?thesis using room table_invD(2) [OF inv, of k'] by auto
  qed
  moreover have "so_task r < length (chans @ [c]) \<and> ch_open ((chans @ [c]) ! so_task r) \<and> no_close (ch_out ((chans @ [c]) ! so_task r))"
    if "find_socket ?tbl k' w' = Some r" for k' w' r
    using that table_invD(3) [OF inv, of k' w' r] s c by (auto simp: find nth_append split: if_splits)
  moreover have "own_tasks ?tbl"
    unfolding own_tasks_def
  proof (intro allI impI)
    fix k1 w1 s1 k2 w2 s2
    assume "find_socket ?tbl k1 w1 = Some s1 \<and> find_socket ?tbl k2 w2 = Some s2 \<and> so_task s1 = so_task s2"
    then show "k1 = k2 \<and> w1 = w2"
      using table_invD(3) [OF inv, of k1 w1 s1] table_invD(3) [OF inv, of k2 w2 s2]
        table_invD(4) [OF inv, of k1 w1 s1 k2 w2 s2] s by (auto simp: find split: if_splits)
  qed
  ultimately show ?thesis
    unfolding table_inv_def using table_invD(5) [OF inv] c by (auto simp: close_last_def)
qed

lemma table_inv_modify:
  assumes inv: "table_inv tbl chans" and s: "find_socket tbl k w = Some s" and "so_task s' = so_task s"
  shows "table_inv (AList.update k (AList.update w s' (object_sockets tbl k)) tbl) chans"
proof (rule table_inv_shrink [OF inv])
  have wf: "wf_table tbl" by (rule table_invD [OF inv])
  show "wf_table (AList.update k (AList.update w s' (object_sockets tbl k)) tbl)"
    by (intro wf_table_update wf distinct_update wf_object_sockets)
  have "w \<in> fst ` set (object_sockets tbl k)"
    using s by (auto simp: find_socket_def dest: map_of_SomeD intro: rev_image_eqI)
  then have "length (AList.update w s' (object_sockets tbl k)) = length (object_sockets tbl k)"
    by (simp add: length_alist_update)
  then show "length (object_sockets (AList.update k (AList.update w s' (object_sockets tbl k)) tbl) k')
      \<le> length (object_sockets tbl k')" for k'
    by simp
qed (use assms(2,3) in \<open>auto simp: find_socket_update update_conv' find_socket_def split: if_splits\<close>)

lemma length_delete_le: "length (AList.delete w obj) \<le> length obj"
  by (simp add: AList.delete_eq)

lemma table_inv_remove:
  assumes inv: "table_inv tbl chans"
  shows "table_inv (AList.update k (AList.delete w (object_sockets tbl k)) tbl) chans"
proof (rule table_inv_shrink [OF inv])
  have wf: "wf_table tbl" by (rule table_invD [OF inv])
  show "wf_table (AList.update k (AList.delete w (object_sockets tbl k)) tbl)"
    by (intro wf_table_update wf distinct_delete wf_object_sockets)
qed (auto simp: find_socket_remove length_delete_le split: if_splits)

lemma table_inv_drop_object:
  assumes inv: "table_inv tbl chans"
  shows "table_inv (AList.delete k tbl) chans"
  by (rule table_inv_shrink [OF inv wf_table_delete [OF table_invD(1) [OF inv]]])
    (auto simp: find_socket_def split: if_splits)

lemma table_inv_send:
  assumes inv: "table_inv (sockets st) (channels st)"
  shows "table_inv (sockets (socket_send k w m st)) (channels (socket_send k w m st))"
proof (cases "map_of (sockets st) k")
  case None
  then show ?thesis using inv by (simp add: socket_send_def)
next
  case (Some obj)
  then have obj: "obj = object_sockets (sockets st) k" by (simp add: object_sockets_def)
  show ?thesis
  proof (cases "map_of obj w")
    case None
    then show ?thesis
      using Some inv table_inv_remove [OF inv, of k w] obj by (simp add: socket_send_def Let_def)
  next
    case s: (Some s)
    then have find: "find_socket (sockets st) k w = Some s" by (simp add: find_socket_def obj)
    let ?tbl = "AList.update k (AList.delete w (object_sockets (sockets st) k)) (sockets st)"
    have "table_inv ?tbl (fold (\<lambda>t. chan_send t m) [so_task s] (channels st))"
    proof (rule table_inv_closes [OF inv table_inv_remove [OF inv]])
      fix k' w' r assume "find_socket ?tbl k' w' = Some r"
      then have r: "find_socket (sockets st) k' w' = Some r" "\<not> (k' = k \<and> w' = w)"
        by (simp_all add: find_socket_remove split: if_splits)
      then show "so_task r \<notin> set [so_task s]" using table_invD(4) [OF inv r(1) find] by auto
    qed (use find in \<open>auto\<close>)
    then show ?thesis
      using Some s table_inv_frame [OF inv find, of m] obj by (simp add: socket_send_def Let_def)
  qed
qed

lemma table_inv_forget:
  assumes inv: "table_inv (sockets st) (channels st)"
  shows "table_inv (sockets (forget_socket k w st)) (channels (forget_socket k w st))"
  using inv table_inv_drop_object [OF inv, of k] table_inv_remove [OF inv, of k w]
  by (auto simp: forget_socket_def Let_def object_sockets_def split: option.splits)

lemma table_inv_attach:
  assumes inv: "table_inv (sockets st) (channels st)"
  shows "table_inv (sockets (fst (socket_attach k w st))) (channels (fst (socket_attach k w st)))"
proof (cases "find_socket (sockets st) k w")
  case None
  then show ?thesis using inv by (simp add: socket_attach_def)
next
  case (Some s)
  let ?tbl = "AList.update k (AList.update w (s\<lparr> so_attach := False \<rparr>) (object_sockets (sockets st) k)) (sockets st)"
  let ?c = "channels st ! so_task s"
  have tbl: "table_inv ?tbl (channels st)"
    by (rule table_inv_modify [OF inv Some]) simp
  have "table_inv ?tbl ((channels st)[so_task s := ?c\<lparr> ch_upgrade := True \<rparr>])"
  proof (rule table_inv_channels [OF tbl])
    fix k' w' r assume r: "find_socket ?tbl k' w' = Some r"
    show "ch_open ((channels st)[so_task s := ?c\<lparr> ch_upgrade := True \<rparr>] ! so_task r) \<and>
        no_close (ch_out ((channels st)[so_task s := ?c\<lparr> ch_upgrade := True \<rparr>] ! so_task r))"
      using table_invD(3) [OF tbl r] by (cases "so_task r = so_task s") auto
  next
    fix c assume "c \<in> set ((channels st)[so_task s := ?c\<lparr> ch_upgrade := True \<rparr>])"
    then show "close_last (ch_out c)"
      using table_invD(5) [OF inv] table_invD(3) [OF inv Some] by (auto dest!: mem_update_chan)
  qed simp
  then show ?thesis using Some inv tbl by (auto simp: socket_attach_def Let_def)
qed

lemma table_inv_set_attachment:
  assumes inv: "table_inv (sockets st) (channels st)"
  shows "table_inv (sockets (set_attachment k w v st)) (channels (set_attachment k w v st))"
  using inv table_inv_modify [OF inv, of k w]
  by (auto simp: set_attachment_def split: option.splits)

lemma table_inv_take:
  assumes inv: "table_inv (sockets st) (channels st)" and "task_take t st = Some st'"
  shows "table_inv (sockets st') (channels st')"
proof -
  let ?c = "(channels st ! t)\<lparr> ch_out := tl (ch_out (channels st ! t)) \<rparr>"
  have t: "t < length (channels st)" and st': "st' = st\<lparr> channels := (channels st)[t := ?c] \<rparr>"
    using assms(2) by (auto simp: task_take_def split: if_splits)
  have "table_inv (sockets st) ((channels st)[t := ?c])"
  proof (rule table_inv_channels [OF inv])
    fix k w s assume "find_socket (sockets st) k w = Some s"
    then show "ch_open ((channels st)[t := ?c] ! so_task s) \<and> no_close (ch_out ((channels st)[t := ?c] ! so_task s))"
      using table_invD(3) [OF inv, of k w s] t by (cases "so_task s = t") (auto intro: no_close_tl)
  next
    fix c assume "c \<in> set ((channels st)[t := ?c])"
    then show "close_last (ch_out c)"
      using table_invD(5) [OF inv] close_last_tl [OF table_invD(5) [OF inv nth_mem [OF t]]] by (auto dest!: mem_update_chan)
  qed simp
  then show ?thesis using st' by simp
qed

lemma table_inv_end:
  assumes inv: "table_inv (sockets st) (channels st)" and "task_end S t st = Some st'"
  shows "table_inv (sockets st') (channels st')"
proof -
  let ?c = "(channels st ! t)\<lparr> ch_open := False \<rparr>"
  have t: "t < length (channels st)" "t \<notin> set (table_tasks (sockets st))"
    and st': "st' = st\<lparr> channels := (channels st)[t := ?c], ws_slots := sem_release S (ws_slots st) \<rparr>"
    using assms(2) by (auto simp: task_end_def split: if_splits)
  have "table_inv (sockets st) ((channels st)[t := ?c])"
  proof (rule table_inv_channels [OF inv])
    fix k w s assume s: "find_socket (sockets st) k w = Some s"
    then have "so_task s \<noteq> t" using t(2) set_table_tasks [OF table_invD(1) [OF inv]] by blast
    then show "ch_open ((channels st)[t := ?c] ! so_task s) \<and> no_close (ch_out ((channels st)[t := ?c] ! so_task s))"
      using table_invD(3) [OF inv s] by simp
  next
    fix c assume "c \<in> set ((channels st)[t := ?c])"
    then show "close_last (ch_out c)"
      using table_invD(5) [OF inv] t by (auto dest!: mem_update_chan)
  qed simp
  then show ?thesis using st' by simp
qed

lemma tally_chan_send [simp]: "tally ch_open (chan_send t m chans) = tally ch_open chans"
  by (simp add: chan_send_def tally_simps)

lemma tally_chan_sends [simp]: "tally ch_open (fold (\<lambda>t. chan_send t m) ts chans) = tally ch_open chans"
  by (induction ts arbitrary: chans) auto

lemma slots_close_where [simp]:
  "tally ch_open (channels (close_where which code reason st)) = tally ch_open (channels st)"
  "ws_slots (close_where which code reason st) = ws_slots st"
  by (simp_all add: channels_close_where) (simp add: close_where_def close_table_conv)

context semaphore
begin

lemma sockets_inv_accept:
  assumes inv: "sockets_inv S cap st" and free: "find_socket (sockets st) k w = None"
  shows "sockets_inv S cap (fst (socket_accept S k w tags hib st))"
proof (cases "sem_take S (ws_slots st)")
  case None
  then show ?thesis using inv by (simp add: socket_accept_def)
next
  case (Some slots)
  have tbl: "table_inv (sockets st) (channels st)" using inv by (simp add: sockets_inv_def)
  show ?thesis
    using inv Some take_available [OF Some] take_release_available [OF Some]
      table_inv_accept [OF tbl free, of "\<lparr> so_task = length (channels st), so_attach = True, so_tags = tags,
        so_attachment = None, so_hibernatable = hib \<rparr>" "\<lparr> ch_out = [], ch_upgrade = False, ch_open = True \<rparr>"]
    by (auto simp: socket_accept_def Let_def sockets_inv_def)
qed

lemma sockets_inv_end:
  assumes inv: "sockets_inv S cap st" and end_: "task_end S t st = Some st'"
  shows "sockets_inv S cap st'"
proof -
  let ?c = "(channels st ! t)\<lparr> ch_open := False \<rparr>"
  have t: "t < length (channels st)" "ch_open (channels st ! t)"
    and st': "st' = st\<lparr> channels := (channels st)[t := ?c], ws_slots := sem_release S (ws_slots st) \<rparr>"
    using end_ by (auto simp: task_end_def split: if_splits)
  have "tally ch_open ((channels st)[t := ?c]) = tally ch_open (channels st) - 1"
    "0 < tally ch_open (channels st)"
    using t by (simp_all add: tally_simps tally_pos)
  then show ?thesis
    using inv st' table_inv_end [OF _ end_] by (simp add: sockets_inv_def release_available)
qed

lemma sockets_inv_start: "sockets_inv S cap (sockets_start S cap)"
  by (simp add: sockets_inv_def table_inv_def sockets_start_def own_tasks_def find_socket_def
      object_sockets_def new_available)

lemma sockets_inv_step:
  assumes inv: "sockets_inv S cap st" and step: "sockets_step S st e = Some st'"
  shows "sockets_inv S cap st'"
proof -
  have tbl: "table_inv (sockets st) (channels st)" using inv by (simp add: sockets_inv_def)
  show ?thesis
  proof (cases e)
    case (EvAccept k w tags hib)
    then show ?thesis using step sockets_inv_accept [OF inv, of k w tags hib] by (auto split: if_splits)
  next
    case (EvAttach k w)
    then show ?thesis
      using step inv table_inv_attach [OF tbl, of k w]
      by (auto simp: sockets_inv_def socket_attach_def Let_def tally_simps split: option.splits if_splits)
  next
    case (EvSend k w m)
    then show ?thesis
      using step inv table_inv_send [OF tbl, of k w m]
      by (auto simp: sockets_inv_def socket_send_def Let_def split: option.splits if_splits)
  next
    case (EvSetAttachment k w v)
    then show ?thesis
      using step inv table_inv_set_attachment [OF tbl, of k w v]
      by (auto simp: sockets_inv_def set_attachment_def split: option.splits)
  next
    case (EvForget k w)
    then show ?thesis
      using step inv table_inv_forget [OF tbl, of k w]
      by (auto simp: sockets_inv_def forget_socket_def Let_def split: option.splits)
  next
    case (EvTake t)
    then show ?thesis
      using step inv table_inv_take [OF tbl, of t]
      by (auto simp: sockets_inv_def task_take_def tally_simps split: if_splits)
  next
    case (EvTaskEnd t)
    then show ?thesis using step sockets_inv_end [OF inv] by simp
  qed (use step inv table_inv_close_where [OF tbl] in
      \<open>auto simp: sockets_inv_def close_object_def close_namespace_def instance_ended_def\<close>)
qed

end

sublocale semaphore \<subseteq> sockets_runs:
  step_invariant "sockets_step S" "\<lambda>st. st = sockets_start S cap" "sockets_inv S cap" for cap
  by unfold_locales (auto intro: sockets_inv_start sockets_inv_step)

context semaphore
begin

lemma sockets_reachable_inv:
  "runs (sockets_step S) (sockets_start S cap) es = Some st \<Longrightarrow> sockets_inv S cap st"
  by (rule sockets_runs.runs_inv [OF refl])

end

lemma channel_close_where:
  assumes inv: "table_inv (sockets st) (channels st)" and t: "t < length (channels st)"
  shows "ch_out (channels (close_where which code reason st) ! t) =
    ch_out (channels st ! t) @
    (if \<exists>k w s. find_socket (sockets st) k w = Some s \<and> which k s \<and> so_task s = t
     then [OutClose code reason] else [])"
proof -
  let ?ts = "map (so_task \<circ> snd) (filter (\<lambda>((k, w), s). which k s) (flat (sockets st)))"
  have wf: "wf_table (sockets st)" by (rule table_invD [OF inv])
  have mem: "t \<in> set ?ts \<longleftrightarrow> (\<exists>k w s. find_socket (sockets st) k w = Some s \<and> which k s \<and> so_task s = t)"
    by (force simp: set_flat [OF wf, symmetric])
  have "ch_open (channels st ! t)" if "t \<in> set ?ts"
    using that mem table_invD(3) [OF inv] by metis
  then show ?thesis
    unfolding mem [symmetric] channels_close_where chan_sends_nth [OF distinct_tasks [OF inv] t] by simp
qed

section \<open>Properties\<close>


definition demo_socket :: "nat \<Rightarrow> string list \<Rightarrow> bool \<Rightarrow> socket" where
  "demo_socket t tags hib = \<lparr> so_task = t, so_attach = True, so_tags = tags, so_attachment = None, so_hibernatable = hib \<rparr>"

definition demo_sockets :: "nat sockets_state" where
  "demo_sockets = \<lparr>
     sockets = [((''ns'', ''a''), [(1, demo_socket 0 [''t''] True)]), ((''ns'', ''b''), [(1, demo_socket 2 [] False)])],
     channels = [\<lparr> ch_out = [], ch_upgrade = False, ch_open = True \<rparr>,
       \<lparr> ch_out = [OutText ''x'', OutClose 1011 ''the Durable Object stopped''], ch_upgrade = False, ch_open = True \<rparr>,
       \<lparr> ch_out = [], ch_upgrade = False, ch_open = True \<rparr>],
     ws_slots = 1 \<rparr>"

definition demo_socket_events :: "sockets_event list" where
  "demo_socket_events =
     [EvAccept (''ns'', ''a'') 1 [''t''] True, EvAccept (''ns'', ''a'') 2 [] False,
      EvAccept (''ns'', ''b'') 1 [] False, EvSend (''ns'', ''a'') 2 (OutText ''x''),
      EvInstanceEnded ''ns'' ''a'']"

lemma demo_sockets_run:
  "runs (sockets_step count_sem) (sockets_start count_sem 4) demo_socket_events = Some demo_sockets"
  by (simp add: demo_socket_events_def demo_sockets_def demo_socket_def sockets_start_def count_sem_def
      socket_accept_def socket_send_def instance_ended_def close_where_def chan_send_def
      find_socket_def object_sockets_def MAX_SOCKETS_PER_OBJECT_def)


text \<open>
  C23. Closing the sockets a predicate selects removes exactly those from the table, puts exactly one
  close on the channel of each of them after what the object sent before, and touches no other
  channel. The three uses select an object, a namespace, and the sockets of an object that are not
  hibernatable, which the end of an instance closes.
\<close>

theorem close_where_exact:
  assumes "semaphore S" and "runs (sockets_step S) (sockets_start S cap) es = Some st"
  shows "(find_socket (sockets (close_where which code reason st)) k w =
      (case find_socket (sockets st) k w of Some s \<Rightarrow> if which k s then None else Some s | None \<Rightarrow> None))
    \<and> (t < length (channels st) \<longrightarrow>
       ch_out (channels (close_where which code reason st) ! t) =
         ch_out (channels st ! t) @
         (if \<exists>k w s. find_socket (sockets st) k w = Some s \<and> which k s \<and> so_task s = t
          then [OutClose code reason] else []))"
proof -
  have inv: "table_inv (sockets st) (channels st)"
    using semaphore.sockets_reachable_inv [OF assms] by (simp add: sockets_inv_def)
  show ?thesis
    using find_socket_close_where [OF table_invD(1) [OF inv]] channel_close_where [OF inv] by blast
qed

theorem close_where_exact_witness:
  "find_socket (sockets (close_where (\<lambda>k s. fst k = ''ns'') 1001 ''bye'' demo_sockets)) (''ns'', ''a'') 1 = None
   \<and> find_socket (sockets demo_sockets) (''ns'', ''a'') 1 \<noteq> None"
proof
  show "find_socket (sockets (close_where (\<lambda>k s. fst k = ''ns'') 1001 ''bye'' demo_sockets)) (''ns'', ''a'') 1 = None"
    using close_where_exact [OF counting.semaphore_axioms demo_sockets_run,
        of "\<lambda>k s. fst k = ''ns''" 1001 "''bye''" "(''ns'', ''a'')" 1 0]
    by (simp split: option.splits)
  show "find_socket (sockets demo_sockets) (''ns'', ''a'') 1 \<noteq> None"
    by (simp add: demo_sockets_def find_socket_def object_sockets_def)
qed

end
