(* ===== verification/Durable_Registry.thy ===== *)
theory Durable_Registry
  imports Durable_Sockets
begin

text \<open>
  \<open>src/durable/mod.rs\<close>: the registry of the Durable Objects a runner serves. Every function that
  takes the registry's lock is one step; the task of an object is a program with a phase, and its
  steps interleave with the calls of \<open>admit\<close>, \<open>retire\<close> and \<open>stop_namespace\<close>. The mailbox, the depths and
  the end of a task are channels it shares with its entry, so they live in the task, which an entry
  names by its generation: \<open>GENERATION\<close> is the number of tasks started. What the JavaScript engine does
  with an event is left to the environment.
\<close>

section \<open>The depths of the events in flight\<close>

type_synonym call_depths = "u32 list"

definition deepest :: "call_depths \<Rightarrow> u32" where
  "deepest depths = foldl max 0 depths"

definition enter_depth :: "u32 \<Rightarrow> call_depths \<Rightarrow> call_depths" where
  "enter_depth depth depths = depths @ [depth]"

text \<open>\<open>swap_remove\<close> of the first position that holds the depth; \<^const>\<open>None\<close> is the panic of \<open>expect\<close>.\<close>

fun position :: "('a \<Rightarrow> bool) \<Rightarrow> 'a list \<Rightarrow> nat option" where
  "position P [] = None"
| "position P (x # xs) = (if P x then Some 0 else map_option Suc (position P xs))"

definition swap_remove :: "nat \<Rightarrow> 'a list \<Rightarrow> 'a list" where
  "swap_remove i xs = butlast (xs[i := last xs])"

definition leave_depth :: "u32 \<Rightarrow> call_depths \<Rightarrow> call_depths option" where
  "leave_depth depth depths =
     (case position (\<lambda>d. d = depth) depths of None \<Rightarrow> None | Some i \<Rightarrow> Some (swap_remove i depths))"

section \<open>State\<close>

type_synonym object_key = "string \<times> string"

record namespace_config =
  nc_id :: string
  nc_user_id :: string
  nc_worker_id :: string
  nc_class_name :: string
  nc_key :: "u8 list"

record entry =
  en_generation :: nat
  en_worker_id :: string
  en_version :: "int option"

text \<open>
  A task awaits the end of the previous task of its object, loads the worker, polls its mailbox at the
  top of the loop, serves the object it built, or is about to leave with an empty mailbox; it has
  returned from \<open>serve\<close>; its \<open>Running\<close> has released what it counted; its end is signalled.
\<close>

datatype phase = Awaiting nat | Loading | Polling | Serving | Leaving | Returned | Released | Gone

fun is_ended :: "phase \<Rightarrow> bool" where
  "is_ended Returned = True"
| "is_ended Released = True"
| "is_ended Gone = True"
| "is_ended _ = False"

fun is_counted :: "phase \<Rightarrow> bool" where
  "is_counted Released = False"
| "is_counted Gone = False"
| "is_counted _ = True"

fun runs_code :: "phase \<Rightarrow> bool" where
  "runs_code Loading = True"
| "runs_code Polling = True"
| "runs_code Serving = True"
| "runs_code Leaving = True"
| "runs_code _ = False"

text \<open>
  \<open>tk_sent\<close>, \<open>tk_taken\<close> and \<open>tk_failed\<close> record the history of the mailbox for the statements below: what
  \<open>admit\<close> put in it, what the task took from it, and whether the load failed.
\<close>

record 'e task =
  tk_key :: object_key
  tk_account :: string
  tk_phase :: phase
  tk_mailbox :: "'e list"
  tk_open :: bool
  tk_depths :: call_depths
  tk_sent :: "'e list"
  tk_taken :: "'e list"
  tk_failed :: bool

record ('e, 's) registry =
  objects :: "(object_key \<times> entry) list"
  running :: "string \<Rightarrow> nat option"
  accounts :: "string \<Rightarrow> nat option"
  stopped :: "string set"
  retiring :: "object_key \<Rightarrow> nat option"
  tasks :: "'e task list"
  reg_sockets :: "'s sockets_state"

definition MAX_RESIDENT_PER_ACCOUNT :: nat where
  "MAX_RESIDENT_PER_ACCOUNT = 100"

definition count_of :: "(string \<Rightarrow> nat option) \<Rightarrow> string \<Rightarrow> nat" where
  "count_of counts k = (case counts k of Some n \<Rightarrow> n | None \<Rightarrow> 0)"

definition increment :: "(string \<Rightarrow> nat option) \<Rightarrow> string \<Rightarrow> (string \<Rightarrow> nat option)" where
  "increment counts k = counts(k := Some (count_of counts k + 1))"

text \<open>\<^const>\<open>None\<close> is a panic: the key is not counted, or its count would fall below zero.\<close>

definition release :: "(string \<Rightarrow> nat option) \<Rightarrow> string \<Rightarrow> (string \<Rightarrow> nat option) option" where
  "release counts k =
     (case counts k of
        None \<Rightarrow> None
      | Some count \<Rightarrow>
          if count = 0 then None
          else if count - 1 = 0 then Some (counts(k := None)) else Some (counts(k := Some (count - 1))))"

definition upd_task :: "nat \<Rightarrow> ('e task \<Rightarrow> 'e task) \<Rightarrow> ('e, 's) registry \<Rightarrow> ('e, 's) registry" where
  "upd_task g f r = r\<lparr> tasks := (tasks r)[g := f (tasks r ! g)] \<rparr>"

section \<open>The functions that take the lock\<close>

text \<open>A send on the mailbox of a task, with the event's depth entered; \<^const>\<open>None\<close> hands the event back.\<close>

definition mailbox_send :: "nat \<Rightarrow> u32 \<Rightarrow> 'e \<Rightarrow> ('e, 's) registry \<Rightarrow> ('e, 's) registry option" where
  "mailbox_send g depth event r =
     (if g < length (tasks r) \<and> tk_open (tasks r ! g)
      then Some (upd_task g (\<lambda>t. t\<lparr> tk_mailbox := tk_mailbox t @ [event], tk_sent := tk_sent t @ [event],
                                    tk_depths := enter_depth depth (tk_depths t) \<rparr>) r)
      else None)"

definition start_object ::
  "namespace_config \<Rightarrow> object_key \<Rightarrow> u32 \<Rightarrow> 'e \<Rightarrow> ('e, 's) registry \<Rightarrow> ('e, 's) registry \<times> (nat, string) result" where
  "start_object ns key depth event r =
     (let account = nc_user_id ns in
      if MAX_RESIDENT_PER_ACCOUNT \<le> count_of (accounts r) account
      then (r, Err ''too many Durable Objects run for this account'')
      else
        let generation = length (tasks r);
            previous = retiring r key;
            task = \<lparr> tk_key = key, tk_account = account,
                     tk_phase = (case previous of Some g \<Rightarrow> Awaiting g | None \<Rightarrow> Loading),
                     tk_mailbox = [event], tk_open = True, tk_depths = enter_depth depth [],
                     tk_sent = [event], tk_taken = [], tk_failed = False \<rparr>
        in (r\<lparr> retiring := (retiring r)(key := None),
              objects := AList.update key
                \<lparr> en_generation = generation, en_worker_id = nc_worker_id ns, en_version = None \<rparr> (objects r),
              running := increment (running r) (fst key),
              accounts := increment (accounts r) account,
              tasks := tasks r @ [task] \<rparr>, Ok generation))"

definition admit ::
  "namespace_config \<Rightarrow> string \<Rightarrow> u32 \<Rightarrow> 'e \<Rightarrow> ('e, 's) registry \<Rightarrow> ('e, 's) registry \<times> (nat, string) result" where
  "admit ns oid depth event r =
     (let key = (nc_id ns, oid) in
      if fst key \<in> stopped r then (r, Err ''the Durable Object namespace was deleted'')
      else case map_of (objects r) key of
          Some en \<Rightarrow>
            (case mailbox_send (en_generation en) depth event r of
               Some r' \<Rightarrow> (r', Ok (en_generation en))
             | None \<Rightarrow> start_object ns key depth event r)
        | None \<Rightarrow> start_object ns key depth event r)"

definition stop_namespace :: "string \<Rightarrow> ('e, 's) registry \<Rightarrow> ('e, 's) registry \<times> bool" where
  "stop_namespace ns r =
     (r\<lparr> stopped := insert ns (stopped r),
        objects := filter (\<lambda>(key, _). fst key \<noteq> ns) (objects r),
        reg_sockets := close_namespace ns (reg_sockets r) \<rparr>,
      running r ns = None)"

definition running_versions :: "('e, 's) registry \<Rightarrow> (string \<times> int) list" where
  "running_versions r =
     remdups (List.map_filter (\<lambda>(_, en). map_option (Pair (en_worker_id en)) (en_version en)) (objects r))"

definition retire :: "string \<Rightarrow> int \<Rightarrow> ('e, 's) registry \<Rightarrow> ('e, 's) registry" where
  "retire worker_id version r =
     (let old = filter (\<lambda>(_, en). en_worker_id en = worker_id \<and> en_version en = Some version) (objects r)
      in r\<lparr> objects := filter (\<lambda>(_, en). \<not> (en_worker_id en = worker_id \<and> en_version en = Some version)) (objects r),
           retiring := fold (\<lambda>(key, en) m. m(key \<mapsto> en_generation en)) old (retiring r),
           reg_sockets := fold (\<lambda>(key, _). close_object (fst key) (snd key) 1012
               ''the Durable Object restarts for a new deployment'') old (reg_sockets r) \<rparr>)"

text \<open>The end of \<open>Running\<close>: \<^const>\<open>None\<close> is a panic of \<open>release\<close>.\<close>

definition drop_running :: "nat \<Rightarrow> ('e, 's) registry \<Rightarrow> ('e, 's) registry option" where
  "drop_running g r =
     (let t = tasks r ! g in
      case release (running r) (fst (tk_key t)) of
        None \<Rightarrow> None
      | Some running' \<Rightarrow>
          (case release (accounts r) (tk_account t) of
             None \<Rightarrow> None
           | Some accounts' \<Rightarrow>
               Some (r\<lparr> running := running', accounts := accounts',
                        retiring := (if retiring r (tk_key t) = Some g
                                     then (retiring r)(tk_key t := None) else retiring r) \<rparr>)))"

text \<open>\<open>leave\<close>: the answer tells whether the task can end.\<close>

definition leave :: "nat \<Rightarrow> ('e, 's) registry \<Rightarrow> ('e, 's) registry \<times> bool" where
  "leave g r =
     (let t = tasks r ! g in
      if tk_mailbox t \<noteq> [] then (r, False)
      else
        let removed = (case map_of (objects r) (tk_key t) of
                         Some en \<Rightarrow> if en_generation en = g then r\<lparr> objects := AList.delete (tk_key t) (objects r) \<rparr> else r
                       | None \<Rightarrow> r)
        in (upd_task g (\<lambda>t. t\<lparr> tk_open := False \<rparr>) removed, True))"

text \<open>The version a loaded task puts in its entry, if the entry is still its own.\<close>

definition set_version :: "nat \<Rightarrow> int \<Rightarrow> ('e, 's) registry \<Rightarrow> ('e, 's) registry" where
  "set_version g version r =
     (let key = tk_key (tasks r ! g) in
      case map_of (objects r) key of
        Some en \<Rightarrow>
          if en_generation en = g
          then r\<lparr> objects := AList.update key (en\<lparr> en_version := Some version \<rparr>) (objects r) \<rparr>
          else r
      | None \<Rightarrow> r)"

section \<open>The task of an object\<close>

text \<open>
  What a task does next: the previous task has ended; the load answers with a version or fails; the
  loop polls the mailbox, and the object of the event it got is built or not; the object takes a
  further event; the object's \<open>serve\<close> returns; \<open>leave\<close>; the drop of \<open>Running\<close>, and of the channel end that
  signals it.
\<close>

datatype task_action =
    Awake
  | Loaded int
  | LoadFailed
  | Poll bool
  | TakeNext
  | Served
  | Leave
  | DropRunning
  | SignalDone

definition set_phase :: "phase \<Rightarrow> 'e task \<Rightarrow> 'e task" where
  "set_phase p t = t\<lparr> tk_phase := p \<rparr>"

definition take_event :: "'e task \<Rightarrow> 'e task" where
  "take_event t = t\<lparr> tk_taken := tk_taken t @ [hd (tk_mailbox t)], tk_mailbox := tl (tk_mailbox t) \<rparr>"

fun task_step :: "nat \<Rightarrow> task_action \<Rightarrow> ('e, 's) registry \<Rightarrow> ('e, 's) registry option" where
  "task_step g Awake r =
     (case tk_phase (tasks r ! g) of
        Awaiting p \<Rightarrow>
          if p < length (tasks r) \<and> tk_phase (tasks r ! p) = Gone
          then Some (upd_task g (set_phase Loading) r) else None
      | _ \<Rightarrow> None)"
| "task_step g (Loaded version) r =
     (if tk_phase (tasks r ! g) = Loading
      then Some (upd_task g (set_phase Polling) (set_version g version r)) else None)"
| "task_step g LoadFailed r =
     (if tk_phase (tasks r ! g) = Loading
      then Some (upd_task g (\<lambda>t. t\<lparr> tk_phase := Returned, tk_open := False, tk_failed := True \<rparr>) r) else None)"
| "task_step g (Poll built) r =
     (if tk_phase (tasks r ! g) = Polling
      then if tk_mailbox (tasks r ! g) = [] then Some (upd_task g (set_phase Leaving) r)
           else Some (upd_task g (\<lambda>t. set_phase (if built then Serving else Polling) (take_event t)) r)
      else None)"
| "task_step g TakeNext r =
     (if tk_phase (tasks r ! g) = Serving \<and> tk_mailbox (tasks r ! g) \<noteq> []
      then Some (upd_task g take_event r) else None)"
| "task_step g Served r =
     (if tk_phase (tasks r ! g) = Serving
      then let key = tk_key (tasks r ! g) in
           Some (upd_task g (set_phase Polling)
                  (r\<lparr> reg_sockets := instance_ended (fst key) (snd key) (reg_sockets r) \<rparr>))
      else None)"
| "task_step g Leave r =
     (if tk_phase (tasks r ! g) = Leaving
      then let (r', ended) = leave g r in
           Some (upd_task g (set_phase (if ended then Returned else Polling)) r')
      else None)"
| "task_step g DropRunning r =
     (if tk_phase (tasks r ! g) = Returned
      then map_option (upd_task g (set_phase Released)) (drop_running g r)
      else None)"
| "task_step g SignalDone r =
     (if tk_phase (tasks r ! g) = Released then Some (upd_task g (set_phase Gone) r) else None)"

datatype 'e registry_event =
    Admit namespace_config string u32 'e
  | StopNamespace string
  | Retire string int
  | Task nat task_action
  | DropGuard nat u32

fun registry_step :: "('e, 's) registry \<Rightarrow> 'e registry_event \<Rightarrow> ('e, 's) registry option" where
  "registry_step r (Admit ns oid depth event) = Some (fst (admit ns oid depth event r))"
| "registry_step r (StopNamespace ns) = Some (fst (stop_namespace ns r))"
| "registry_step r (Retire worker_id version) = Some (retire worker_id version r)"
| "registry_step r (Task g action) = (if g < length (tasks r) then task_step g action r else None)"
| "registry_step r (DropGuard g depth) =
     (if g < length (tasks r)
      then map_option (\<lambda>ds. upd_task g (\<lambda>t. t\<lparr> tk_depths := ds \<rparr>) r) (leave_depth depth (tk_depths (tasks r ! g)))
      else None)"

definition registry_start :: "'s sockets_state \<Rightarrow> ('e, 's) registry" where
  "registry_start socks = \<lparr> objects = [], running = (\<lambda>_. None), accounts = (\<lambda>_. None), stopped = {},
     retiring = (\<lambda>_. None), tasks = [], reg_sockets = socks \<rparr>"

end
