(* ===== verification/Registry_Inv.thy ===== *)
theory Registry_Inv
  imports Durable_Registry
begin

text \<open>
  The invariant of the registry of Durable Objects and its preservation by every step.
\<close>

section \<open>Invariant\<close>

fun is_loaded :: "phase \<Rightarrow> bool" where
  "is_loaded (Awaiting _) = False"
| "is_loaded Loading = False"
| "is_loaded _ = True"

abbreviation phase_of :: "('e, 's) registry \<Rightarrow> nat \<Rightarrow> phase" where
  "phase_of r g \<equiv> tk_phase (tasks r ! g)"

abbreviation key_of :: "('e, 's) registry \<Rightarrow> nat \<Rightarrow> object_key" where
  "key_of r g \<equiv> tk_key (tasks r ! g)"

abbreviation open_of :: "('e, 's) registry \<Rightarrow> nat \<Rightarrow> bool" where
  "open_of r g \<equiv> tk_open (tasks r ! g)"

text \<open>An entry names a task of its object, and has a version only once the task has loaded.\<close>

definition inv_keys :: "('e, 's) registry \<Rightarrow> bool" where
  "inv_keys r \<longleftrightarrow> distinct (map fst (objects r))"

definition inv_objects :: "('e, 's) registry \<Rightarrow> bool" where
  "inv_objects r \<longleftrightarrow>
     (\<forall>k en. map_of (objects r) k = Some en \<longrightarrow>
        en_generation en < length (tasks r) \<and> key_of r (en_generation en) = k \<and> fst k \<notin> stopped r \<and>
        (en_version en \<noteq> None \<longrightarrow> is_loaded (phase_of r (en_generation en))))"

text \<open>A retiring object has no entry, and its task has loaded.\<close>

definition inv_retiring :: "('e, 's) registry \<Rightarrow> bool" where
  "inv_retiring r \<longleftrightarrow>
     (\<forall>k g. retiring r k = Some g \<longrightarrow>
        g < length (tasks r) \<and> key_of r g = k \<and> is_loaded (phase_of r g) \<and>
        map_of (objects r) k = None)"

definition inv_await :: "('e, 's) registry \<Rightarrow> bool" where
  "inv_await r \<longleftrightarrow>
     (\<forall>g p. g < length (tasks r) \<and> phase_of r g = Awaiting p \<longrightarrow> p < g \<and> key_of r p = key_of r g)"

definition inv_open :: "('e, 's) registry \<Rightarrow> bool" where
  "inv_open r \<longleftrightarrow> (\<forall>g < length (tasks r). open_of r g \<longleftrightarrow> \<not> is_ended (phase_of r g))"

text \<open>Of two open tasks of one object, the later awaits the earlier.\<close>

definition inv_pair :: "('e, 's) registry \<Rightarrow> bool" where
  "inv_pair r \<longleftrightarrow>
     (\<forall>g g'. g < g' \<and> g' < length (tasks r) \<and> key_of r g = key_of r g' \<and> open_of r g \<and> open_of r g' \<longrightarrow>
        phase_of r g' = Awaiting g)"

text \<open>An open task of a namespace that is not stopped is the one of the entry, or retires, or is awaited.\<close>

definition known_task :: "('e, 's) registry \<Rightarrow> nat \<Rightarrow> bool" where
  "known_task r g \<longleftrightarrow>
     fst (key_of r g) \<in> stopped r \<or>
     (\<exists>en. map_of (objects r) (key_of r g) = Some en \<and> en_generation en = g) \<or>
     retiring r (key_of r g) = Some g \<or>
     (\<exists>g' < length (tasks r). open_of r g' \<and> phase_of r g' = Awaiting g)"

definition inv_known :: "('e, 's) registry \<Rightarrow> bool" where
  "inv_known r \<longleftrightarrow> (\<forall>g < length (tasks r). open_of r g \<longrightarrow> known_task r g)"

abbreviation ns_count :: "'e task list \<Rightarrow> string \<Rightarrow> nat" where
  "ns_count ts ns \<equiv> tally (\<lambda>t. fst (tk_key t) = ns \<and> is_counted (tk_phase t)) ts"

abbreviation account_count :: "'e task list \<Rightarrow> string \<Rightarrow> nat" where
  "account_count ts a \<equiv> tally (\<lambda>t. tk_account t = a \<and> is_counted (tk_phase t)) ts"

definition nat_option :: "nat \<Rightarrow> nat option" where
  "nat_option n = (if n = 0 then None else Some n)"

definition inv_counts :: "('e, 's) registry \<Rightarrow> bool" where
  "inv_counts r \<longleftrightarrow>
     (\<forall>ns. running r ns = nat_option (ns_count (tasks r) ns)) \<and>
     (\<forall>a. accounts r a = nat_option (account_count (tasks r) a) \<and>
          account_count (tasks r) a \<le> MAX_RESIDENT_PER_ACCOUNT)"

definition mail_ok :: "'e task \<Rightarrow> bool" where
  "mail_ok t \<longleftrightarrow> tk_sent t = tk_taken t @ tk_mailbox t \<and>
     (is_ended (tk_phase t) \<and> \<not> tk_failed t \<longrightarrow> tk_mailbox t = [])"

definition inv_mail :: "('e, 's) registry \<Rightarrow> bool" where
  "inv_mail r \<longleftrightarrow> (\<forall>t \<in> set (tasks r). mail_ok t)"

definition registry_inv :: "('e, 's) registry \<Rightarrow> bool" where
  "registry_inv r \<longleftrightarrow> inv_objects r \<and> inv_retiring r \<and> inv_await r \<and> inv_open r \<and> inv_pair r \<and>
     inv_known r \<and> inv_counts r \<and> inv_mail r \<and> inv_keys r"

lemma registry_invD:
  assumes "registry_inv r"
  shows "inv_objects r" "inv_retiring r" "inv_await r" "inv_open r" "inv_pair r" "inv_known r"
    "inv_counts r" "inv_mail r" "inv_keys r"
  using assms by (simp_all add: registry_inv_def)

subsection \<open>A step of one task\<close>

text \<open>
  What a step of task \<open>g\<close> may do to it: keep its key and account, close its mailbox but not open it,
  and move on from \<open>Awaiting p\<close> only when the mailbox of \<open>p\<close> is closed.
\<close>

definition task_moves :: "('e, 's) registry \<Rightarrow> nat \<Rightarrow> 'e task \<Rightarrow> bool" where
  "task_moves r g t \<longleftrightarrow>
     tk_key t = key_of r g \<and> tk_account t = tk_account (tasks r ! g) \<and>
     (tk_open t \<longleftrightarrow> \<not> is_ended (tk_phase t)) \<and> (tk_open t \<longrightarrow> open_of r g) \<and>
     (is_loaded (phase_of r g) \<longrightarrow> is_loaded (tk_phase t)) \<and>
     (is_counted (tk_phase t) \<longleftrightarrow> is_counted (phase_of r g)) \<and>
     (\<forall>p. tk_phase t = Awaiting p \<longrightarrow> phase_of r g = Awaiting p) \<and>
     (\<forall>p. phase_of r g = Awaiting p \<and> tk_phase t \<noteq> Awaiting p \<longrightarrow> \<not> open_of r p) \<and>
     mail_ok t"

lemma upd_task_simps [simp]:
  "objects (upd_task g f r) = objects r" "running (upd_task g f r) = running r"
  "accounts (upd_task g f r) = accounts r" "stopped (upd_task g f r) = stopped r"
  "retiring (upd_task g f r) = retiring r" "reg_sockets (upd_task g f r) = reg_sockets r"
  "tasks (upd_task g f r) = (tasks r)[g := f (tasks r ! g)]"
  by (simp_all add: upd_task_def)

lemma known_task_upd:
  assumes g: "g < length (tasks r)" and m: "task_moves r g (f (tasks r ! g))"
    and h: "h < length (tasks r)" "open_of r h" "known_task r h"
  shows "known_task (upd_task g f r) h"
proof -
  let ?t = "f (tasks r ! g)"
  have t: "tk_key ?t = key_of r g" "tk_open ?t \<longleftrightarrow> \<not> is_ended (tk_phase ?t)"
    "phase_of r g = Awaiting h \<Longrightarrow> tk_phase ?t = Awaiting h"
    using m h(2) unfolding task_moves_def by blast+
  have key: "key_of (upd_task g f r) h = key_of r h"
    using t(1) by (cases "h = g") (simp_all add: g)
  show ?thesis
  proof (cases "\<exists>g' < length (tasks r). open_of r g' \<and> phase_of r g' = Awaiting h")
    case True
    then obtain g' where g': "g' < length (tasks r)" "open_of r g'" "phase_of r g' = Awaiting h" by blast
    have "open_of (upd_task g f r) g' \<and> phase_of (upd_task g f r) g' = Awaiting h"
      using g' t g by (cases "g' = g") auto
    then show ?thesis unfolding known_task_def using g'(1) by (intro disjI2 exI [of _ g']) simp
  next
    case False
    then have "fst (key_of r h) \<in> stopped r \<or>
        (\<exists>en. map_of (objects r) (key_of r h) = Some en \<and> en_generation en = h) \<or> retiring r (key_of r h) = Some h"
      using h(3) unfolding known_task_def by blast
    then show ?thesis unfolding known_task_def key upd_task_simps(1,4,5) by blast
  qed
qed

lemma registry_inv_upd_task:
  assumes inv: "registry_inv r" and g: "g < length (tasks r)" and m: "task_moves r g (f (tasks r ! g))"
  shows "registry_inv (upd_task g f r)"
proof -
  let ?t = "f (tasks r ! g)"
  note I = registry_invD [OF inv] and M = m [unfolded task_moves_def] and U = nth_list_update [OF g]
  have "inv_objects (upd_task g f r)"
    using I(1) M by (auto simp: inv_objects_def U)
  moreover have "inv_retiring (upd_task g f r)"
    using I(2) M by (auto simp: inv_retiring_def U)
  moreover have "inv_await (upd_task g f r)"
    using I(3) M by (auto simp: inv_await_def U)
  moreover have "inv_open (upd_task g f r)"
    using I(4) M by (auto simp: inv_open_def U)
  moreover have "inv_pair (upd_task g f r)"
    unfolding inv_pair_def
  proof (intro allI impI)
    fix a b assume *: "a < b \<and> b < length (tasks (upd_task g f r)) \<and> key_of (upd_task g f r) a = key_of (upd_task g f r) b
      \<and> open_of (upd_task g f r) a \<and> open_of (upd_task g f r) b"
    then have old: "key_of r a = key_of r b" "open_of r a" "open_of r b" "a < b" "b < length (tasks r)"
      using M by (auto simp: U split: if_splits)
    then have "phase_of r b = Awaiting a" using I(5) by (auto simp: inv_pair_def)
    then show "phase_of (upd_task g f r) b = Awaiting a"
      using M old by (auto simp: U)
  qed
  moreover have "inv_known (upd_task g f r)"
    unfolding inv_known_def
  proof (intro allI impI)
    fix h assume "h < length (tasks (upd_task g f r))" "open_of (upd_task g f r) h"
    then have "h < length (tasks r)" "open_of r h" using M by (auto simp: U split: if_splits)
    then show "known_task (upd_task g f r) h"
      using known_task_upd [of g r f, OF g m] I(6) by (auto simp: inv_known_def)
  qed
  moreover have "inv_counts (upd_task g f r)"
  proof -
    have "ns_count ((tasks r)[g := ?t]) ns = ns_count (tasks r) ns" for ns
      using g M by (intro tally_update_cases(3)) auto
    moreover have "account_count ((tasks r)[g := ?t]) a = account_count (tasks r) a" for a
      using g M by (intro tally_update_cases(3)) auto
    ultimately show ?thesis using I(7) by (simp add: inv_counts_def)
  qed
  moreover have "inv_mail (upd_task g f r)"
    using I(8) M by (auto simp: inv_mail_def dest!: set_update_subset_insert [THEN subsetD])
  moreover have "inv_keys (upd_task g f r)" using I(9) by (simp add: inv_keys_def)
  ultimately show ?thesis by (simp add: registry_inv_def)
qed

lemma inv_open_iff: "inv_open r \<Longrightarrow> g < length (tasks r) \<Longrightarrow> open_of r g \<longleftrightarrow> \<not> is_ended (phase_of r g)"
  by (simp add: inv_open_def)

lemma mail_ok_nth: "inv_mail r \<Longrightarrow> g < length (tasks r) \<Longrightarrow> mail_ok (tasks r ! g)"
  by (simp add: inv_mail_def)

lemma mail_ok_take:
  "mail_ok t \<Longrightarrow> tk_mailbox t \<noteq> [] \<Longrightarrow> \<not> is_ended (tk_phase t) \<Longrightarrow> mail_ok (take_event t)"
  by (auto simp: mail_ok_def take_event_def)

lemma take_event_simps [simp]:
  "tk_key (take_event t) = tk_key t" "tk_account (take_event t) = tk_account t"
  "tk_phase (take_event t) = tk_phase t" "tk_open (take_event t) = tk_open t"
  by (simp_all add: take_event_def)

lemma set_phase_simps [simp]:
  "tk_key (set_phase p t) = tk_key t" "tk_account (set_phase p t) = tk_account t"
  "tk_phase (set_phase p t) = p" "tk_open (set_phase p t) = tk_open t"
  "tk_mailbox (set_phase p t) = tk_mailbox t" "tk_sent (set_phase p t) = tk_sent t"
  "tk_taken (set_phase p t) = tk_taken t" "tk_failed (set_phase p t) = tk_failed t"
  by (simp_all add: set_phase_def)

lemma mail_ok_set_phase: "mail_ok t \<Longrightarrow> \<not> is_ended p \<Longrightarrow> mail_ok (set_phase p t)"
  by (simp add: mail_ok_def)

text \<open>The invariant does not look at the sockets.\<close>

lemma registry_inv_sockets [simp]: "registry_inv (r\<lparr> reg_sockets := x \<rparr>) = registry_inv r"
  by (simp add: registry_inv_def inv_objects_def inv_retiring_def inv_await_def inv_open_def inv_pair_def
      inv_known_def inv_counts_def inv_mail_def inv_keys_def known_task_def)

lemma registry_inv_own_steps:
  assumes inv: "registry_inv r" and g: "g < length (tasks r)"
    and step: "task_step g action r = Some r'"
    and action: "action \<in> {Awake, LoadFailed, TakeNext, Served, SignalDone} \<or> (\<exists>b. action = Poll b)"
  shows "registry_inv r'"
proof -
  note I = registry_invD [OF inv]
  have o: "open_of r g \<longleftrightarrow> \<not> is_ended (phase_of r g)" by (rule inv_open_iff [OF I(4) g])
  have mail: "mail_ok (tasks r ! g)" by (rule mail_ok_nth [OF I(8) g])
  show ?thesis
  proof (cases action)
    case Awake
    then obtain p where p: "phase_of r g = Awaiting p" "p < length (tasks r)" "phase_of r p = Gone"
      and r': "r' = upd_task g (set_phase Loading) r"
      using step by (auto split: phase.splits if_splits)
    have "\<not> open_of r p" using inv_open_iff [OF I(4) p(2)] p(3) by simp
    then have "task_moves r g (set_phase Loading (tasks r ! g))"
      using p o mail by (auto simp: task_moves_def mail_ok_set_phase)
    then show ?thesis using r' registry_inv_upd_task [OF inv g] by simp
  next
    case LoadFailed
    then show ?thesis
      using step o mail by (auto simp: task_moves_def mail_ok_def split: if_splits
          intro!: registry_inv_upd_task [OF inv g])
  next
    case (Poll b)
    then show ?thesis
      using step o mail by (auto simp: task_moves_def split: if_splits
          intro!: registry_inv_upd_task [OF inv g] mail_ok_set_phase mail_ok_take)
  next
    case TakeNext
    then show ?thesis
      using step o mail by (auto simp: task_moves_def split: if_splits
          intro!: registry_inv_upd_task [OF inv g] mail_ok_take)
  next
    case Served
    let ?r = "r\<lparr> reg_sockets := instance_ended (fst (key_of r g)) (snd (key_of r g)) (reg_sockets r) \<rparr>"
    have "registry_inv (upd_task g (set_phase Polling) ?r)"
      using step Served o mail g inv
      by (intro registry_inv_upd_task) (auto simp: task_moves_def mail_ok_set_phase split: if_splits)
    then show ?thesis using step Served by (auto simp: Let_def split: if_splits)
  next
    case SignalDone
    then show ?thesis
      using step o mail by (auto simp: task_moves_def mail_ok_def split: if_splits
          intro!: registry_inv_upd_task [OF inv g])
  qed (use action in auto)
qed

end
