(* ===== verification/Registry_Steps.thy ===== *)
theory Registry_Steps
  imports Registry_Inv
begin

text \<open>
  Every step of the registry keeps its invariant: the changes of the tables, the counts, admission,
  the stop of a namespace and the retirement of a deployment.
\<close>

subsection \<open>Changes of the tables\<close>

text \<open>A change of the entries, the retiring objects or the stopped namespaces, over the same tasks.\<close>

lemma known_task_cases [consumes 1, case_names stopped entry retiring awaited]:
  assumes "known_task r g"
  obtains "fst (key_of r g) \<in> stopped r"
    | en where "map_of (objects r) (key_of r g) = Some en" "en_generation en = g"
    | "retiring r (key_of r g) = Some g"
    | g' where "g' < length (tasks r)" "open_of r g'" "phase_of r g' = Awaiting g"
  using assms unfolding known_task_def by blast

lemma known_taskI:
  "fst (key_of r g) \<in> stopped r \<Longrightarrow> known_task r g"
  "map_of (objects r) (key_of r g) = Some en \<Longrightarrow> en_generation en = g \<Longrightarrow> known_task r g"
  "retiring r (key_of r g) = Some g \<Longrightarrow> known_task r g"
  "g' < length (tasks r) \<Longrightarrow> open_of r g' \<Longrightarrow> phase_of r g' = Awaiting g \<Longrightarrow> known_task r g"
  unfolding known_task_def by blast+

lemma registry_inv_tables:
  assumes inv: "registry_inv r"
    and same: "tasks r' = tasks r" "running r' = running r" "accounts r' = accounts r"
    and tables: "inv_objects r'" "inv_retiring r'" "inv_keys r'"
    and known: "\<And>g. g < length (tasks r) \<Longrightarrow> open_of r g \<Longrightarrow> known_task r g \<Longrightarrow> known_task r' g"
  shows "registry_inv r'"
proof -
  note I = registry_invD [OF inv]
  have "inv_await r' = inv_await r" "inv_open r' = inv_open r" "inv_pair r' = inv_pair r"
    "inv_counts r' = inv_counts r" "inv_mail r' = inv_mail r"
    by (simp_all only: inv_await_def inv_open_def inv_pair_def inv_counts_def inv_mail_def same)
  moreover have "inv_known r'"
    using I(6) known unfolding inv_known_def same by blast
  ultimately show ?thesis using tables I by (simp add: registry_inv_def)
qed

lemma inv_objectsD:
  assumes "inv_objects r" "map_of (objects r) k = Some en"
  shows "en_generation en < length (tasks r)" "key_of r (en_generation en) = k" "fst k \<notin> stopped r"
    "en_version en \<noteq> None \<Longrightarrow> is_loaded (phase_of r (en_generation en))"
  using assms unfolding inv_objects_def by blast+

lemma inv_retiringD:
  assumes "inv_retiring r" "retiring r k = Some g"
  shows "g < length (tasks r)" "key_of r g = k" "is_loaded (phase_of r g)"
    "map_of (objects r) k = None"
  using assms unfolding inv_retiring_def by blast+

lemma known_task_entry:
  assumes "known_task r g" "stopped r' = stopped r" "retiring r' = retiring r" "tasks r' = tasks r"
    and "\<And>en. map_of (objects r) (key_of r g) = Some en \<Longrightarrow> en_generation en = g \<Longrightarrow>
      \<exists>en'. map_of (objects r') (key_of r g) = Some en' \<and> en_generation en' = g"
  shows "known_task r' g"
  using assms unfolding known_task_def by metis

lemma registry_inv_set_version:
  assumes inv: "registry_inv r" and g: "g < length (tasks r)" and loaded: "is_loaded (phase_of r g)"
  shows "registry_inv (set_version g version r)"
proof (cases "\<exists>en. map_of (objects r) (key_of r g) = Some en \<and> en_generation en = g")
  case False
  then show ?thesis using inv by (auto simp: set_version_def Let_def split: option.splits)
next
  case True
  note I = registry_invD [OF inv]
  obtain en where en: "map_of (objects r) (key_of r g) = Some en" "en_generation en = g" using True by blast
  let ?r = "r\<lparr> objects := AList.update (key_of r g) (en\<lparr> en_version := Some version \<rparr>) (objects r) \<rparr>"
  have "registry_inv ?r"
  proof (rule registry_inv_tables [OF inv])
    show "inv_objects ?r"
      unfolding inv_objects_def
    proof (intro allI impI)
      fix k e assume e: "map_of (objects ?r) k = Some e"
      show "en_generation e < length (tasks ?r) \<and> key_of ?r (en_generation e) = k \<and> fst k \<notin> stopped ?r \<and>
          (en_version e \<noteq> None \<longrightarrow> is_loaded (phase_of ?r (en_generation e)))"
      proof (cases "k = key_of r g")
        case True
        then show ?thesis using e en g loaded inv_objectsD(3) [OF I(1) en(1)] by (auto simp: update_conv')
      next
        case False
        then have "map_of (objects r) k = Some e" using e by (simp add: update_conv')
        then show ?thesis using inv_objectsD [OF I(1)] by simp
      qed
    qed
    have "retiring r (key_of r g) = None"
      using inv_retiringD(4) [OF I(2)] en(1) by fastforce
    then show "inv_retiring ?r"
      using I(2) by (auto simp: inv_retiring_def update_conv')
    show "inv_keys ?r" using I(9) by (simp add: inv_keys_def distinct_update)
    show "known_task ?r h" if "known_task r h" for h
      using that en by (rule_tac known_task_entry [of r]) (auto simp: update_conv')
  qed simp_all
  then show ?thesis using en by (simp add: set_version_def Let_def)
qed

lemma registry_inv_delete_entry:
  assumes inv: "registry_inv r" and closed: "\<not> open_of r g"
    and en: "map_of (objects r) k = Some en" "en_generation en = g"
  shows "registry_inv (r\<lparr> objects := AList.delete k (objects r) \<rparr>)" (is "registry_inv ?r")
proof (rule registry_inv_tables [OF inv])
  note I = registry_invD [OF inv]
  show "inv_objects ?r" using I(1) by (auto simp: inv_objects_def delete_conv' split: if_splits)
  show "inv_retiring ?r" using I(2) by (auto simp: inv_retiring_def delete_conv')
  show "inv_keys ?r" using I(9) by (simp add: inv_keys_def distinct_delete)
  show "known_task ?r h" if "open_of r h" "known_task r h" for h
    using that closed en by (rule_tac known_task_entry [of r]) (auto simp: delete_conv')
qed simp_all

lemma registry_inv_loaded:
  assumes inv: "registry_inv r" and g: "g < length (tasks r)" and ph: "phase_of r g = Loading"
  shows "registry_inv (upd_task g (set_phase Polling) (set_version g version r))"
proof -
  note I = registry_invD [OF inv]
  have "task_moves r g (set_phase Polling (tasks r ! g))"
    using inv_open_iff [OF I(4) g] mail_ok_nth [OF I(8) g] ph
    by (auto simp: task_moves_def mail_ok_set_phase)
  then have "registry_inv (upd_task g (set_phase Polling) r)"
    by (rule registry_inv_upd_task [OF inv g])
  then have "registry_inv (set_version g version (upd_task g (set_phase Polling) r))"
    by (rule registry_inv_set_version) (use g in simp_all)
  moreover have "set_version g version (upd_task g (set_phase Polling) r) =
      upd_task g (set_phase Polling) (set_version g version r)"
    using g by (auto simp: set_version_def Let_def upd_task_def split: option.splits)
  ultimately show ?thesis by simp
qed

lemma registry_inv_leave:
  assumes inv: "registry_inv r" and g: "g < length (tasks r)" and ph: "phase_of r g = Leaving"
    and leave: "leave g r = (r', ended)"
  shows "registry_inv (upd_task g (set_phase (if ended then Returned else Polling)) r')"
proof (cases "tk_mailbox (tasks r ! g) = []")
  case False
  then have r': "r' = r" "\<not> ended" using leave by (auto simp: leave_def Let_def)
  have "task_moves r g (set_phase Polling (tasks r ! g))"
    using inv_open_iff [OF registry_invD(4) [OF inv] g] mail_ok_nth [OF registry_invD(8) [OF inv] g] ph
    by (auto simp: task_moves_def mail_ok_set_phase)
  then show ?thesis using r' registry_inv_upd_task [OF inv g] by simp
next
  case True
  let ?f = "\<lambda>t. t\<lparr> tk_open := False, tk_phase := Returned \<rparr>"
  let ?k = "key_of r g"
  have "task_moves r g (?f (tasks r ! g))"
    using inv_open_iff [OF registry_invD(4) [OF inv] g] mail_ok_nth [OF registry_invD(8) [OF inv] g] ph True
    by (auto simp: task_moves_def mail_ok_def)
  then have upd: "registry_inv (upd_task g ?f r)"
    by (rule registry_inv_upd_task [OF inv g])
  show ?thesis
  proof (cases "\<exists>en. map_of (objects r) ?k = Some en \<and> en_generation en = g")
    case own: True
    then obtain en where en: "map_of (objects r) ?k = Some en" "en_generation en = g" by blast
    have "registry_inv ((upd_task g ?f r)\<lparr> objects := AList.delete ?k (objects (upd_task g ?f r)) \<rparr>)"
      by (rule registry_inv_delete_entry [OF upd]) (use g en in simp_all)
    moreover have "ended" and r': "r' = upd_task g (\<lambda>t. t\<lparr> tk_open := False \<rparr>) (r\<lparr> objects := AList.delete ?k (objects r) \<rparr>)"
      using leave True en by (simp_all add: leave_def Let_def)
    moreover have "upd_task g (set_phase Returned) r' =
        (upd_task g ?f r)\<lparr> objects := AList.delete ?k (objects (upd_task g ?f r)) \<rparr>"
      using g by (simp add: r' upd_task_def set_phase_def)
    ultimately show ?thesis by simp
  next
    case False
    then show ?thesis
      using leave True upd g by (auto simp: leave_def Let_def upd_task_def set_phase_def split: option.splits)
  qed
qed

subsection \<open>Counts\<close>

lemma release_counted:
  assumes "counts k = nat_option c" "0 < c"
  shows "release counts k = Some (counts(k := nat_option (c - 1)))"
  using assms by (auto simp: release_def nat_option_def split: if_splits)

lemma increment_counted:
  assumes "counts k = nat_option c"
  shows "increment counts k = counts(k := nat_option (Suc c))" "count_of counts k = c"
  using assms by (auto simp: increment_def count_of_def nat_option_def split: if_splits)

lemma drop_running_counted:
  assumes inv: "registry_inv r" and g: "g < length (tasks r)" and ph: "phase_of r g = Returned"
  shows "drop_running g r = Some (r\<lparr>
     running := (running r)(fst (key_of r g) := nat_option (ns_count (tasks r) (fst (key_of r g)) - 1)),
     accounts := (accounts r)(tk_account (tasks r ! g) := nat_option (account_count (tasks r) (tk_account (tasks r ! g)) - 1)),
     retiring := (if retiring r (key_of r g) = Some g then (retiring r)(key_of r g := None) else retiring r) \<rparr>)"
proof -
  let ?n = "ns_count (tasks r) (fst (key_of r g))" and ?a = "account_count (tasks r) (tk_account (tasks r ! g))"
  have c: "running r (fst (key_of r g)) = nat_option ?n" "accounts r (tk_account (tasks r ! g)) = nat_option ?a"
    using registry_invD(7) [OF inv] by (simp_all add: inv_counts_def)
  have "0 < ?n" "0 < ?a" using g ph by (intro tally_pos [of g]; simp)+
  then show ?thesis
    using release_counted [of "running r" "fst (key_of r g)" ?n, OF c(1)]
      release_counted [of "accounts r" "tk_account (tasks r ! g)" ?a, OF c(2)]
    by (simp add: drop_running_def Let_def)
qed

lemma registry_inv_drop_running:
  assumes inv: "registry_inv r" and g: "g < length (tasks r)" and ph: "phase_of r g = Returned"
    and drop: "drop_running g r = Some r'"
  shows "registry_inv (upd_task g (set_phase Released) r')" (is "registry_inv ?r")
proof -
  note I = registry_invD [OF inv] and U = nth_list_update [OF g]
  let ?ns = "fst (key_of r g)" and ?ac = "tk_account (tasks r ! g)"
  let ?ts = "(tasks r)[g := set_phase Released (tasks r ! g)]"
  have r': "objects r' = objects r" "stopped r' = stopped r" "tasks r' = tasks r"
    "running r' = (running r)(?ns := nat_option (ns_count (tasks r) ?ns - 1))"
    "accounts r' = (accounts r)(?ac := nat_option (account_count (tasks r) ?ac - 1))"
    "retiring r' = (if retiring r (key_of r g) = Some g then (retiring r)(key_of r g := None) else retiring r)"
    using drop drop_running_counted [OF inv g ph] by auto
  have closed: "\<not> open_of r g" using inv_open_iff [OF I(4) g] ph by simp
  have "inv_objects ?r"
    using I(1) ph by (auto simp: inv_objects_def r' U)
  moreover have "inv_retiring ?r"
    unfolding inv_retiring_def
  proof (intro allI impI)
    fix k h assume "retiring ?r k = Some h"
    then have old: "retiring r k = Some h" "\<not> (k = key_of r g \<and> h = g)"
      by (auto simp: r' split: if_splits)
    then have "h \<noteq> g" using inv_retiringD(2) [OF I(2) old(1)] by auto
    then show "h < length (tasks ?r) \<and> key_of ?r h = k \<and> is_loaded (phase_of ?r h) \<and>
        map_of (objects ?r) k = None"
      using inv_retiringD [OF I(2) old(1)] by (simp add: r')
  qed
  moreover have "inv_await ?r" using I(3) by (auto simp: inv_await_def r' U)
  moreover have "inv_open ?r" using I(4) closed by (auto simp: inv_open_def r' U)
  moreover have "inv_pair ?r" using I(5) closed by (auto simp: inv_pair_def r' U)
  moreover have "inv_mail ?r"
    using I(8) mail_ok_nth [OF I(8) g] ph
    by (auto simp: inv_mail_def r' mail_ok_def dest!: set_update_subset_insert [THEN subsetD])
  moreover have "inv_keys ?r" using I(9) by (simp add: inv_keys_def r')
  moreover have "inv_counts ?r"
  proof -
    have "ns_count ?ts n = (if n = ?ns then ns_count (tasks r) n - 1 else ns_count (tasks r) n)" for n
      using g ph by (auto simp: tally_simps)
    moreover have "account_count ?ts a = (if a = ?ac then account_count (tasks r) a - 1 else account_count (tasks r) a)" for a
      using g ph by (auto simp: tally_simps)
    ultimately show ?thesis using I(7) by (auto simp: inv_counts_def r' intro: le_trans [OF diff_le_self])
  qed
  moreover have "inv_known ?r"
    unfolding inv_known_def
  proof (intro allI impI)
    fix h assume h: "h < length (tasks ?r)" "open_of ?r h"
    then have old: "h < length (tasks r)" "open_of r h" "h \<noteq> g" using closed by (auto simp: r' U split: if_splits)
    then have "known_task r h" using I(6) by (simp add: inv_known_def)
    then show "known_task ?r h"
    proof (cases rule: known_task_cases)
      case (awaited g')
      then have "g' \<noteq> g" using ph by auto
      then show ?thesis using awaited by (intro known_taskI(4) [of g']) (simp_all add: r')
    next
      case retiring
      then show ?thesis using old(3) by (intro known_taskI(3)) (auto simp: r')
    next
      case stopped
      then show ?thesis using old(3) by (intro known_taskI(1)) (simp add: r')
    next
      case (entry en)
      then show ?thesis using old(3) by (intro known_taskI(2) [of _ _ en]) (simp_all add: r')
    qed
  qed
  ultimately show ?thesis by (simp add: registry_inv_def)
qed

subsection \<open>Admission\<close>

lemma registry_inv_mailbox_send:
  assumes inv: "registry_inv r" and send: "mailbox_send g depth event r = Some r'"
  shows "registry_inv r'"
proof -
  have g: "g < length (tasks r)" "open_of r g"
    using send by (auto simp: mailbox_send_def split: if_splits)
  have "\<not> is_ended (phase_of r g)" "mail_ok (tasks r ! g)"
    using inv_open_iff [OF registry_invD(4) [OF inv] g(1)] g(2) mail_ok_nth [OF registry_invD(8) [OF inv] g(1)]
    by auto
  then have "task_moves r g ((tasks r ! g)\<lparr> tk_mailbox := tk_mailbox (tasks r ! g) @ [event],
      tk_sent := tk_sent (tasks r ! g) @ [event], tk_depths := enter_depth depth (tk_depths (tasks r ! g)) \<rparr>)"
    using g(2) by (auto simp: task_moves_def mail_ok_def)
  then show ?thesis
    using send g registry_inv_upd_task [OF inv g(1)] by (auto simp: mailbox_send_def)
qed

text \<open>When an object that is not stopped has no open entry, its only open task is the one that retires.\<close>

lemma only_retiring_open:
  assumes inv: "registry_inv r" and ns: "fst k \<notin> stopped r"
    and en: "\<And>en. map_of (objects r) k = Some en \<Longrightarrow> \<not> open_of r (en_generation en)"
    and g: "g < length (tasks r)" "key_of r g = k" "open_of r g"
  shows "retiring r k = Some g"
proof -
  note I = registry_invD [OF inv]
  have known: "known_task r h" if "h < length (tasks r)" "open_of r h" for h
    using that I(6) by (simp add: inv_known_def)
  have later: "retiring r k = Some h \<or> (\<exists>h' < length (tasks r). open_of r h' \<and> phase_of r h' = Awaiting h)"
    if "h < length (tasks r)" "key_of r h = k" "open_of r h" for h
    using known [OF that(1,3)] that ns en by (cases rule: known_task_cases) auto
  show ?thesis
  proof (rule ccontr)
    assume "retiring r k \<noteq> Some g"
    then obtain h where h: "h < length (tasks r)" "open_of r h" "phase_of r h = Awaiting g"
      using later [OF g] by blast
    have gh: "g < h" "key_of r h = k" using I(3) h g(2) by (auto simp: inv_await_def)
    have "retiring r k \<noteq> Some h" using inv_retiringD(3) [OF I(2), of k h] h(3) by auto
    then obtain h' where h': "h' < length (tasks r)" "open_of r h'" "phase_of r h' = Awaiting h"
      using later [OF h(1) gh(2) h(2)] by blast
    have hh: "h < h'" "key_of r h' = k" using I(3) h' gh(2) by (auto simp: inv_await_def)
    have "phase_of r h' = Awaiting g"
      by (rule I(5) [unfolded inv_pair_def, rule_format]) (use gh hh g h' in simp)
    then show False using h'(3) gh(1) by simp
  qed
qed

lemma registry_inv_start:
  assumes inv: "registry_inv r" and ns: "nc_id ns \<notin> stopped r" and key: "fst key = nc_id ns"
    and en: "\<And>en. map_of (objects r) key = Some en \<Longrightarrow> \<not> open_of r (en_generation en)"
    and start: "start_object ns key depth event r = (r', Ok n)"
  shows "registry_inv r'"
proof -
  note I = registry_invD [OF inv]
  let ?n = "length (tasks r)" and ?ac = "nc_user_id ns"
  define t where "t = \<lparr> tk_key = key, tk_account = ?ac,
      tk_phase = (case retiring r key of Some g \<Rightarrow> Awaiting g | None \<Rightarrow> Loading),
      tk_mailbox = [event], tk_open = True, tk_depths = enter_depth depth [],
      tk_sent = [event], tk_taken = [], tk_failed = False \<rparr>"
  have cap: "account_count (tasks r) ?ac < MAX_RESIDENT_PER_ACCOUNT"
    using start I(7) increment_counted(2) [of "accounts r" ?ac]
    by (auto simp: start_object_def Let_def inv_counts_def split: if_splits)
  have r': "retiring r' = (retiring r)(key := None)" "tasks r' = tasks r @ [t]" "stopped r' = stopped r"
    "objects r' = AList.update key \<lparr> en_generation = ?n, en_worker_id = nc_worker_id ns, en_version = None \<rparr> (objects r)"
    "running r' = (running r)(fst key := nat_option (Suc (ns_count (tasks r) (fst key))))"
    "accounts r' = (accounts r)(?ac := nat_option (Suc (account_count (tasks r) ?ac)))"
    using start I(7) increment_counted(1) [of "running r" "fst key"] increment_counted(1) [of "accounts r" ?ac]
    by (auto simp: start_object_def Let_def inv_counts_def t_def split: if_splits)
  have t: "tk_key t = key" "tk_account t = ?ac" "tk_open t" "\<not> is_ended (tk_phase t)" "is_counted (tk_phase t)" "mail_ok t"
    by (simp_all add: t_def mail_ok_def split: option.split)
  have old: "tasks r' ! g = tasks r ! g" if "g < ?n" for g using that by (simp add: r' nth_append)
  have new: "tasks r' ! ?n = t" by (simp add: r')
  have only: "retiring r key = Some g" if "g < ?n" "key_of r g = key" "open_of r g" for g
    using only_retiring_open [OF inv _ en that] ns key by simp
  have "inv_objects r'"
    unfolding inv_objects_def
  proof (intro allI impI)
    fix k e assume e: "map_of (objects r') k = Some e"
    show "en_generation e < length (tasks r') \<and> key_of r' (en_generation e) = k \<and> fst k \<notin> stopped r' \<and>
        (en_version e \<noteq> None \<longrightarrow> is_loaded (phase_of r' (en_generation e)))"
    proof (cases "k = key")
      case True
      then show ?thesis using e ns key new t(1) by (auto simp: r' update_conv')
    next
      case False
      then have "map_of (objects r) k = Some e" using e by (simp add: r' update_conv')
      then show ?thesis using inv_objectsD [OF I(1), of k e] old [of "en_generation e"] by (simp add: r')
    qed
  qed
  moreover have "inv_retiring r'"
    unfolding inv_retiring_def
  proof (intro allI impI)
    fix k g assume "retiring r' k = Some g"
    then have g: "retiring r k = Some g" "k \<noteq> key" by (auto simp: r' split: if_splits)
    then show "g < length (tasks r') \<and> key_of r' g = k \<and> is_loaded (phase_of r' g) \<and>
        map_of (objects r') k = None"
      using inv_retiringD [OF I(2) g(1)] old [of g] by (simp add: r' update_conv')
  qed
  moreover have "inv_await r'"
    unfolding inv_await_def
  proof (intro allI impI, elim conjE)
    fix g p assume g: "g < length (tasks r')" "phase_of r' g = Awaiting p"
    show "p < g \<and> key_of r' p = key_of r' g"
    proof (cases "g = ?n")
      case True
      then have "retiring r key = Some p" using g(2) new by (simp add: t_def split: option.splits)
      then show ?thesis using inv_retiringD(1,2) [OF I(2)] True new old t(1) by simp
    next
      case False
      then have "g < ?n" using g(1) by (simp add: r')
      then have "phase_of r g = Awaiting p" using g(2) old [of g] by simp
      then have "p < g \<and> key_of r p = key_of r g" using I(3) \<open>g < ?n\<close> unfolding inv_await_def by blast
      then show ?thesis using old [of p] old [of g] \<open>g < ?n\<close> by simp
    qed
  qed
  moreover have "inv_open r'"
    using I(4) t by (auto simp: inv_open_def r' nth_append less_Suc_eq)
  moreover have "inv_pair r'"
    unfolding inv_pair_def
  proof (intro allI impI, elim conjE)
    fix a b assume *: "a < b" "b < length (tasks r')" "key_of r' a = key_of r' b" "open_of r' a" "open_of r' b"
    show "phase_of r' b = Awaiting a"
    proof (cases "b = ?n")
      case True
      then have "retiring r key = Some a" using * only [of a] old [of a] new t(1) by simp
      then show ?thesis using True new by (simp add: t_def)
    next
      case False
      then have "b < ?n" using *(2) by (simp add: r')
      then show ?thesis using * I(5) old by (auto simp: inv_pair_def)
    qed
  qed
  moreover have "inv_known r'"
    unfolding inv_known_def
  proof (intro allI impI)
    fix g assume g: "g < length (tasks r')" "open_of r' g"
    show "known_task r' g"
    proof (cases "g = ?n")
      case True
      then show ?thesis using new t(1) by (intro known_taskI(2)) (auto simp: r' update_conv')
    next
      case False
      then have g': "g < ?n" "open_of r g" using g old by (auto simp: r')
      show ?thesis
      proof (cases "key_of r g = key")
        case True
        then have "phase_of r' ?n = Awaiting g" using only [OF g'(1) _ g'(2)] new by (simp add: t_def)
        then show ?thesis using new t(3) by (intro known_taskI(4) [of ?n]) (simp_all add: r')
      next
        case other: False
        have "known_task r g" using g' I(6) by (simp add: inv_known_def)
        then show ?thesis
        proof (cases rule: known_task_cases)
          case stopped
          then show ?thesis using old [OF g'(1)] by (intro known_taskI(1)) (simp add: r')
        next
          case (entry en)
          then show ?thesis using old [OF g'(1)] other by (intro known_taskI(2) [of _ _ en]) (simp_all add: r' update_conv')
        next
          case retiring
          then show ?thesis using old [OF g'(1)] other by (intro known_taskI(3)) (simp add: r')
        next
          case (awaited h)
          then show ?thesis using old [of h] by (intro known_taskI(4) [of h]) (simp_all add: r')
        qed
      qed
    qed
  qed
  moreover have "inv_counts r'"
    using I(7) t(1,2,5) cap by (auto simp: inv_counts_def r')
  moreover have "inv_mail r'" using I(8) t(6) by (auto simp: inv_mail_def r')
  moreover have "inv_keys r'" using I(9) by (simp add: inv_keys_def r' distinct_update)
  ultimately show ?thesis by (simp add: registry_inv_def)
qed

lemma registry_inv_admit:
  assumes inv: "registry_inv r"
  shows "registry_inv (fst (admit ns oid depth event r))"
proof (cases "nc_id ns \<in> stopped r")
  case True
  then show ?thesis using inv by (simp add: admit_def)
next
  case False
  let ?key = "(nc_id ns, oid)"
  have start: "registry_inv (fst (start_object ns ?key depth event r))"
    if en: "\<And>en. map_of (objects r) ?key = Some en \<Longrightarrow> \<not> open_of r (en_generation en)"
  proof (cases "start_object ns ?key depth event r")
    case (Pair r' res)
    show ?thesis
    proof (cases res)
      case (Ok n)
      then show ?thesis using registry_inv_start [of r ns ?key, OF inv False _ en] Pair by simp
    next
      case (Err e)
      then have "r' = r" using Pair by (auto simp: start_object_def Let_def split: if_splits)
      then show ?thesis using inv Pair by simp
    qed
  qed
  show ?thesis
  proof (cases "map_of (objects r) ?key")
    case None
    then show ?thesis using False start by (simp add: admit_def)
  next
    case (Some en)
    show ?thesis
    proof (cases "mailbox_send (en_generation en) depth event r")
      case None
      then have "\<not> open_of r (en_generation en)"
        using inv_objectsD(1) [OF registry_invD(1) [OF inv] Some] by (simp add: mailbox_send_def split: if_splits)
      then show ?thesis using False Some None start by (simp add: admit_def)
    next
      case (Some r')
      then show ?thesis
        using False \<open>map_of (objects r) ?key = Some en\<close> registry_inv_mailbox_send [OF inv Some]
        by (simp add: admit_def)
    qed
  qed
qed

subsection \<open>Stopping and retiring\<close>

lemma map_of_filter_keys:
  "map_of (filter (\<lambda>(k, _). P k) xs) k = (if P k then map_of xs k else None)"
  by (induction xs) auto

lemma inv_keys_filter: "distinct (map fst xs) \<Longrightarrow> distinct (map fst (filter P xs))"
  by (rule distinct_map_filter)

lemma registry_inv_stop_namespace:
  assumes inv: "registry_inv r"
  shows "registry_inv (fst (stop_namespace ns r))"
proof -
  note I = registry_invD [OF inv]
  let ?r = "r\<lparr> stopped := insert ns (stopped r), objects := filter (\<lambda>(key, _). fst key \<noteq> ns) (objects r) \<rparr>"
  have "registry_inv ?r"
  proof (rule registry_inv_tables [OF inv])
    show "inv_objects ?r"
      unfolding inv_objects_def
    proof (intro allI impI)
      fix k e assume "map_of (objects ?r) k = Some e"
      then have "map_of (objects r) k = Some e" "fst k \<noteq> ns"
        by (simp_all add: map_of_filter_keys split: if_splits)
      then show "en_generation e < length (tasks ?r) \<and> key_of ?r (en_generation e) = k \<and> fst k \<notin> stopped ?r \<and>
          (en_version e \<noteq> None \<longrightarrow> is_loaded (phase_of ?r (en_generation e)))"
        using inv_objectsD [OF I(1)] by simp
    qed
    show "inv_retiring ?r"
      using I(2) unfolding inv_retiring_def by (simp add: map_of_filter_keys) blast
    show "inv_keys ?r" using I(9) by (simp add: inv_keys_def inv_keys_filter)
    show "known_task ?r g" if "known_task r g" for g
      using that
    proof (cases rule: known_task_cases)
      case stopped
      then show ?thesis by (intro known_taskI(1)) simp
    next
      case (entry en)
      show ?thesis
      proof (cases "fst (key_of r g) = ns")
        case True
        then show ?thesis by (intro known_taskI(1)) simp
      next
        case False
        then show ?thesis using entry by (intro known_taskI(2) [of _ _ en]) (simp_all add: map_of_filter_keys)
      qed
    next
      case retiring
      then show ?thesis by (intro known_taskI(3)) simp
    next
      case (awaited h)
      then show ?thesis by (intro known_taskI(4) [of h]) simp_all
    qed
  qed simp_all
  then show ?thesis by (simp add: stop_namespace_def)
qed

lemma retiring_fold:
  "distinct (map fst xs) \<Longrightarrow>
     fold (\<lambda>(key, en) m. m(key \<mapsto> en_generation en)) xs m k =
       (case map_of xs k of Some en \<Rightarrow> Some (en_generation en) | None \<Rightarrow> m k)"
proof (induction xs arbitrary: m)
  case (Cons x xs)
  obtain k' en where x: "x = (k', en)" by (cases x)
  have "k' = k \<Longrightarrow> map_of xs k = None" using Cons.prems x by (auto simp: map_of_eq_None_iff)
  then show ?case using Cons x by (auto split: option.splits)
qed simp

lemma registry_inv_retire:
  assumes inv: "registry_inv r"
  shows "registry_inv (retire w v r)"
proof -
  note I = registry_invD [OF inv]
  let ?P = "\<lambda>en. en_worker_id en = w \<and> en_version en = Some v"
  let ?old = "filter (\<lambda>(_, en). ?P en) (objects r)"
  let ?r = "r\<lparr> objects := filter (\<lambda>(_, en). \<not> ?P en) (objects r),
      retiring := fold (\<lambda>(key, en) m. m(key \<mapsto> en_generation en)) ?old (retiring r) \<rparr>"
  have d: "distinct (map fst (objects r))" using I(9) by (simp add: inv_keys_def)
  have obj: "map_of (objects ?r) k = (case map_of (objects r) k of Some en \<Rightarrow> if ?P en then None else Some en | None \<Rightarrow> None)" for k
    using map_of_filter_distinct [OF d, of "\<lambda>_ en. \<not> ?P en" k] by (auto split: option.splits)
  have ret: "retiring ?r k = (case map_of (objects r) k of
      Some en \<Rightarrow> if ?P en then Some (en_generation en) else retiring r k | None \<Rightarrow> retiring r k)" for k
    using retiring_fold [OF inv_keys_filter [OF d], of "\<lambda>(_, en). ?P en" "retiring r" k]
      map_of_filter_distinct [OF d, of "\<lambda>_ en. ?P en" k] by (auto split: option.splits)
  have "registry_inv ?r"
  proof (rule registry_inv_tables [OF inv])
    show "inv_objects ?r"
      unfolding inv_objects_def
    proof (intro allI impI)
      fix k e assume "map_of (objects ?r) k = Some e"
      then have "map_of (objects r) k = Some e"
        unfolding obj by (auto split: option.splits if_splits)
      then show "en_generation e < length (tasks ?r) \<and> key_of ?r (en_generation e) = k \<and> fst k \<notin> stopped ?r \<and>
          (en_version e \<noteq> None \<longrightarrow> is_loaded (phase_of ?r (en_generation e)))"
        using inv_objectsD [OF I(1)] by simp
    qed
    show "inv_retiring ?r"
      unfolding inv_retiring_def
    proof (intro allI impI)
      fix k g assume g: "retiring ?r k = Some g"
      show "g < length (tasks ?r) \<and> key_of ?r g = k \<and> is_loaded (phase_of ?r g) \<and> map_of (objects ?r) k = None"
      proof (cases "map_of (objects r) k")
        case None
        then have "retiring r k = Some g" using g unfolding ret by simp
        then show ?thesis using inv_retiringD [OF I(2)] None unfolding obj by simp
      next
        case (Some en)
        then have "retiring r k = None" using inv_retiringD(4) [OF I(2), of k] by (cases "retiring r k") auto
        then have "?P en" "g = en_generation en" using g Some unfolding ret by (auto split: if_splits)
        then show ?thesis using inv_objectsD [OF I(1) Some] Some unfolding obj by simp
      qed
    qed
    show "inv_keys ?r" using d by (simp add: inv_keys_def inv_keys_filter)
    show "known_task ?r g" if "known_task r g" for g
      using that
    proof (cases rule: known_task_cases)
      case stopped
      then show ?thesis by (intro known_taskI(1)) simp
    next
      case (entry en)
      show ?thesis
      proof (cases "?P en")
        case True
        then have "retiring ?r (key_of ?r g) = Some g" using entry by (simp only: ret) simp
        then show ?thesis by (rule known_taskI(3))
      next
        case False
        then have "map_of (objects ?r) (key_of ?r g) = Some en" using entry by (simp only: obj) simp
        then show ?thesis using entry(2) by (rule known_taskI(2))
      qed
    next
      case retiring
      then have "retiring ?r (key_of ?r g) = Some g"
        using inv_retiringD(4) [OF I(2) retiring] by (simp only: ret) simp
      then show ?thesis by (rule known_taskI(3))
    next
      case (awaited h)
      then show ?thesis by (intro known_taskI(4) [of h]) simp_all
    qed
  qed simp_all
  then show ?thesis by (simp add: retire_def Let_def)
qed

subsection \<open>Every step\<close>

lemma registry_inv_depths:
  assumes inv: "registry_inv r" and g: "g < length (tasks r)"
  shows "registry_inv (upd_task g (\<lambda>t. t\<lparr> tk_depths := ds \<rparr>) r)"
proof (rule registry_inv_upd_task [OF inv g])
  show "task_moves r g ((tasks r ! g)\<lparr> tk_depths := ds \<rparr>)"
    using inv_open_iff [OF registry_invD(4) [OF inv] g] mail_ok_nth [OF registry_invD(8) [OF inv] g]
    by (simp add: task_moves_def mail_ok_def)
qed

lemma registry_inv_task_step:
  assumes inv: "registry_inv r" and g: "g < length (tasks r)" and step: "task_step g action r = Some r'"
  shows "registry_inv r'"
proof (cases action)
  case (Loaded v)
  then show ?thesis using step registry_inv_loaded [OF inv g] by (auto split: if_splits)
next
  case Leave
  then show ?thesis
    using step registry_inv_leave [OF inv g] by (cases "leave g r") (auto split: if_splits)
next
  case DropRunning
  then show ?thesis using step registry_inv_drop_running [OF inv g] by (auto split: if_splits)
qed (use registry_inv_own_steps [OF inv g step] in auto)

lemma registry_inv_step:
  assumes "registry_inv r" and "registry_step r e = Some r'"
  shows "registry_inv r'"
  using assms
  by (cases e) (auto intro: registry_inv_admit registry_inv_stop_namespace registry_inv_retire
      registry_inv_task_step registry_inv_depths split: if_splits)

lemma registry_inv_init: "registry_inv (registry_start socks)"
  by (simp add: registry_inv_def registry_start_def inv_objects_def inv_retiring_def inv_await_def inv_open_def
      inv_pair_def inv_known_def inv_counts_def inv_mail_def inv_keys_def nat_option_def)

interpretation registry_runs:
  step_invariant registry_step "\<lambda>r. r = registry_start socks" registry_inv for socks
  by unfold_locales (auto intro: registry_inv_init registry_inv_step)

lemmas registry_reachable = registry_runs.runs_inv [OF refl]

end
