(* ===== verification/Registry_Props.thy ===== *)
theory Registry_Props
  imports Registry_Steps "HOL-Library.Multiset"
begin

text \<open>
  What the registry of Durable Objects promises, for every interleaving of its steps.
\<close>

section \<open>A concrete run\<close>

text \<open>
  An object gets an event, serves it, is retired for a new deployment while it serves, and gets
  another event before its first task has ended.
\<close>

definition demo_ns :: namespace_config where
  "demo_ns = \<lparr> nc_id = ''ns'', nc_user_id = ''u'', nc_worker_id = ''w'', nc_class_name = ''C'', nc_key = [] \<rparr>"

definition demo_socks :: "nat sockets_state" where
  "demo_socks = \<lparr> sockets = [], channels = [], ws_slots = 4 \<rparr>"

definition demo_registry_events :: "nat registry_event list" where
  "demo_registry_events =
     [Admit demo_ns ''o'' 0 7, Task 0 (Loaded 1), Task 0 (Poll True), Retire ''w'' 1, Admit demo_ns ''o'' 0 8]"

definition demo_task :: "phase \<Rightarrow> nat list \<Rightarrow> nat list \<Rightarrow> nat list \<Rightarrow> nat task" where
  "demo_task p sent taken mail = \<lparr> tk_key = (''ns'', ''o''), tk_account = ''u'', tk_phase = p, tk_mailbox = mail,
     tk_open = True, tk_depths = [0], tk_sent = sent, tk_taken = taken, tk_failed = False \<rparr>"

definition demo_registry :: "(nat, nat) registry" where
  "demo_registry = \<lparr>
     objects = [((''ns'', ''o''), \<lparr> en_generation = 1, en_worker_id = ''w'', en_version = None \<rparr>)],
     running = [''ns'' \<mapsto> 2], accounts = [''u'' \<mapsto> 2], stopped = {}, retiring = (\<lambda>_. None),
     tasks = [demo_task Serving [7] [7] [], demo_task (Awaiting 0) [8] [] [8]],
     reg_sockets = demo_socks \<rparr>"

lemma demo_registry_run: "runs registry_step (registry_start demo_socks) demo_registry_events = Some demo_registry"
  by (simp add: demo_registry_events_def registry_start_def admit_def start_object_def demo_ns_def
      MAX_RESIDENT_PER_ACCOUNT_def count_of_def increment_def enter_depth_def set_version_def upd_task_def
      set_phase_def take_event_def retire_def Let_def demo_socks_def close_object_def close_where_def
      demo_registry_def demo_task_def fun_eq_iff)

section \<open>Lemmas\<close>

lemma runs_code_open: "runs_code p \<Longrightarrow> \<not> is_ended p \<and> (\<forall>g. p \<noteq> Awaiting g)"
  by (cases p) auto

lemma one_task_runs:
  assumes inv: "registry_inv r" and gh: "g < h" "h < length (tasks r)" "key_of r g = key_of r h"
    and code: "runs_code (phase_of r g)" "runs_code (phase_of r h)"
  shows False
proof -
  note I = registry_invD [OF inv]
  have "open_of r g" "open_of r h"
    using runs_code_open [OF code(1)] runs_code_open [OF code(2)] inv_open_iff [OF I(4)] gh by auto
  then have "phase_of r h = Awaiting g" using I(5) gh unfolding inv_pair_def by blast
  then show False using runs_code_open [OF code(2)] by blast
qed

text \<open>The tasks of a namespace that is stopped and has none that is counted.\<close>

definition quiet_namespace :: "string \<Rightarrow> ('e, 's) registry \<Rightarrow> bool" where
  "quiet_namespace ns r \<longleftrightarrow> ns \<in> stopped r \<and> (\<forall>t \<in> set (tasks r). fst (tk_key t) = ns \<longrightarrow> \<not> is_counted (tk_phase t))"

lemma quiet_upd_task:
  assumes "quiet_namespace ns r" "g < length (tasks r)" "tk_key (f (tasks r ! g)) = key_of r g"
    and "is_counted (tk_phase (f (tasks r ! g))) \<Longrightarrow> is_counted (phase_of r g)"
  shows "quiet_namespace ns (upd_task g f r)"
  using assms by (auto simp: quiet_namespace_def dest!: set_update_subset_insert [THEN subsetD])

lemma quiet_tables:
  assumes "quiet_namespace ns r" "tasks r' = tasks r" "stopped r \<subseteq> stopped r'"
  shows "quiet_namespace ns r'"
  using assms by (auto simp: quiet_namespace_def)

lemma quiet_task_step:
  assumes q: "quiet_namespace ns r" and g: "g < length (tasks r)" and step: "task_step g action r = Some r'"
  shows "quiet_namespace ns r'"
proof (cases action)
  case (Loaded v)
  have "quiet_namespace ns (set_version g v r)"
    by (rule quiet_tables [OF q]) (auto simp: set_version_def Let_def split: option.splits)
  moreover have "tasks (set_version g v r) = tasks r"
    by (auto simp: set_version_def Let_def split: option.splits)
  ultimately show ?thesis using step Loaded g by (auto intro!: quiet_upd_task split: if_splits)
next
  case Leave
  then obtain r1 ended where l: "leave g r = (r1, ended)" "phase_of r g = Leaving"
    and r': "r' = upd_task g (set_phase (if ended then Returned else Polling)) r1"
    using step by (auto split: if_splits prod.splits)
  have "quiet_namespace ns r1 \<and> length (tasks r1) = length (tasks r) \<and> phase_of r1 g = Leaving"
    using l g q by (auto simp: leave_def Let_def intro!: quiet_upd_task intro: quiet_tables [OF q] split: if_splits option.splits)
  then show ?thesis using r' g by (auto intro!: quiet_upd_task)
next
  case DropRunning
  then obtain r1 where r1: "drop_running g r = Some r1" "r' = upd_task g (set_phase Released) r1"
    using step by (auto split: if_splits)
  have "tasks r1 = tasks r" "stopped r1 = stopped r"
    using r1(1) by (auto simp: drop_running_def Let_def split: option.splits)
  then show ?thesis using r1(2) g quiet_tables [OF q, of r1] by (auto intro!: quiet_upd_task)
next
  case Served
  have "quiet_namespace ns (r\<lparr> reg_sockets := x \<rparr>)" for x by (rule quiet_tables [OF q]) auto
  then show ?thesis using step Served g by (auto simp: Let_def intro!: quiet_upd_task split: if_splits)
qed (use step g q in \<open>auto intro!: quiet_upd_task split: if_splits phase.splits\<close>)

lemma quiet_admit:
  assumes q: "quiet_namespace ns r"
  shows "quiet_namespace ns (fst (admit nc oid depth event r))"
proof -
  have "quiet_namespace ns (fst (start_object nc key depth event r))" if "fst key \<notin> stopped r" for key
    using that q by (auto simp: quiet_namespace_def start_object_def Let_def)
  moreover have "quiet_namespace ns r'" if "mailbox_send g depth event r = Some r'" for g r'
    using that q by (auto simp: mailbox_send_def intro!: quiet_upd_task split: if_splits)
  ultimately show ?thesis
    using q by (auto simp: admit_def Let_def split: option.splits)
qed

lemma quiet_step:
  assumes q: "quiet_namespace ns r" and step: "registry_step r e = Some r'"
  shows "quiet_namespace ns r'"
proof (cases e)
  case (StopNamespace n)
  then show ?thesis using step by (auto simp: stop_namespace_def intro!: quiet_tables [OF q])
next
  case (Retire w v)
  then show ?thesis using step by (auto simp: retire_def Let_def intro!: quiet_tables [OF q])
qed (use step q quiet_task_step quiet_admit in \<open>auto split: if_splits intro!: quiet_upd_task\<close>)

interpretation quiet_runs: step_invariant registry_step "quiet_namespace ns" "quiet_namespace ns" for ns
  by unfold_locales (auto intro: quiet_step)

lemma stop_none_quiet:
  assumes inv: "registry_inv r" and stop: "stop_namespace ns r = (r', True)"
  shows "quiet_namespace ns r'"
proof -
  have "ns_count (tasks r) ns = 0"
    using registry_invD(7) [OF inv] stop by (auto simp: stop_namespace_def inv_counts_def nat_option_def split: if_splits)
  then show ?thesis using stop by (auto simp: quiet_namespace_def stop_namespace_def tally_zero_iff)
qed

lemma position_Some:
  "position P xs = Some i \<Longrightarrow> i < length xs \<and> P (xs ! i)"
  by (induction xs arbitrary: i) (auto split: if_splits)

lemma position_None: "position P xs = None \<longleftrightarrow> (\<forall>x \<in> set xs. \<not> P x)"
  by (induction xs) auto

lemma mset_swap_remove:
  assumes "i < length xs"
  shows "mset (swap_remove i xs) = mset xs - {# xs ! i #}"
proof -
  obtain ys y where xs: "xs = ys @ [y]" using assms by (cases xs rule: rev_cases) auto
  show ?thesis
  proof (cases "i = length ys")
    case True
    then show ?thesis using xs by (simp add: swap_remove_def)
  next
    case False
    then have i: "i < length ys" using assms xs by simp
    then have "swap_remove i xs = ys[i := y]" using xs by (simp add: swap_remove_def list_update_append)
    then show ?thesis using i xs by (simp add: mset_update nth_append)
  qed
qed

lemma deepest_max: "deepest depths = Max (insert 0 (set depths))"
proof -
  have "foldl max a depths = Max (insert a (set depths))" for a
  proof (induction depths arbitrary: a)
    case (Cons d depths)
    have "Max (insert (max a d) (set depths)) = Max (insert a (insert d (set depths)))"
      by (cases "depths = []") (simp_all add: max.assoc)
    then show ?case using Cons by simp
  qed simp
  then show ?thesis by (simp add: deepest_def)
qed

section \<open>Properties\<close>

text \<open>
  C1. Old and new code never run for the same object at once: in every reachable state, whatever
  was admitted, retired, stopped or ended in which order, at most one task of an object loads or
  serves it. The others of its tasks wait for the end of that one, or have returned.
\<close>

theorem one_task_per_object:
  assumes "runs registry_step (registry_start socks) es = Some r"
    and "g < length (tasks r)" "h < length (tasks r)" "tk_key (tasks r ! g) = tk_key (tasks r ! h)"
    and "runs_code (tk_phase (tasks r ! g))" "runs_code (tk_phase (tasks r ! h))"
  shows "g = h"
  using one_task_runs [OF registry_reachable [OF assms(1)], of g h]
    one_task_runs [OF registry_reachable [OF assms(1)], of h g] assms(2-6)
  by (cases g h rule: linorder_cases) auto

theorem one_task_per_object_witness:
  "length (tasks demo_registry) = 2 \<and> tk_key (tasks demo_registry ! 0) = tk_key (tasks demo_registry ! 1)
   \<and> runs_code (tk_phase (tasks demo_registry ! 0)) \<and> \<not> runs_code (tk_phase (tasks demo_registry ! 1))"
proof -
  have facts: "length (tasks demo_registry) = 2" "tk_key (tasks demo_registry ! 0) = tk_key (tasks demo_registry ! 1)"
    "runs_code (tk_phase (tasks demo_registry ! 0))"
    by (simp_all add: demo_registry_def demo_task_def)
  have "\<not> runs_code (tk_phase (tasks demo_registry ! 1))"
    using one_task_per_object [OF demo_registry_run, of 0 1] facts by auto
  with facts show ?thesis by blast
qed

text \<open>
  C2. No event is lost or reordered between \<open>admit\<close> and the task of the object: what the task took is
  always the beginning of what was sent to it, the rest is in its mailbox, and a task that ended
  after its worker loaded took every event it was sent.
\<close>

theorem mailbox_in_order:
  assumes "runs registry_step (registry_start socks) es = Some r" and "t \<in> set (tasks r)"
  shows "tk_sent t = tk_taken t @ tk_mailbox t
    \<and> (is_ended (tk_phase t) \<and> \<not> tk_failed t \<longrightarrow> tk_taken t = tk_sent t)"
  using registry_invD(8) [OF registry_reachable [OF assms(1)]] assms(2) by (auto simp: inv_mail_def mail_ok_def)

theorem mailbox_in_order_witness:
  "tk_sent (tasks demo_registry ! 1) = tk_taken (tasks demo_registry ! 1) @ tk_mailbox (tasks demo_registry ! 1)"
  using mailbox_in_order [OF demo_registry_run, of "tasks demo_registry ! 1"]
  by (simp add: demo_registry_def)

text \<open>
  C8. The counts of running tasks are exact: per namespace and per account they are the number of
  tasks whose \<open>Running\<close> has not dropped, absent when there is none; no account passes
  \<open>MAX_RESIDENT_PER_ACCOUNT\<close>; and the drop of a task's \<open>Running\<close> never panics.
\<close>

theorem registry_counts_exact:
  assumes "runs registry_step (registry_start socks) es = Some r"
  shows "running r ns = (let n = tally (\<lambda>t. fst (tk_key t) = ns \<and> is_counted (tk_phase t)) (tasks r)
                         in if n = 0 then None else Some n)
    \<and> accounts r a = (let n = tally (\<lambda>t. tk_account t = a \<and> is_counted (tk_phase t)) (tasks r)
                      in if n = 0 then None else Some n)
    \<and> tally (\<lambda>t. tk_account t = a \<and> is_counted (tk_phase t)) (tasks r) \<le> MAX_RESIDENT_PER_ACCOUNT
    \<and> (g < length (tasks r) \<and> tk_phase (tasks r ! g) = Returned \<longrightarrow> registry_step r (Task g DropRunning) \<noteq> None)"
proof -
  have inv: "registry_inv r" by (rule registry_reachable [OF assms])
  show ?thesis
    using registry_invD(7) [OF inv] drop_running_counted [OF inv, of g]
    by (auto simp: inv_counts_def nat_option_def Let_def)
qed

theorem registry_counts_exact_witness:
  "running demo_registry ''ns'' = Some 2 \<and> tally (\<lambda>t. tk_account t = ''u'' \<and> is_counted (tk_phase t)) (tasks demo_registry) \<le> 100"
  using registry_counts_exact [OF demo_registry_run, of "''ns''" "''u''" 0]
  by (simp add: demo_registry_def MAX_RESIDENT_PER_ACCOUNT_def)

text \<open>
  C7. When \<open>stop_namespace\<close> answers that none of the namespace runs any more, no task of it loads or
  serves an object in any later state: the files of the namespace can go.
\<close>

theorem stopped_namespace_stays_quiet:
  assumes "runs registry_step (registry_start socks) es = Some r"
    and "stop_namespace ns r = (r', True)"
    and "runs registry_step r' es' = Some r''"
    and "t \<in> set (tasks r'')" "fst (tk_key t) = ns"
  shows "\<not> runs_code (tk_phase t)"
proof -
  have "quiet_namespace ns r''"
    using quiet_runs.runs_inv [OF stop_none_quiet [OF registry_reachable [OF assms(1)] assms(2)] assms(3)] .
  then have "\<not> is_counted (tk_phase t)" using assms(4,5) by (auto simp: quiet_namespace_def)
  then show ?thesis by (cases "tk_phase t") auto
qed

definition demo_ended :: "nat registry_event list" where
  "demo_ended = [Admit demo_ns ''o'' 0 7, Task 0 LoadFailed, Task 0 DropRunning]"

definition demo_ended_registry :: "(nat, nat) registry" where
  "demo_ended_registry = \<lparr>
     objects = [((''ns'', ''o''), \<lparr> en_generation = 0, en_worker_id = ''w'', en_version = None \<rparr>)],
     running = (\<lambda>_. None), accounts = (\<lambda>_. None), stopped = {}, retiring = (\<lambda>_. None),
     tasks = [(demo_task Released [7] [] [7])\<lparr> tk_open := False, tk_failed := True \<rparr>],
     reg_sockets = demo_socks \<rparr>"

lemma demo_ended_run: "runs registry_step (registry_start demo_socks) demo_ended = Some demo_ended_registry"
  by (simp add: demo_ended_def registry_start_def admit_def start_object_def demo_ns_def
      MAX_RESIDENT_PER_ACCOUNT_def count_of_def increment_def enter_depth_def upd_task_def
      set_phase_def Let_def demo_socks_def drop_running_def release_def
      demo_ended_registry_def demo_task_def fun_eq_iff)

theorem stopped_namespace_stays_quiet_witness:
  "snd (stop_namespace ''ns'' demo_ended_registry)
   \<and> fst (tk_key (tasks (fst (stop_namespace ''ns'' demo_ended_registry)) ! 0)) = ''ns''
   \<and> \<not> runs_code (tk_phase (tasks (fst (stop_namespace ''ns'' demo_ended_registry)) ! 0))"
proof -
  let ?r = "fst (stop_namespace ''ns'' demo_ended_registry)"
  have stop: "stop_namespace ''ns'' demo_ended_registry = (?r, True)"
    and key: "fst (tk_key (tasks ?r ! 0)) = ''ns''" and mem: "tasks ?r ! 0 \<in> set (tasks ?r)"
    by (simp_all add: stop_namespace_def demo_ended_registry_def demo_task_def)
  have "\<not> runs_code (tk_phase (tasks ?r ! 0))"
    by (rule stopped_namespace_stays_quiet [OF demo_ended_run stop _ mem key, of "[]"]) simp
  then show ?thesis using stop key by (metis snd_conv)
qed



text \<open>
  The depths of an object's events in flight are a multiset: entering adds one, the drop of a
  guard removes one occurrence of its depth and cannot panic while the depth is there, and the
  deepest is their maximum, zero without an event.
\<close>

lemma call_depths_multiset:
  "mset (enter_depth d ds) = add_mset d (mset ds)
   \<and> (leave_depth d ds = None \<longleftrightarrow> d \<notin># mset ds)
   \<and> (\<forall>ds'. leave_depth d ds = Some ds' \<longrightarrow> mset ds' = mset ds - {# d #})
   \<and> deepest ds = Max (insert 0 (set_mset (mset ds)))"
proof -
  have "mset ds' = mset ds - {# d #}" if some: "leave_depth d ds = Some ds'" for ds'
  proof -
    obtain i where i: "position (\<lambda>x. x = d) ds = Some i" "ds' = swap_remove i ds"
      using some by (auto simp: leave_depth_def split: option.splits)
    then show ?thesis using position_Some [OF i(1)] mset_swap_remove [of i ds] by simp
  qed
  moreover have "leave_depth d ds = None \<longleftrightarrow> d \<notin> set ds"
    using position_None [of "\<lambda>x. x = d" ds] by (auto simp: leave_depth_def)
  ultimately show ?thesis by (simp add: enter_depth_def deepest_max)
qed

lemma call_depths_multiset_witness:
  "leave_depth 2 [1, 2, 3] = Some [1, 3] \<and> mset [1, 3 :: u32] = mset [1, 2, 3] - {# 2 #}"
proof -
  have l: "leave_depth 2 [1, 2, 3] = Some [1, 3]" by (simp add: leave_depth_def swap_remove_def)
  then show ?thesis using call_depths_multiset [of 2 "[1, 2, 3]"] by blast
qed

end
