(* ===== verification/Durable_Id.thy ===== *)
theory Durable_Id
  imports Rust_Str
begin

text \<open>
  \<open>src/durable/id.rs\<close>: the ids of Durable Objects. HMAC-SHA256 and the hex codec come from crates, so
  they are the fields of a record the functions take, with their documented laws in a locale; a text
  codec for hex digits and a keyed sum instantiate it.
\<close>

section \<open>The crates\<close>

record id_crates =
  hmac_sha256 :: "u8 list \<Rightarrow> u8 list \<Rightarrow> u8 list"
  hex_encode :: "u8 list \<Rightarrow> string"
  hex_decode :: "string \<Rightarrow> u8 list option"

text \<open>\<open>verify_truncated_left\<close> of \<open>hmac\<close>: the tag is not empty, not longer than the code, and its beginning.\<close>

definition verify_truncated_left :: "u8 list \<Rightarrow> u8 list \<Rightarrow> bool" where
  "verify_truncated_left code tag \<longleftrightarrow> tag \<noteq> [] \<and> length tag \<le> length code \<and> take (length tag) code = tag"

locale id_crates_laws =
  fixes P :: id_crates
  assumes hmac_length: "length (hmac_sha256 P key data) = 32"
    and hex_length: "length (hex_encode P bytes) = 2 * length bytes"
    and hex_decode_encode: "hex_decode P (hex_encode P bytes) = Some bytes"
    and hex_encode_decode: "hex_decode P input = Some bytes \<Longrightarrow> hex_encode P bytes = to_ascii_lowercase input"
    and hex_decode_case: "hex_decode P (to_ascii_lowercase input) = hex_decode P input"

section \<open>Ids\<close>

definition PART :: nat where
  "PART = 16"

definition mac :: "id_crates \<Rightarrow> u8 list \<Rightarrow> string \<Rightarrow> u8 list \<Rightarrow> u8 list" where
  "mac P key label data = hmac_sha256 P key (map of_char label @ [0] @ data)"

definition with_tag :: "id_crates \<Rightarrow> u8 list \<Rightarrow> u8 list \<Rightarrow> string" where
  "with_tag P key body =
     (let tag = mac P key ''id'' body;
          ident = body @ take PART tag
      in hex_encode P ident)"

definition from_name :: "id_crates \<Rightarrow> u8 list \<Rightarrow> string \<Rightarrow> string" where
  "from_name P key name =
     (let body = mac P key ''name'' (map of_char name)
      in with_tag P key (take PART body))"

text \<open>The bytes of the new version 4 UUID are an argument.\<close>

definition unique :: "id_crates \<Rightarrow> u8 list \<Rightarrow> u8 list \<Rightarrow> string" where
  "unique P uuid key = with_tag P key uuid"

definition id_parse :: "id_crates \<Rightarrow> u8 list \<Rightarrow> string \<Rightarrow> string option" where
  "id_parse P key input =
     (if length input \<noteq> PART * 4 then None
      else case hex_decode P input of
          None \<Rightarrow> None
        | Some bytes \<Rightarrow>
            let body = take PART bytes; tag = drop PART bytes in
            if verify_truncated_left (mac P key ''id'' body) tag then Some (hex_encode P bytes) else None)"

section \<open>Parsing takes back exactly the ids of the namespace\<close>

context id_crates_laws
begin

lemma length_with_tag: "length (with_tag P key body) = 2 * length body + 32"
  by (simp add: with_tag_def Let_def hex_length hmac_length mac_def PART_def)

lemma lower_with_tag: "to_ascii_lowercase (with_tag P key body) = with_tag P key body"
  using hex_encode_decode [OF hex_decode_encode] by (simp add: with_tag_def Let_def)

lemma parse_exact:
  "id_parse P key input =
     (if \<exists>body. length body = PART \<and> to_ascii_lowercase input = with_tag P key body
      then Some (to_ascii_lowercase input) else None)"
proof (cases "\<exists>body. length body = PART \<and> to_ascii_lowercase input = with_tag P key body")
  case True
  then obtain body where body: "length body = PART" "to_ascii_lowercase input = with_tag P key body" by blast
  have "hex_decode P input = Some (body @ take PART (mac P key ''id'' body))"
    using hex_decode_encode hex_decode_case [of input] by (simp add: body(2) with_tag_def Let_def)
  moreover have "length input = PART * 4"
    using arg_cong [OF body(2), of length] body(1) by (simp add: length_with_tag PART_def)
  moreover have "verify_truncated_left (mac P key ''id'' body) (take PART (mac P key ''id'' body))"
    by (auto simp: verify_truncated_left_def mac_def hmac_length PART_def simp flip: length_greater_0_conv)
  ultimately show ?thesis
    using True body by (simp add: id_parse_def Let_def with_tag_def)
next
  case False
  have "id_parse P key input \<noteq> Some ident" for ident
  proof
    assume some: "id_parse P key input = Some ident"
    then obtain bytes where bytes: "hex_decode P input = Some bytes" "length input = PART * 4"
        "verify_truncated_left (mac P key ''id'' (take PART bytes)) (drop PART bytes)"
      by (auto simp: id_parse_def Let_def split: if_splits option.splits)
    have lower: "to_ascii_lowercase input = hex_encode P bytes" using hex_encode_decode [OF bytes(1)] by simp
    then have "length bytes = 2 * PART"
      using hex_length [of bytes] bytes(2) by (simp flip: lower)
    then have "bytes = take PART bytes @ take PART (mac P key ''id'' (take PART bytes))" "length (take PART bytes) = PART"
      using bytes(3) by (simp_all add: verify_truncated_left_def)
    then have "to_ascii_lowercase input = with_tag P key (take PART bytes)"
      using lower by (simp add: with_tag_def Let_def)
    then show False using False \<open>length (take PART bytes) = PART\<close> by blast
  qed
  then show ?thesis using False by (cases "id_parse P key input") auto
qed

lemma parse_own: "length body = PART \<Longrightarrow> id_parse P key (with_tag P key body) = Some (with_tag P key body)"
  by (auto simp: parse_exact lower_with_tag)

lemma parse_from_name: "id_parse P key (from_name P key name) = Some (from_name P key name)"
  by (simp add: from_name_def Let_def parse_own mac_def hmac_length PART_def)

end

section \<open>A text codec for hex digits\<close>

definition hex_digit :: "char \<Rightarrow> nat option" where
  "hex_digit c =
     (let n = of_char c :: nat in
      if 48 \<le> n \<and> n \<le> 57 then Some (n - 48)
      else if 97 \<le> n \<and> n \<le> 102 then Some (n - 87)
      else if 65 \<le> n \<and> n \<le> 70 then Some (n - 55)
      else None)"

definition hex_text :: "u8 list \<Rightarrow> string" where
  "hex_text bytes = concat (map (\<lambda>b. [digit_char (unat b div 16), digit_char (unat b mod 16)]) bytes)"

fun hex_bytes :: "string \<Rightarrow> u8 list option" where
  "hex_bytes [] = Some []"
| "hex_bytes [c] = None"
| "hex_bytes (c # d # s) =
     (case (hex_digit c, hex_digit d, hex_bytes s) of
        (Some h, Some l, Some bytes) \<Rightarrow> Some (of_nat (16 * h + l) # bytes)
      | _ \<Rightarrow> None)"

lemma hex_digit_char: "n < 16 \<Longrightarrow> hex_digit (digit_char n) = Some n"
  by (auto simp: hex_digit_def digit_char_def Let_def)

lemma hex_digit_lower: "hex_digit (ascii_lower c) = hex_digit c"
  by (auto simp: hex_digit_def of_char_ascii_lower Let_def)

lemma digit_char_hex: "hex_digit c = Some n \<Longrightarrow> n < 16 \<and> digit_char n = ascii_lower c"
proof -
  assume some: "hex_digit c = Some n"
  have "of_char (digit_char n) = (of_char (ascii_lower c) :: nat)" "n < 16"
    using some by (auto simp: hex_digit_def digit_char_def of_char_ascii_lower Let_def split: if_splits)
  then show ?thesis by (metis char_of_char)
qed

lemma hex_text_bytes: "hex_bytes input = Some bytes \<Longrightarrow> hex_text bytes = to_ascii_lowercase input"
proof (induction input arbitrary: bytes rule: hex_bytes.induct)
  case (3 c d s)
  then obtain h l rest where parts: "hex_digit c = Some h" "hex_digit d = Some l" "hex_bytes s = Some rest"
      and bytes: "bytes = of_nat (16 * h + l) # rest"
    by (auto split: option.splits)
  have "unat (of_nat (16 * h + l) :: u8) = 16 * h + l"
    using digit_char_hex [OF parts(1)] digit_char_hex [OF parts(2)]
    by (simp add: unat_of_nat take_bit_nat_eq_self del: of_nat_add of_nat_mult)
  then show ?case
    using "3.IH" [OF parts(3)] digit_char_hex [OF parts(1)] digit_char_hex [OF parts(2)] bytes
    by (simp add: hex_text_def to_ascii_lowercase_def)
qed (simp_all add: hex_text_def to_ascii_lowercase_def)

lemma hex_bytes_text: "hex_bytes (hex_text bytes) = Some bytes"
proof (induction bytes)
  case (Cons b bytes)
  have "unat b div 16 < 16" "unat b mod 16 < 16" using unsigned_less [of b, where ?'a = nat] by (auto simp: less_mult_imp_div_less)
  moreover have "of_nat (16 * (unat b div 16) + unat b mod 16) = b" by simp
  ultimately show ?case
    using Cons by (simp add: hex_text_def hex_digit_char del: of_nat_add of_nat_mult)
qed (simp add: hex_text_def)

lemma hex_bytes_lower: "hex_bytes (to_ascii_lowercase input) = hex_bytes input"
  by (induction input rule: hex_bytes.induct) (simp_all add: to_ascii_lowercase_def hex_digit_lower)

text \<open>A keyed sum in place of the hash, with its output length.\<close>

definition keyed_sum :: "u8 list \<Rightarrow> u8 list \<Rightarrow> u8 list" where
  "keyed_sum key data = map (\<lambda>i. of_nat i + sum_list key + sum_list data) [0..<32]"

definition demo_crates :: id_crates where
  "demo_crates = \<lparr> hmac_sha256 = keyed_sum, hex_encode = hex_text, hex_decode = hex_bytes \<rparr>"

interpretation demo_id: id_crates_laws demo_crates
proof
  show "length (hex_encode demo_crates bytes) = 2 * length bytes" for bytes
    by (induction bytes) (simp_all add: demo_crates_def hex_text_def)
qed (simp_all add: demo_crates_def keyed_sum_def hex_bytes_text hex_text_bytes hex_bytes_lower)

section \<open>Properties\<close>

text \<open>
  C19. A namespace takes back its own ids and no other: \<open>parse\<close> answers exactly for the spellings, in
  either case, of the 64 digits \<open>with_tag\<close> makes of a body of 16 bytes, and answers them in lower case. So
  the ids of \<open>from_name\<close> and \<open>unique\<close> come back as they are.
\<close>

theorem id_round_trip:
  assumes "id_crates_laws P"
  shows "id_parse P key input =
      (if \<exists>body. length body = PART \<and> to_ascii_lowercase input = with_tag P key body
       then Some (to_ascii_lowercase input) else None)
    \<and> id_parse P key (from_name P key name) = Some (from_name P key name)
    \<and> (length uuid = PART \<longrightarrow> id_parse P key (unique P uuid key) = Some (unique P uuid key))"
  using id_crates_laws.parse_exact [OF assms] id_crates_laws.parse_from_name [OF assms]
    id_crates_laws.parse_own [OF assms]
  by (simp add: unique_def)

theorem id_round_trip_witness:
  "id_parse demo_crates [7] (from_name demo_crates [7] ''room'') = Some (from_name demo_crates [7] ''room'')
   \<and> id_parse demo_crates [8] (from_name demo_crates [7] ''room'') = None"
proof -
  have "id_parse demo_crates [8] (from_name demo_crates [7] ''room'') = None" by code_simp
  then show ?thesis using id_round_trip [OF demo_id.id_crates_laws_axioms] by blast
qed

end
