(* ===== verification/Ingress_Config.thy ===== *)
theory Ingress_Config
  imports Net_Guard
begin

text \<open>
  \<open>src/ingress.rs\<close>, the configuration of the public side: \<open>Config::from_vars\<close> with the allowlist, the
  rules that tie the variables together, and the TLS setup. The environment, the files, the text
  format of addresses, networks and header names, and \<open>rustls\<close> are arguments.
\<close>

section \<open>Data\<close>

datatype client_cert_mode = Require | Log

datatype https_addr = HttpsTcp socket_addr | HttpsUnix string

datatype peer = PeerTcp socket_addr | PeerUnix

fun peer_ip :: "peer \<Rightarrow> ip_addr option" where
  "peer_ip (PeerTcp addr) = Some (sa_ip addr)"
| "peer_ip PeerUnix = None"

record ('c, 'k) tls_server =
  ts_client_roots :: "'c list option"
  ts_chain :: "'c list"
  ts_key :: 'k
  ts_alpn :: "string list"

record ('n, 'c, 'k) ingress_config =
  internal_port :: nat
  http_addr :: socket_addr
  cfg_https_addr :: https_addr
  cfg_listeners :: nat
  dashboard_hosts :: "string list"
  api_worker :: string
  worker_domains :: "string list"
  allowlist :: "'n list option"
  client_ip_header :: "string option"
  cfg_tls :: "('c, 'k) tls_server option"
  client_cert :: "client_cert_mode option"

text \<open>What the configuration is read with.\<close>

record 'n address_parsers =
  parse_socket_addr :: "string \<Rightarrow> socket_addr option"
  parse_ip :: "string \<Rightarrow> ip_addr option"
  parse_net :: "string \<Rightarrow> 'n option"
  net_of_ip :: "ip_addr \<Rightarrow> 'n"
  net_contains :: "'n \<Rightarrow> ip_addr \<Rightarrow> bool"

record ('c, 'k) rustls_ops =
  pem_certificates :: "string \<Rightarrow> ('c list, string) result"
  pem_key :: "string \<Rightarrow> ('k, string) result"
  safe_versions :: "(unit, string) result"
  root_add :: "'c \<Rightarrow> (unit, string) result"
  verifier_build :: "'c list \<Rightarrow> (unit, string) result"
  single_cert :: "'c list \<Rightarrow> 'k \<Rightarrow> (unit, string) result"

record host_env =
  available_parallelism :: "nat option"
  read_to_string :: "string \<Rightarrow> (string, string) result"
  header_name :: "string \<Rightarrow> string option"

section \<open>Lists and the allowlist\<close>

definition config_list :: "string option \<Rightarrow> string \<Rightarrow> string list" where
  "config_list value dflt =
     filter (\<lambda>item. item \<noteq> [])
       (map (\<lambda>item. to_ascii_lowercase (trim_end_matches ''.'' (trim_str item)))
         (split_char (CHR '','') (case value of Some v \<Rightarrow> v | None \<Rightarrow> dflt)))"

definition allowlist_line :: "'n address_parsers \<Rightarrow> nat \<Rightarrow> string \<Rightarrow> ('n, string) result option" where
  "allowlist_line A index line =
     (let value = trim_str (hd (split_char (CHR ''#'') line)) in
      if value = [] then None
      else Some (case parse_net A value of
          Some network \<Rightarrow> Ok network
        | None \<Rightarrow>
            (case parse_ip A value of
               Some ip \<Rightarrow> Ok (net_of_ip A ip)
             | None \<Rightarrow> Err (''allowlist line '' @ show_nat (index + 1) @ '': not an address: '' @ value))))"

fun allowlist_lines :: "'n address_parsers \<Rightarrow> nat \<Rightarrow> string list \<Rightarrow> ('n list, string) result" where
  "allowlist_lines A index [] = Ok []"
| "allowlist_lines A index (line # ls) =
     (case allowlist_line A index line of
        None \<Rightarrow> allowlist_lines A (index + 1) ls
      | Some (Err e) \<Rightarrow> Err e
      | Some (Ok network) \<Rightarrow> and_then (allowlist_lines A (index + 1) ls) (\<lambda>ns. Ok (network # ns)))"

definition parse_allowlist :: "'n address_parsers \<Rightarrow> string \<Rightarrow> ('n list, string) result" where
  "parse_allowlist A file = allowlist_lines A 0 (str_lines file)"

fun to_canonical :: "ip_addr \<Rightarrow> ip_addr" where
  "to_canonical (V4 v4) = V4 v4"
| "to_canonical (V6 v6) = (case to_ipv4_mapped v6 of Some v4 \<Rightarrow> V4 v4 | None \<Rightarrow> V6 v6)"

definition allowed :: "'n address_parsers \<Rightarrow> 'n list option \<Rightarrow> ip_addr \<Rightarrow> bool" where
  "allowed A networks p =
     (let p = to_canonical p in
      case networks of None \<Rightarrow> True | Some ns \<Rightarrow> list_ex (\<lambda>network. net_contains A network p) ns)"

definition config_allows :: "'n address_parsers \<Rightarrow> ('n, 'c, 'k) ingress_config \<Rightarrow> ip_addr \<Rightarrow> bool" where
  "config_allows A config p = allowed A (allowlist config) p"

section \<open>TLS\<close>

fun map_err :: "('e \<Rightarrow> 'f) \<Rightarrow> ('a, 'e) result \<Rightarrow> ('a, 'f) result" where
  "map_err f (Ok a) = Ok a"
| "map_err f (Err e) = Err (f e)"

fun add_roots :: "('c, 'k) rustls_ops \<Rightarrow> 'c list \<Rightarrow> 'c list \<Rightarrow> ('c list, string) result" where
  "add_roots R roots [] = Ok roots"
| "add_roots R roots (c # cs) = and_then (root_add R c) (\<lambda>_. add_roots R (roots @ [c]) cs)"

definition client_verifier :: "('c, 'k) rustls_ops \<Rightarrow> string option \<Rightarrow> ('c list option, string) result" where
  "client_verifier R client_ca =
     (case client_ca of
        None \<Rightarrow> Ok None
      | Some path \<Rightarrow>
          and_then (map_err (\<lambda>e. ''HTTPS_CLIENT_CA_FILE '' @ path @ '': '' @ e) (pem_certificates R path)) (\<lambda>certificates.
          and_then (add_roots R [] certificates) (\<lambda>roots.
            if roots = [] then Err (''HTTPS_CLIENT_CA_FILE '' @ path @ '': no certificate'')
            else and_then (verifier_build R roots) (\<lambda>_. Ok (Some roots)))))"

definition tls_config ::
  "('c, 'k) rustls_ops \<Rightarrow> string \<Rightarrow> string \<Rightarrow> string option \<Rightarrow> (('c, 'k) tls_server, string) result" where
  "tls_config R certificate key client_ca =
     and_then (map_err (\<lambda>e. ''HTTP_TLS_CERTIFICATE '' @ certificate @ '': '' @ e) (pem_certificates R certificate)) (\<lambda>chain.
     and_then (map_err (\<lambda>e. ''HTTP_TLS_KEY '' @ key @ '': '' @ e) (pem_key R key)) (\<lambda>private.
     and_then (safe_versions R) (\<lambda>_.
     and_then (client_verifier R client_ca) (\<lambda>roots.
     and_then (single_cert R chain private) (\<lambda>_.
       Ok \<lparr> ts_client_roots = roots, ts_chain = chain, ts_key = private, ts_alpn = [''h2'', ''http/1.1''] \<rparr>)))))"

text \<open>Whether a connection is served after its handshake; \<open>certs\<close> tells whether the client sent one.\<close>

definition client_cert_allowed :: "client_cert_mode option \<Rightarrow> bool \<Rightarrow> bool" where
  "client_cert_allowed mode certs =
     (case mode of
        None \<Rightarrow> True
      | Some m \<Rightarrow> if certs then True else (case m of Require \<Rightarrow> False | Log \<Rightarrow> True))"

section \<open>The configuration\<close>

definition DEFAULT_INTERNAL_PORT :: nat where
  "DEFAULT_INTERNAL_PORT = 8080"

definition addr_var ::
  "'n address_parsers \<Rightarrow> (string \<Rightarrow> string option) \<Rightarrow> string \<Rightarrow> string \<Rightarrow> (socket_addr, string) result" where
  "addr_var A var name dflt =
     (let value = (case var name of Some v \<Rightarrow> v | None \<Rightarrow> dflt) in
      case parse_socket_addr A value of
        Some a \<Rightarrow> Ok a
      | None \<Rightarrow> Err (name @ '' is not an address: '' @ value))"

definition listeners_var :: "host_env \<Rightarrow> (string \<Rightarrow> string option) \<Rightarrow> (nat, string) result" where
  "listeners_var E var =
     (case var ''HTTP_LISTENERS'' of
        Some value \<Rightarrow>
          (case parse_unsigned USIZE_MAX value of
             Some count \<Rightarrow>
               if 0 < count then Ok count
               else Err (''HTTP_LISTENERS is not a positive count: '' @ value)
           | None \<Rightarrow> Err (''HTTP_LISTENERS is not a positive count: '' @ value))
      | None \<Rightarrow> Ok (case available_parallelism E of Some count \<Rightarrow> count | None \<Rightarrow> 4))"

definition allowlist_var ::
  "host_env \<Rightarrow> 'n address_parsers \<Rightarrow> (string \<Rightarrow> string option) \<Rightarrow> ('n list option, string) result" where
  "allowlist_var E A var =
     (case var ''INBOUND_ALLOWLIST_FILE'' of
        Some path \<Rightarrow>
          and_then (map_err (\<lambda>e. ''INBOUND_ALLOWLIST_FILE '' @ path @ '': '' @ e) (read_to_string E path)) (\<lambda>file.
          and_then (parse_allowlist A file) (\<lambda>ns. Ok (Some ns)))
      | None \<Rightarrow> Ok None)"

definition client_ip_header_var ::
  "host_env \<Rightarrow> (string \<Rightarrow> string option) \<Rightarrow> 'n list option \<Rightarrow> (string option, string) result" where
  "client_ip_header_var E var networks =
     (case var ''CLIENT_IP_HEADER'' of
        Some name \<Rightarrow>
          if networks = None then Err ''CLIENT_IP_HEADER needs INBOUND_ALLOWLIST_FILE''
          else (case header_name E name of
                  Some header \<Rightarrow> Ok (Some header)
                | None \<Rightarrow> Err (''CLIENT_IP_HEADER is not a header name: '' @ name))
      | None \<Rightarrow> Ok None)"

definition https_addr_var ::
  "'n address_parsers \<Rightarrow> (string \<Rightarrow> string option) \<Rightarrow> (https_addr, string) result" where
  "https_addr_var A var =
     (case (var ''HTTPS_ADDR'', var ''HTTPS_SOCKET'') of
        (Some _, Some _) \<Rightarrow> Err ''set HTTPS_ADDR or HTTPS_SOCKET, not both''
      | (None, Some path) \<Rightarrow> Ok (HttpsUnix path)
      | (_, None) \<Rightarrow> and_then (addr_var A var ''HTTPS_ADDR'' ''0.0.0.0:8443'') (\<lambda>a. Ok (HttpsTcp a)))"

definition client_cert_var ::
  "string option \<Rightarrow> (string \<Rightarrow> string option) \<Rightarrow> (client_cert_mode option, string) result" where
  "client_cert_var client_ca var =
     (case (client_ca, var ''HTTPS_CLIENT_CERT_MODE'') of
        (None, None) \<Rightarrow> Ok None
      | (None, Some _) \<Rightarrow> Err ''HTTPS_CLIENT_CERT_MODE needs HTTPS_CLIENT_CA_FILE''
      | (Some _, None) \<Rightarrow> Ok (Some Require)
      | (Some _, Some mode) \<Rightarrow>
          if mode = ''require'' then Ok (Some Require)
          else if mode = ''log'' then Ok (Some Log)
          else Err (''HTTPS_CLIENT_CERT_MODE is require or log, not '' @ mode))"

definition tls_var ::
  "('c, 'k) rustls_ops \<Rightarrow> string option \<Rightarrow> (string \<Rightarrow> string option) \<Rightarrow> (('c, 'k) tls_server option, string) result" where
  "tls_var R client_ca var =
     (case (var ''HTTP_TLS_CERTIFICATE'', var ''HTTP_TLS_KEY'') of
        (None, None) \<Rightarrow>
          if client_ca \<noteq> None then Err ''HTTPS_CLIENT_CA_FILE needs HTTP_TLS_CERTIFICATE and HTTP_TLS_KEY''
          else Ok None
      | (Some certificate, Some key) \<Rightarrow> and_then (tls_config R certificate key client_ca) (\<lambda>t. Ok (Some t))
      | _ \<Rightarrow> Err ''set both HTTP_TLS_CERTIFICATE and HTTP_TLS_KEY, or neither'')"

definition internal_port_var :: "(string \<Rightarrow> string option) \<Rightarrow> (nat, string) result" where
  "internal_port_var var =
     (case var ''INTERNAL_PORT'' of
        Some value \<Rightarrow>
          (case parse_unsigned 65535 value of
             Some port \<Rightarrow> if 0 < port then Ok port else Err (''INTERNAL_PORT is not a port: '' @ value)
           | None \<Rightarrow> Err (''INTERNAL_PORT is not a port: '' @ value))
      | None \<Rightarrow> Ok DEFAULT_INTERNAL_PORT)"

definition from_vars ::
  "host_env \<Rightarrow> 'n address_parsers \<Rightarrow> ('c, 'k) rustls_ops \<Rightarrow> (string \<Rightarrow> string option)
   \<Rightarrow> (('n, 'c, 'k) ingress_config, string) result" where
  "from_vars E A R var =
     and_then (listeners_var E var) (\<lambda>listeners.
     and_then (allowlist_var E A var) (\<lambda>networks.
     and_then (client_ip_header_var E var networks) (\<lambda>header.
     and_then (https_addr_var A var) (\<lambda>https.
     let client_ca = var ''HTTPS_CLIENT_CA_FILE'' in
     and_then (client_cert_var client_ca var) (\<lambda>cert.
     and_then (tls_var R client_ca var) (\<lambda>tls.
     if (case https of HttpsUnix _ \<Rightarrow> True | _ \<Rightarrow> False) \<and> tls = None
     then Err ''HTTPS_SOCKET needs HTTP_TLS_CERTIFICATE and HTTP_TLS_KEY''
     else
     and_then (internal_port_var var) (\<lambda>port.
     and_then (addr_var A var ''HTTP_ADDR'' ''0.0.0.0:8081'') (\<lambda>http.
       Ok \<lparr> internal_port = port, http_addr = http, cfg_https_addr = https, cfg_listeners = listeners,
            dashboard_hosts = config_list (var ''DASHBOARD_HOSTS'')
              ''dash.openworkers.com,dash.openworkers.dev,dash.dev.localhost,dash.dev.kube'',
            api_worker = (case var ''API_WORKER_NAME'' of Some n \<Rightarrow> n | None \<Rightarrow> ''openworkers-api''),
            worker_domains = config_list (var ''WORKER_DOMAINS'') [],
            allowlist = networks, client_ip_header = header, cfg_tls = tls, client_cert = cert \<rparr>))))))))"

text \<open>\<open>from_env\<close> gives \<open>from_vars\<close> the variables that are set and not empty.\<close>

definition from_env ::
  "host_env \<Rightarrow> 'n address_parsers \<Rightarrow> ('c, 'k) rustls_ops \<Rightarrow> (string \<Rightarrow> string option)
   \<Rightarrow> (('n, 'c, 'k) ingress_config, string) result" where
  "from_env E A R env =
     from_vars E A R (\<lambda>name. case env name of Some v \<Rightarrow> if v = [] then None else Some v | None \<Rightarrow> None)"

section \<open>Properties\<close>

lemma ascii_lower_dot: "ascii_lower c = CHR ''.'' \<longleftrightarrow> c = CHR ''.''"
proof
  assume "ascii_lower c = CHR ''.''"
  then have "of_char (ascii_lower c) = (46 :: nat)" by simp
  then have "of_char c = (of_char (CHR ''.'') :: nat)" by (simp add: of_char_ascii_lower split: if_splits)
  then show "c = CHR ''.''" by (simp only: of_char_eq_iff)
qed (simp add: ascii_lower_def)

lemma ends_with_dot: "ends_with s ''.'' \<longleftrightarrow> s \<noteq> [] \<and> last s = CHR ''.''"
  by (cases s rule: rev_cases) (auto simp: ends_with_iff)

lemma trim_end_matches_stuck: "\<not> ends_with (trim_end_matches ''.'' s) ''.''"
  using strip_all_stuck [of "''.''" "[''.'']" "rev s"] by (simp add: ends_with_def trim_end_matches_def)

lemma config_list_items:
  assumes "item \<in> set (config_list value dflt)"
  shows "item \<noteq> []" and "to_ascii_lowercase item = item" and "\<not> ends_with item ''.''"
proof -
  obtain raw where raw: "item = to_ascii_lowercase (trim_end_matches ''.'' raw)" "item \<noteq> []"
    using assms by (auto simp: config_list_def)
  show "item \<noteq> []" "to_ascii_lowercase item = item" using raw by simp_all
  show "\<not> ends_with item ''.''"
    using raw trim_end_matches_stuck [of raw]
    by (simp add: ends_with_dot to_ascii_lowercase_def last_map ascii_lower_dot)
qed

lemma and_then_OkE: "and_then r f = Ok b \<Longrightarrow> (\<And>a. r = Ok a \<Longrightarrow> f a = Ok b \<Longrightarrow> P) \<Longrightarrow> P"
  by (cases r) auto

lemma if_Err_OkE: "(if b then Err e else r) = Ok x \<Longrightarrow> (\<not> b \<Longrightarrow> r = Ok x \<Longrightarrow> P) \<Longrightarrow> P"
  by (cases b) auto

lemma tls_config_roots:
  "tls_config R certificate key client_ca = Ok t \<Longrightarrow>
     (client_ca = None \<longrightarrow> ts_client_roots t = None)
   \<and> (client_ca \<noteq> None \<longrightarrow> (\<exists>roots. ts_client_roots t = Some roots \<and> roots \<noteq> []))"
  by (auto simp: tls_config_def client_verifier_def split: option.splits if_splits)


definition demo_parsers :: "string address_parsers" where
  "demo_parsers = \<lparr>
     parse_socket_addr = (\<lambda>s. Some \<lparr> sa_ip = V4 (Ipv4Addr 0 0 0 0), sa_port = 0 \<rparr>),
     parse_ip = (\<lambda>s. if s = ''10.0.0.1'' then Some (V4 (Ipv4Addr 10 0 0 1)) else None),
     parse_net = (\<lambda>s. None), net_of_ip = show_ip, net_contains = (\<lambda>n ip. n = show_ip ip) \<rparr>"

definition demo_host_env :: host_env where
  "demo_host_env = \<lparr> available_parallelism = Some 2, read_to_string = (\<lambda>path. Ok []),
     header_name = Some \<rparr>"

definition demo_rustls :: "(string, string) rustls_ops" where
  "demo_rustls = \<lparr> pem_certificates = (\<lambda>path. Ok [path]), pem_key = Ok, safe_versions = Ok (),
     root_add = (\<lambda>c. Ok ()), verifier_build = (\<lambda>roots. Ok ()), single_cert = (\<lambda>chain key. Ok ()) \<rparr>"

definition demo_vars :: "string \<Rightarrow> string option" where
  "demo_vars = map_of [(''INBOUND_ALLOWLIST_FILE'', ''/allow''), (''CLIENT_IP_HEADER'', ''x-client''),
     (''HTTPS_SOCKET'', ''/run/s''), (''HTTPS_CLIENT_CA_FILE'', ''/ca''), (''HTTP_TLS_CERTIFICATE'', ''/crt''),
     (''HTTP_TLS_KEY'', ''/key''), (''WORKER_DOMAINS'', ''Workers.dev.'')]"


end
