(* ===== verification/Log_Sink.thy ===== *)
theory Log_Sink
  imports Rust_Str "HOL-Library.Multiset"
begin

text \<open>
  \<open>src/log.rs\<close>: the sink of the console lines of all workers. Senders run on many threads: the loop
  that picks the date of a line is a compare-and-exchange on a shared counter, so a send is modelled
  one atomic operation at a time; the store takes lines out of its queue at any moment between them.
\<close>

section \<open>Data\<close>

datatype log_level = LError | LWarn | LInfo | LLog | LDebug | LTrace

record log_event =
  lv_level :: log_level
  lv_message :: string

record log_entry =
  le_date :: int
  le_worker_id :: string
  le_level :: log_level
  le_message :: string

fun level_name :: "log_level \<Rightarrow> string" where
  "level_name LError = ''error''"
| "level_name LWarn = ''warn''"
| "level_name LInfo = ''info''"
| "level_name LLog = ''log''"
| "level_name LDebug = ''debug''"
| "level_name LTrace = ''trace''"

definition STORE_CAPACITY :: nat where
  "STORE_CAPACITY = 10000"

text \<open>
  A sender is about to load the last date, holds the date it loaded and will try to exchange it, has
  its date and is about to send to the live streams, or is about to send to the store.
\<close>

datatype sender_pc =
    LoadDate
  | Exchange int
  | SendLive log_entry
  | SendStore log_entry
  | Sent log_entry

record sender =
  sn_worker_id :: string
  sn_event :: log_event
  sn_now :: int
  sn_pc :: sender_pc

text \<open>
  \<open>ls_receivers\<close> counts the live streams, and \<open>ls_published\<close> are the lines given to their broadcast
  channel; \<open>ls_taken\<close> are the lines the store has taken out of its queue, and \<open>ls_lost\<close> those the queue refused.
\<close>

record log_sink =
  ls_receivers :: nat
  ls_published :: "log_entry list"
  ls_queue :: "log_entry list"
  ls_open :: bool
  ls_dropped :: nat
  ls_last_date :: int
  ls_taken :: "log_entry list"
  ls_lost :: "log_entry list"
  ls_senders :: "sender list"

definition sink_new :: log_sink where
  "sink_new = \<lparr> ls_receivers = 0, ls_published = [], ls_queue = [], ls_open = True, ls_dropped = 0, ls_last_date = 0,
     ls_taken = [], ls_lost = [], ls_senders = [] \<rparr>"

section \<open>Sending a line\<close>

definition begin_send :: "string \<Rightarrow> log_event \<Rightarrow> int \<Rightarrow> log_sink \<Rightarrow> log_sink" where
  "begin_send worker_id event now s =
     s\<lparr> ls_senders := ls_senders s @ [\<lparr> sn_worker_id = worker_id, sn_event = event, sn_now = now, sn_pc = LoadDate \<rparr>] \<rparr>"

definition sender_at :: "nat \<Rightarrow> sender_pc \<Rightarrow> log_sink \<Rightarrow> log_sink" where
  "sender_at i pc s = s\<lparr> ls_senders := (ls_senders s)[i := (ls_senders s ! i)\<lparr> sn_pc := pc \<rparr>] \<rparr>"

text \<open>\<open>spurious\<close> is the failure \<open>compare_exchange_weak\<close> may have when the value is the expected one.\<close>

fun send_step :: "nat \<Rightarrow> bool \<Rightarrow> log_sink \<Rightarrow> log_sink option" where
  "send_step i spurious s =
     (let sn = ls_senders s ! i in
      case sn_pc sn of
        LoadDate \<Rightarrow> Some (sender_at i (Exchange (ls_last_date s)) s)
      | Exchange seen \<Rightarrow>
          let date = max (sn_now sn) (seen + 1) in
          if ls_last_date s = seen \<and> \<not> spurious
          then Some (sender_at i (SendLive \<lparr> le_date = date, le_worker_id = sn_worker_id sn,
                 le_level = lv_level (sn_event sn), le_message = lv_message (sn_event sn) \<rparr>)
                 (s\<lparr> ls_last_date := date \<rparr>))
          else Some (sender_at i (Exchange (ls_last_date s)) s)
      | SendLive entry \<Rightarrow>
          Some (sender_at i (SendStore entry)
            (if 0 < ls_receivers s then s\<lparr> ls_published := ls_published s @ [entry] \<rparr> else s))
      | SendStore entry \<Rightarrow>
          Some (sender_at i (Sent entry)
            (if \<not> ls_open s then s\<lparr> ls_lost := ls_lost s @ [entry] \<rparr>
             else if length (ls_queue s) < STORE_CAPACITY then s\<lparr> ls_queue := ls_queue s @ [entry] \<rparr>
             else s\<lparr> ls_dropped := ls_dropped s + 1, ls_lost := ls_lost s @ [entry] \<rparr>))
      | Sent _ \<Rightarrow> None)"

definition subscribe :: "log_sink \<Rightarrow> log_sink" where
  "subscribe s = s\<lparr> ls_receivers := ls_receivers s + 1 \<rparr>"

text \<open>The store takes up to \<open>n\<close> lines (\<open>recv_many\<close>), or closes its queue.\<close>

definition store_take :: "nat \<Rightarrow> log_sink \<Rightarrow> log_sink" where
  "store_take n s = s\<lparr> ls_taken := ls_taken s @ take n (ls_queue s), ls_queue := drop n (ls_queue s) \<rparr>"

datatype sink_event =
    BeginSend string log_event int
  | SenderStep nat bool
  | Subscribe
  | Unsubscribe
  | StoreTake nat
  | StoreClose
  | StoreSwapDropped

fun sink_step :: "log_sink \<Rightarrow> sink_event \<Rightarrow> log_sink option" where
  "sink_step s (BeginSend w e now) = Some (begin_send w e now s)"
| "sink_step s (SenderStep i spurious) = (if i < length (ls_senders s) then send_step i spurious s else None)"
| "sink_step s Subscribe = Some (subscribe s)"
| "sink_step s Unsubscribe = (if 0 < ls_receivers s then Some (s\<lparr> ls_receivers := ls_receivers s - 1 \<rparr>) else None)"
| "sink_step s (StoreTake n) = Some (store_take n s)"
| "sink_step s StoreClose = Some (s\<lparr> ls_open := False \<rparr>)"
| "sink_step s StoreSwapDropped = Some (s\<lparr> ls_dropped := 0 \<rparr>)"

section \<open>Invariant\<close>

fun dated :: "sender_pc \<Rightarrow> log_entry option" where
  "dated (SendLive e) = Some e"
| "dated (SendStore e) = Some e"
| "dated (Sent e) = Some e"
| "dated _ = None"

fun was_sent :: "sender_pc \<Rightarrow> log_entry multiset" where
  "was_sent (Sent e) = {# e #}"
| "was_sent _ = {#}"

definition sent_entries :: "log_sink \<Rightarrow> log_entry multiset" where
  "sent_entries s = sum_list (map (\<lambda>sn. was_sent (sn_pc sn)) (ls_senders s))"

definition dates_inv :: "log_sink \<Rightarrow> bool" where
  "dates_inv s \<longleftrightarrow>
     (\<forall>i < length (ls_senders s). \<forall>e. dated (sn_pc (ls_senders s ! i)) = Some e \<longrightarrow>
        le_date e \<le> ls_last_date s \<and> sn_now (ls_senders s ! i) \<le> le_date e
        \<and> (\<forall>j < length (ls_senders s). \<forall>f. i \<noteq> j \<longrightarrow> dated (sn_pc (ls_senders s ! j)) = Some f \<longrightarrow> le_date e \<noteq> le_date f))"

definition lines_inv :: "log_sink \<Rightarrow> bool" where
  "lines_inv s \<longleftrightarrow> sent_entries s = mset (ls_taken s @ ls_queue s @ ls_lost s)
     \<and> length (ls_queue s) \<le> STORE_CAPACITY \<and> ls_dropped s \<le> length (ls_lost s)"

definition sink_inv :: "log_sink \<Rightarrow> bool" where
  "sink_inv s \<longleftrightarrow> dates_inv s \<and> lines_inv s"

lemma sent_entries_same:
  assumes "i < length (ls_senders s)" "was_sent pc = was_sent (sn_pc (ls_senders s ! i))"
  shows "sent_entries (sender_at i pc s) = sent_entries s"
proof -
  have "map (\<lambda>sn. was_sent (sn_pc sn)) ((ls_senders s)[i := (ls_senders s ! i)\<lparr> sn_pc := pc \<rparr>])
      = map (\<lambda>sn. was_sent (sn_pc sn)) (ls_senders s)"
    using assms by (simp add: map_update list_update_same_conv)
  then show ?thesis by (simp add: sent_entries_def sender_at_def)
qed

lemma sum_list_update_empty:
  "i < length xs \<Longrightarrow> xs ! i = {#} \<Longrightarrow> sum_list (xs[i := m]) = sum_list xs + m"
proof (induction xs arbitrary: i)
  case (Cons x xs)
  then show ?case by (cases i) (simp_all add: union_assoc union_commute)
qed simp

lemma sent_entries_sent:
  assumes "i < length (ls_senders s)" "sn_pc (ls_senders s ! i) = SendStore e"
  shows "sent_entries (sender_at i (Sent e) s) = add_mset e (sent_entries s)"
  using assms sum_list_update_empty [of i "map (\<lambda>sn. was_sent (sn_pc sn)) (ls_senders s)" "{# e #}"]
  by (simp add: sent_entries_def sender_at_def map_update)

lemma dates_inv_same:
  assumes inv: "dates_inv s" and i: "i < length (ls_senders s)"
    and pc: "dated pc = dated (sn_pc (ls_senders s ! i))"
  shows "dates_inv (sender_at i pc s)"
proof -
  let ?upd = "(ls_senders s)[i := (ls_senders s ! i)\<lparr> sn_pc := pc \<rparr>]"
  have "dated (sn_pc (?upd ! j)) = dated (sn_pc (ls_senders s ! j))" "sn_now (?upd ! j) = sn_now (ls_senders s ! j)" for j
    using i pc by (cases "i = j"; simp)+
  then show ?thesis using inv by (simp add: dates_inv_def sender_at_def)
qed

lemma dates_inv_new:
  assumes inv: "dates_inv s" and i: "i < length (ls_senders s)" and pc: "sn_pc (ls_senders s ! i) = Exchange seen"
    and date: "ls_last_date s < le_date e" "sn_now (ls_senders s ! i) \<le> le_date e"
  shows "dates_inv (sender_at i (SendLive e) (s\<lparr> ls_last_date := le_date e \<rparr>))"
proof -
  have old: "le_date f < le_date e \<and> sn_now (ls_senders s ! j) \<le> le_date f"
    if "j < length (ls_senders s)" "dated (sn_pc (ls_senders s ! j)) = Some f" for j f
    using inv that date(1) unfolding dates_inv_def by fastforce
  show ?thesis
    using inv date unfolding dates_inv_def
    by (auto simp: sender_at_def nth_list_update [OF i] dest: old split: if_splits)
qed

lemma dates_inv_cong:
  "ls_senders t = ls_senders s \<Longrightarrow> ls_last_date t = ls_last_date s \<Longrightarrow> dates_inv t = dates_inv s"
  by (simp add: dates_inv_def)

lemma sink_inv_send:
  assumes inv: "sink_inv s" and i: "i < length (ls_senders s)" and step: "send_step i spurious s = Some s'"
  shows "sink_inv s'"
proof (cases "sn_pc (ls_senders s ! i)")
  case LoadDate
  then show ?thesis
    using inv i step dates_inv_same [of s i "Exchange (ls_last_date s)"] sent_entries_same [of i s "Exchange (ls_last_date s)"]
    by (auto simp: sink_inv_def lines_inv_def Let_def) (simp_all add: sender_at_def)
next
  case (Exchange seen)
  show ?thesis
  proof (cases "ls_last_date s = seen \<and> \<not> spurious")
    case True
    define e where "e = \<lparr> le_date = max (sn_now (ls_senders s ! i)) (seen + 1), le_worker_id = sn_worker_id (ls_senders s ! i),
      le_level = lv_level (sn_event (ls_senders s ! i)), le_message = lv_message (sn_event (ls_senders s ! i)) \<rparr>"
    have s': "s' = sender_at i (SendLive e) (s\<lparr> ls_last_date := le_date e \<rparr>)"
      using step Exchange True by (simp add: Let_def e_def)
    have "dates_inv s'"
      unfolding s' using inv i Exchange True by (intro dates_inv_new) (auto simp: sink_inv_def e_def)
    moreover have "sent_entries s' = sent_entries s"
      unfolding s' using sent_entries_same [of i "s\<lparr> ls_last_date := le_date e \<rparr>" "SendLive e"] i Exchange
      by (simp add: sent_entries_def)
    ultimately show ?thesis using inv by (simp add: sink_inv_def lines_inv_def s' sender_at_def)
  next
    case False
    then show ?thesis
      using inv i step Exchange dates_inv_same [of s i "Exchange (ls_last_date s)"]
        sent_entries_same [of i s "Exchange (ls_last_date s)"]
      by (auto simp: sink_inv_def lines_inv_def Let_def) (simp_all add: sender_at_def)
  qed
next
  case (SendLive e)
  define t where "t = (if 0 < ls_receivers s then s\<lparr> ls_published := ls_published s @ [e] \<rparr> else s)"
  have s': "s' = sender_at i (SendStore e) t" using step SendLive by (simp add: t_def Let_def)
  have t: "ls_senders t = ls_senders s" "ls_last_date t = ls_last_date s" "ls_queue t = ls_queue s"
    "ls_taken t = ls_taken s" "ls_lost t = ls_lost s" "ls_dropped t = ls_dropped s"
    by (simp_all add: t_def)
  have "dates_inv s'"
    unfolding s' using inv i SendLive by (intro dates_inv_same) (auto simp: sink_inv_def t dates_inv_cong [OF t(1,2)])
  moreover have "sent_entries s' = sent_entries s"
    unfolding s' using sent_entries_same [of i t "SendStore e"] i SendLive t(1) by (simp add: sent_entries_def)
  ultimately show ?thesis using inv t by (simp add: sink_inv_def lines_inv_def s' sender_at_def)
next
  case (SendStore e)
  define t where "t = (if \<not> ls_open s then s\<lparr> ls_lost := ls_lost s @ [e] \<rparr>
     else if length (ls_queue s) < STORE_CAPACITY then s\<lparr> ls_queue := ls_queue s @ [e] \<rparr>
     else s\<lparr> ls_dropped := ls_dropped s + 1, ls_lost := ls_lost s @ [e] \<rparr>)"
  have s': "s' = sender_at i (Sent e) t" using step SendStore by (simp add: t_def Let_def)
  have t: "ls_senders t = ls_senders s" "ls_last_date t = ls_last_date s" by (simp_all add: t_def)
  have "dates_inv s'"
    unfolding s' using inv i SendStore by (intro dates_inv_same) (auto simp: sink_inv_def t dates_inv_cong [OF t])
  moreover have "sent_entries s' = add_mset e (sent_entries s)"
    unfolding s' using sent_entries_sent [of i t e] i SendStore t(1) by (simp add: sent_entries_def)
  moreover have "mset (ls_taken t @ ls_queue t @ ls_lost t) = add_mset e (mset (ls_taken s @ ls_queue s @ ls_lost s))"
    "length (ls_queue t) \<le> STORE_CAPACITY" "ls_dropped t \<le> length (ls_lost t)"
    using inv by (auto simp: t_def sink_inv_def lines_inv_def)
  ultimately show ?thesis using inv by (simp add: sink_inv_def lines_inv_def s' sender_at_def)
next
  case (Sent e)
  then show ?thesis using step by (simp add: Let_def)
qed

lemma sink_inv_begin:
  assumes "sink_inv s"
  shows "sink_inv (begin_send w e now s)"
proof -
  let ?s = "begin_send w e now s"
  have old: "j < length (ls_senders s) \<and> ls_senders ?s ! j = ls_senders s ! j"
    if "j < length (ls_senders ?s)" "dated (sn_pc (ls_senders ?s ! j)) = Some f" for j f
    using that by (cases "j = length (ls_senders s)") (auto simp: begin_send_def nth_append)
  have inv: "dates_inv s" "lines_inv s" using assms by (simp_all add: sink_inv_def)
  have "ls_last_date ?s = ls_last_date s" by (simp add: begin_send_def)
  then have "dates_inv ?s" using inv(1) unfolding dates_inv_def by (metis old)
  then show ?thesis using inv(2) by (simp add: sink_inv_def lines_inv_def sent_entries_def begin_send_def)
qed

lemma sink_inv_cong:
  assumes "sink_inv s" "ls_senders t = ls_senders s" "ls_last_date t = ls_last_date s"
    "mset (ls_taken t @ ls_queue t @ ls_lost t) = mset (ls_taken s @ ls_queue s @ ls_lost s)"
    "length (ls_queue t) \<le> length (ls_queue s)" "ls_dropped t \<le> ls_dropped s" "ls_lost t = ls_lost s"
  shows "sink_inv t"
  using assms dates_inv_cong [OF assms(2,3)] by (simp add: sink_inv_def lines_inv_def sent_entries_def)

lemma sink_inv_step: "sink_inv s \<Longrightarrow> sink_step s e = Some s' \<Longrightarrow> sink_inv s'"
proof (cases e)
  case (StoreTake n)
  moreover assume "sink_inv s" "sink_step s e = Some s'"
  moreover have "mset (take n (ls_queue s)) + mset (drop n (ls_queue s)) = mset (ls_queue s)"
    by (metis append_take_drop_id mset_append)
  ultimately show ?thesis by (auto simp: store_take_def intro!: sink_inv_cong [of s] simp flip: union_assoc)
qed (auto simp: subscribe_def sink_inv_begin sink_inv_send simp del: send_step.simps split: if_splits intro: sink_inv_cong [of s])

interpretation sink_runs: step_invariant sink_step "\<lambda>s. s = sink_new" sink_inv
  by unfold_locales (auto simp: sink_inv_step, simp add: sink_inv_def dates_inv_def lines_inv_def sent_entries_def sink_new_def)

section \<open>Properties\<close>

text \<open>
  C33. However the senders interleave, no two lines get the same date and none gets a date before the
  moment its sender read the clock, so the history, which sorts by date, has one order.
\<close>

theorem log_dates_distinct:
  assumes "runs sink_step sink_new es = Some s"
    and "i < length (ls_senders s)" "j < length (ls_senders s)" "i \<noteq> j"
    and "dated (sn_pc (ls_senders s ! i)) = Some e" "dated (sn_pc (ls_senders s ! j)) = Some f"
  shows "le_date e \<noteq> le_date f \<and> sn_now (ls_senders s ! i) \<le> le_date e"
  using sink_runs.runs_inv [OF refl assms(1)] assms(2-6) by (simp add: sink_inv_def dates_inv_def)

definition demo_line :: log_event where
  "demo_line = \<lparr> lv_level = LLog, lv_message = ''hello'' \<rparr>"

definition demo_sink_events :: "sink_event list" where
  "demo_sink_events = [BeginSend ''w'' demo_line 5, BeginSend ''v'' demo_line 5, SenderStep 0 False, SenderStep 1 False,
     SenderStep 0 False, SenderStep 1 False, SenderStep 1 False, SenderStep 0 False, SenderStep 1 False, SenderStep 1 False]"

theorem log_dates_distinct_witness:
  "\<exists>s e f. runs sink_step sink_new demo_sink_events = Some s \<and> dated (sn_pc (ls_senders s ! 0)) = Some e
     \<and> dated (sn_pc (ls_senders s ! 1)) = Some f \<and> le_date e \<noteq> le_date f"
proof -
  obtain s where s: "runs sink_step sink_new demo_sink_events = Some s"
    and len: "length (ls_senders s) = 2" and d0: "\<exists>e. dated (sn_pc (ls_senders s ! 0)) = Some e"
    and d1: "\<exists>f. dated (sn_pc (ls_senders s ! 1)) = Some f"
    by (simp add: demo_sink_events_def sink_new_def begin_send_def sender_at_def Let_def STORE_CAPACITY_def)
  show ?thesis using s d0 d1 log_dates_distinct [OF s, of 0 1] len by auto
qed



end
