(* ===== verification/Headers.thy ===== *)
theory Headers
  imports Rust_Str
begin

text \<open>
  The header map of the \<open>http\<close> crate, which every request and response of the runner carries. The crate
  is not part of the repository: its operations are the fields of a record, with the laws its
  documentation gives in a locale, and a list of names and values instantiates them. Names are in
  lower case, as the crate keeps them; a value is its bytes.
\<close>

record 'h header_ops =
  hm_empty :: 'h
  hm_get_all :: "'h \<Rightarrow> string \<Rightarrow> string list"
  hm_insert :: "'h \<Rightarrow> string \<Rightarrow> string \<Rightarrow> 'h"
  hm_append :: "'h \<Rightarrow> string \<Rightarrow> string \<Rightarrow> 'h"
  hm_remove :: "'h \<Rightarrow> string \<Rightarrow> 'h"
  hm_entries :: "'h \<Rightarrow> (string \<times> string) list"
  hv_from_str :: "string \<Rightarrow> string option"
  hv_to_str :: "string \<Rightarrow> string option"

definition hm_get :: "'h header_ops \<Rightarrow> 'h \<Rightarrow> string \<Rightarrow> string option" where
  "hm_get H h n = (case hm_get_all H h n of [] \<Rightarrow> None | v # _ \<Rightarrow> Some v)"

text \<open>The value of a header that is a string.\<close>

definition hm_get_str :: "'h header_ops \<Rightarrow> 'h \<Rightarrow> string \<Rightarrow> string option" where
  "hm_get_str H h n = (case hm_get H h n of None \<Rightarrow> None | Some v \<Rightarrow> hv_to_str H v)"

locale header_map =
  fixes H :: "'h header_ops"
  assumes get_all_empty: "hm_get_all H (hm_empty H) m = []"
    and get_all_insert: "hm_get_all H (hm_insert H h n v) m = (if m = n then [v] else hm_get_all H h m)"
    and get_all_append: "hm_get_all H (hm_append H h n v) m = hm_get_all H h m @ (if m = n then [v] else [])"
    and get_all_remove: "hm_get_all H (hm_remove H h n) m = (if m = n then [] else hm_get_all H h m)"
    and get_all_entries: "hm_get_all H h n = map snd (filter (\<lambda>e. fst e = n) (hm_entries H h))"
    and from_str_same: "hv_from_str H s = Some v \<Longrightarrow> v = s"
    and to_str_same: "hv_to_str H v = Some s \<Longrightarrow> s = v"
begin

lemma get_insert: "hm_get H (hm_insert H h n v) m = (if m = n then Some v else hm_get H h m)"
  by (simp add: hm_get_def get_all_insert)

lemma get_remove: "hm_get H (hm_remove H h n) m = (if m = n then None else hm_get H h m)"
  by (simp add: hm_get_def get_all_remove)

lemma get_remove_all:
  "hm_get H (foldl (hm_remove H) h ns) m = (if m \<in> set ns then None else hm_get H h m)"
  by (induction ns arbitrary: h) (auto simp: get_remove)

lemmas get_simps = get_insert get_remove get_remove_all

end

text \<open>A header map as a list of names and values; a value of visible bytes is a string.\<close>

definition visible :: "char \<Rightarrow> bool" where
  "visible c \<longleftrightarrow> (32 \<le> (of_char c :: nat) \<and> (of_char c :: nat) < 127) \<or> (of_char c :: nat) = 9"

definition list_headers :: "(string \<times> string) list header_ops" where
  "list_headers = \<lparr>
     hm_empty = [],
     hm_get_all = (\<lambda>h n. map snd (filter (\<lambda>e. fst e = n) h)),
     hm_insert = (\<lambda>h n v. filter (\<lambda>e. fst e \<noteq> n) h @ [(n, v)]),
     hm_append = (\<lambda>h n v. h @ [(n, v)]),
     hm_remove = (\<lambda>h n. filter (\<lambda>e. fst e \<noteq> n) h),
     hm_entries = id,
     hv_from_str = (\<lambda>s. if list_all visible s then Some s else None),
     hv_to_str = (\<lambda>v. if list_all visible v then Some v else None) \<rparr>"

lemma filter_other_key: "filter (\<lambda>e. fst e = m) (filter (\<lambda>e. fst e \<noteq> n) h) = (if m = n then [] else filter (\<lambda>e. fst e = m) h)"
  by (induction h) auto

interpretation listed: header_map list_headers
  by unfold_locales (auto simp: list_headers_def filter_other_key simp del: filter_filter split: if_splits)

section \<open>Requests and responses\<close>

text \<open>
  A URI has an authority in the absolute form of HTTP/2 and proxies, and a path with an optional
  query. \<open>rq_body_limit\<close> is the \<open>BodyLimit\<close> extension of the request.
\<close>

record uri =
  u_authority :: "string option"
  u_target :: "(string \<times> string option) option"

definition uri_path :: "uri \<Rightarrow> string" where
  "uri_path u = (case u_target u of Some (path, _) \<Rightarrow> path | None \<Rightarrow> [])"

record 'h http_request =
  rq_method :: string
  rq_uri :: uri
  rq_headers :: 'h
  rq_body_limit :: "nat option"

record ('h, 'b) http_response =
  rs_status :: nat
  rs_headers :: 'h
  rs_body :: 'b

end
