(* ===== verification/Logs.thy ===== *)
theory Logs
  imports Log_Sink Headers
begin

text \<open>
  \<open>src/logs.rs\<close>: the log streams of the dashboard. The API worker that authorizes a client, the logs
  table, the JSON of a line, Base64 and the accept key of a WebSocket are arguments; a stream is a
  function from the events its loop selects to the messages it sends.
\<close>

section \<open>Routes and handshakes\<close>

datatype log_stream = Sse | WebSocket

definition logs_route :: "(string \<Rightarrow> 'u option) \<Rightarrow> string \<Rightarrow> ('u \<times> log_stream) option" where
  "logs_route parse_uuid path =
     (case strip_prefix_str path ''/api/v1/workers/'' of
        None \<Rightarrow> None
      | Some rest \<Rightarrow>
          (case split_once_char (CHR ''/'') rest of
             None \<Rightarrow> None
           | Some (ident, endpoint) \<Rightarrow>
               (case (if endpoint = ''logs'' then Some Sse
                      else if endpoint = ''ws-logs'' then Some WebSocket else None) of
                  None \<Rightarrow> None
                | Some stream \<Rightarrow> map_option (\<lambda>u. (u, stream)) (parse_uuid ident))))"

definition same_origin :: "'h header_ops \<Rightarrow> 'h \<Rightarrow> bool" where
  "same_origin H h =
     (case hm_get H h ''origin'' of
        None \<Rightarrow> True
      | Some origin \<Rightarrow>
          let host = hm_get_str H h ''host'';
              scheme = (case hm_get_str H h ''x-forwarded-proto'' of Some p \<Rightarrow> p | None \<Rightarrow> ''http'')
          in case (hv_to_str H origin, host) of
               (Some origin, Some host) \<Rightarrow> eq_ignore_ascii_case origin (scheme @ ''://'' @ host)
             | _ \<Rightarrow> False)"

definition has_token :: "'h header_ops \<Rightarrow> 'h \<Rightarrow> string \<Rightarrow> string \<Rightarrow> bool" where
  "has_token H h name token =
     list_ex (\<lambda>value. eq_ignore_ascii_case (trim_str value) token)
       (concat (map (split_char (CHR '','')) (List.map_filter (hv_to_str H) (hm_get_all H h name))))"

definition websocket_accept ::
  "'h header_ops \<Rightarrow> (string \<Rightarrow> u8 list option) \<Rightarrow> (string \<Rightarrow> string) \<Rightarrow> 'h \<Rightarrow> (string, string) result" where
  "websocket_accept H base64 accept_key h =
     (if \<not> has_token H h ''upgrade'' ''websocket'' \<or> \<not> has_token H h ''connection'' ''upgrade''
      then Err ''Invalid WebSocket upgrade''
      else if hm_get H h ''sec-websocket-version'' \<noteq> Some ''13'' then Err ''Unsupported WebSocket version''
      else case hm_get H h ''sec-websocket-key'' of
          None \<Rightarrow> Err ''Missing WebSocket key''
        | Some key \<Rightarrow>
            if \<not> (case base64 key of Some k \<Rightarrow> length k = 16 | None \<Rightarrow> False) then Err ''Invalid WebSocket key''
            else Ok (accept_key key))"

section \<open>Authorization\<close>

definition INTERNAL_ROUTE_HEADER :: string where
  "INTERNAL_ROUTE_HEADER = ''x-openworkers-internal''"

text \<open>The request to the API worker: its URL and its headers.\<close>

definition authorize_request ::
  "'h header_ops \<Rightarrow> string \<Rightarrow> string \<Rightarrow> string \<Rightarrow> 'h \<Rightarrow> string \<Rightarrow> string \<times> (string \<times> string) list" where
  "authorize_request H runner_url api_worker request_id h worker_id =
     (runner_url @ ''/api/v1/workers/'' @ worker_id,
      [(''x-worker-name'', api_worker), (INTERNAL_ROUTE_HEADER, ''1''), (''x-request-id'', request_id)] @
      List.map_filter (\<lambda>name. map_option (Pair name) (hm_get H h name))
        [''authorization'', ''cookie'', ''host'', ''x-forwarded-proto''])"

text \<open>\<open>send\<close> answers with a status and headers, or fails.\<close>

definition authorize ::
  "'h header_ops \<Rightarrow> (string \<times> (string \<times> string) list \<Rightarrow> (nat \<times> 'h) option)
   \<Rightarrow> string \<times> (string \<times> string) list \<Rightarrow> (string list, nat \<times> string) result" where
  "authorize H send check =
     (case send check of
        None \<Rightarrow> Err (503, ''Log authorization unavailable'')
      | Some (status, answer) \<Rightarrow>
          if 200 \<le> status \<and> status \<le> 299 then Ok (hm_get_all H answer ''set-cookie'')
          else if status = 401 then Err (401, ''Unauthorized'')
          else if status = 403 \<or> status = 404 then Err (404, ''Not found'')
          else Err (503, ''Log authorization unavailable''))"

section \<open>The history and the store\<close>

definition STORE_BATCH :: nat where
  "STORE_BATCH = 500"

definition HISTORY_LINES :: nat where
  "HISTORY_LINES = 10"

text \<open>The columns of the lines whose worker id is a UUID, and the insert of them.\<close>

definition insert_columns ::
  "(string \<Rightarrow> 'u option) \<Rightarrow> log_entry list \<Rightarrow> int list \<times> 'u list \<times> string list \<times> string list" where
  "insert_columns parse_uuid ls =
     foldl (\<lambda>(dates, workers, messages, levels) line.
        case parse_uuid (le_worker_id line) of
          None \<Rightarrow> (dates, workers, messages, levels)
        | Some worker_id \<Rightarrow>
            (dates @ [le_date line], workers @ [worker_id], messages @ [le_message line],
             levels @ [level_name (le_level line)])) ([], [], [], []) ls"

definition insert_lines ::
  "(string \<Rightarrow> 'u option) \<Rightarrow> (int list \<times> 'u list \<times> string list \<times> string list \<Rightarrow> 'd \<Rightarrow> ('d, string) result)
   \<Rightarrow> log_entry list \<Rightarrow> 'd \<Rightarrow> ('d, string) result" where
  "insert_lines parse_uuid execute ls db =
     (let (dates, workers, messages, levels) = insert_columns parse_uuid ls in
      if workers = [] then Ok db else execute (dates, workers, messages, levels) db)"

text \<open>The rows of the query come newest first.\<close>

definition log_history ::
  "(string \<Rightarrow> log_level option) \<Rightarrow> string \<Rightarrow> ((int \<times> string \<times> string) list, string) result
   \<Rightarrow> (log_entry list, string) result" where
  "log_history parse_level worker_id rows =
     and_then rows (\<lambda>rows. Ok (map (\<lambda>(date, level, message).
       \<lparr> le_date = date, le_worker_id = worker_id,
         le_level = (case parse_level level of Some l \<Rightarrow> l | None \<Rightarrow> LInfo), le_message = message \<rparr>) (rev rows)))"

section \<open>Streams\<close>

text \<open>What a live stream's \<open>select!\<close> receives: the runner stops, a line, or an error of the channel.\<close>

datatype live_event = Stopped | Line log_entry | Lagged

fun follow_next :: "string \<Rightarrow> live_event list \<Rightarrow> log_entry option \<times> live_event list" where
  "follow_next worker_id [] = (None, [])"
| "follow_next worker_id (Stopped # rest) = (None, rest)"
| "follow_next worker_id (Lagged # rest) = (None, rest)"
| "follow_next worker_id (Line entry # rest) =
     (if le_worker_id entry = worker_id then (Some entry, rest) else follow_next worker_id rest)"

definition sse_event :: "(log_entry \<Rightarrow> string) \<Rightarrow> nat \<Rightarrow> log_entry \<Rightarrow> string" where
  "sse_event json i entry =
     ''event: log'' @ [newline] @ ''id: '' @ show_nat i @ [newline] @ ''data: '' @ json entry @ [newline, newline]"

definition keepalive :: string where
  "keepalive = '': keepalive'' @ [newline, newline]"

text \<open>
  The loop of an SSE stream on the outcomes of its \<open>select!\<close>; the sends of the channel to the client
  succeed until \<open>sends\<close> of them are done.
\<close>

datatype sse_select = ClientGone | Tick | Next "log_entry option"

fun sse_history :: "(log_entry \<Rightarrow> string) \<Rightarrow> nat \<Rightarrow> nat \<Rightarrow> log_entry list \<Rightarrow> string list \<times> (nat \<times> nat) option" where
  "sse_history json sends i [] = ([], Some (sends, i))"
| "sse_history json sends i (entry # rest) =
     (if sends = 0 then ([], None)
      else let (out, rest_of) = sse_history json (sends - 1) (i + 1) rest in (sse_event json i entry # out, rest_of))"

fun sse_loop :: "(log_entry \<Rightarrow> string) \<Rightarrow> nat \<Rightarrow> nat \<Rightarrow> sse_select list \<Rightarrow> string list" where
  "sse_loop json sends i [] = []"
| "sse_loop json sends i (ClientGone # rest) = []"
| "sse_loop json sends i (Tick # rest) = (if sends = 0 then [] else keepalive # sse_loop json (sends - 1) i rest)"
| "sse_loop json sends i (Next None # rest) = []"
| "sse_loop json sends i (Next (Some entry) # rest) =
     (let i' = i + 1 in if sends = 0 then [] else sse_event json (i' - 1) entry # sse_loop json (sends - 1) i' rest)"

definition sse :: "(log_entry \<Rightarrow> string) \<Rightarrow> nat \<Rightarrow> log_entry list \<Rightarrow> sse_select list \<Rightarrow> string list" where
  "sse json sends history selects =
     (case sse_history json sends 0 history of
        (out, None) \<Rightarrow> out
      | (out, Some (left, i)) \<Rightarrow> out @ sse_loop json left i selects)"

text \<open>The WebSocket stream: lines as text messages, pings, and answers to the pings of the client.\<close>

datatype ws_message = WsText string | WsBinary string | WsPing string | WsPong string | WsClose

datatype ws_select = PingTick | WsNext "log_entry option" | WsReceived "ws_message option"

fun log_ws_loop :: "(log_entry \<Rightarrow> string) \<Rightarrow> nat \<Rightarrow> ws_select list \<Rightarrow> ws_message list" where
  "log_ws_loop json sends [] = []"
| "log_ws_loop json sends (PingTick # rest) = (if sends = 0 then [] else WsPing [] # log_ws_loop json (sends - 1) rest)"
| "log_ws_loop json sends (WsNext None # rest) = [WsClose]"
| "log_ws_loop json sends (WsNext (Some entry) # rest) =
     (if sends = 0 then [] else WsText (json entry) # log_ws_loop json (sends - 1) rest)"
| "log_ws_loop json sends (WsReceived (Some (WsPing payload)) # rest) =
     (if sends = 0 then [] else WsPong payload # log_ws_loop json (sends - 1) rest)"
| "log_ws_loop json sends (WsReceived (Some WsClose) # rest) = [WsClose]"
| "log_ws_loop json sends (WsReceived None # rest) = [WsClose]"
| "log_ws_loop json sends (WsReceived (Some _) # rest) = log_ws_loop json sends rest"

fun log_ws :: "(log_entry \<Rightarrow> string) \<Rightarrow> nat \<Rightarrow> log_entry list \<Rightarrow> ws_select list \<Rightarrow> ws_message list" where
  "log_ws json sends [] selects = log_ws_loop json sends selects"
| "log_ws json sends (entry # history) selects =
     (if sends = 0 then [] else WsText (json entry) # log_ws json (sends - 1) history selects)"

section \<open>Serving a stream\<close>

datatype log_body = LogText string | LogSse "log_entry list" | LogWebSocket "log_entry list"

definition log_text :: "'h header_ops \<Rightarrow> nat \<Rightarrow> string \<Rightarrow> ('h, log_body) http_response" where
  "log_text H status body =
     \<lparr> rs_status = status, rs_headers = hm_insert H (hm_empty H) ''content-type'' ''text/plain'', rs_body = LogText body \<rparr>"

definition log_response :: "'h header_ops \<Rightarrow> string option \<Rightarrow> log_entry list \<Rightarrow> ('h, log_body) http_response" where
  "log_response H key history =
     (case key of
        None \<Rightarrow> \<lparr> rs_status = 200,
          rs_headers = hm_insert H (hm_insert H (hm_empty H) ''content-type'' ''text/event-stream'') ''cache-control'' ''no-cache'',
          rs_body = LogSse history \<rparr>
      | Some accept \<Rightarrow> \<lparr> rs_status = 101,
          rs_headers = hm_insert H (hm_insert H (hm_insert H (hm_empty H) ''upgrade'' ''websocket'') ''connection'' ''Upgrade'')
            ''sec-websocket-accept'' accept,
          rs_body = LogWebSocket history \<rparr>)"

definition log_websocket_key ::
  "'h header_ops \<Rightarrow> (string \<Rightarrow> u8 list option) \<Rightarrow> (string \<Rightarrow> string) \<Rightarrow> 'h \<Rightarrow> log_stream \<Rightarrow> (string option, nat \<times> string) result" where
  "log_websocket_key H base64 accept_key h stream =
     (case stream of
        Sse \<Rightarrow> Ok None
      | WebSocket \<Rightarrow>
          if \<not> same_origin H h then Err (403, ''Invalid WebSocket origin'')
          else case websocket_accept H base64 accept_key h of
              Ok accept \<Rightarrow> Ok (Some accept)
            | Err reason \<Rightarrow> Err (400, reason))"

definition logs_serve ::
  "'h header_ops \<Rightarrow> (string \<Rightarrow> u8 list option) \<Rightarrow> (string \<Rightarrow> string)
   \<Rightarrow> (string \<times> (string \<times> string) list \<Rightarrow> (nat \<times> 'h) option) \<Rightarrow> (log_entry list, string) result
   \<Rightarrow> string \<Rightarrow> string \<Rightarrow> string \<Rightarrow> 'h http_request \<Rightarrow> string \<Rightarrow> log_stream \<Rightarrow> ('h, log_body) http_response" where
  "logs_serve H base64 accept_key send history runner_url api_worker request_id req worker_id stream =
     (if rq_method req \<noteq> ''GET'' then log_text H 405 ''GET required''
      else case log_websocket_key H base64 accept_key (rq_headers req) stream of
          Err (status, reason) \<Rightarrow> log_text H status reason
        | Ok key \<Rightarrow>
            (case authorize H send (authorize_request H runner_url api_worker request_id (rq_headers req) worker_id) of
               Err (status, reason) \<Rightarrow> log_text H status reason
             | Ok cookies \<Rightarrow>
                 (case history of
                    Err error \<Rightarrow> log_text H 503 ''Log history unavailable''
                  | Ok entries \<Rightarrow>
                      let response = log_response H key entries in
                      response\<lparr> rs_headers := foldl (\<lambda>h cookie. hm_append H h ''set-cookie'' cookie) (rs_headers response) cookies \<rparr>)))"

section \<open>Properties\<close>

lemma sse_event_not_keepalive [simp]: "sse_event json i entry \<noteq> keepalive"
  by (simp add: sse_event_def keepalive_def)

fun selected_lines :: "sse_select list \<Rightarrow> log_entry list" where
  "selected_lines [] = []"
| "selected_lines (Tick # rest) = selected_lines rest"
| "selected_lines (Next (Some entry) # rest) = entry # selected_lines rest"
| "selected_lines _ = []"

definition numbered :: "(log_entry \<Rightarrow> string) \<Rightarrow> nat \<Rightarrow> log_entry list \<Rightarrow> string list" where
  "numbered json i entries = map (\<lambda>(j, entry). sse_event json j entry) (zip [i..<i + length entries] entries)"

lemma numbered_Nil [simp]: "numbered json i [] = []"
  by (simp add: numbered_def)

lemma numbered_Cons [simp]: "numbered json i (e # es) = sse_event json i e # numbered json (Suc i) es"
  by (simp add: numbered_def upt_conv_Cons del: upt_Suc)

lemma numbered_append: "numbered json i (es @ fs) = numbered json i es @ numbered json (i + length es) fs"
  by (induction es arbitrary: i) simp_all

lemma sse_loop_numbered:
  "prefix (filter (\<lambda>m. m \<noteq> keepalive) (sse_loop json sends i selects)) (numbered json i (selected_lines selects))"
  by (induction json sends i selects rule: sse_loop.induct) (simp_all add: Let_def)

lemma sse_history_numbered:
  assumes "sse_history json sends i history = (out, rest_of)"
  shows "filter (\<lambda>m. m \<noteq> keepalive) out = out"
    and "prefix out (numbered json i history)"
    and "rest_of = Some (left, j) \<Longrightarrow> out = numbered json i history \<and> j = i + length history \<and> left + length history = sends"
  using assms
  by (induction json sends i history arbitrary: out rest_of rule: sse_history.induct)
     (auto simp: Let_def split: if_splits prod.splits)

text \<open>
  An SSE stream gives the client the history and then the live lines in order, each once, numbered
  from zero without a gap; keepalives apart, what it sent is always a beginning of that sequence, also
  when a send fails or the client leaves.
\<close>

lemma sse_in_order:
  "prefix (filter (\<lambda>m. m \<noteq> keepalive) (sse json sends history selects))
     (numbered json 0 (history @ selected_lines selects))"
proof (cases "sse_history json sends 0 history")
  case (Pair out rest_of)
  show ?thesis
  proof (cases rest_of)
    case None
    then show ?thesis
      using sse_history_numbered(1,2) [OF Pair] Pair by (simp add: sse_def numbered_append prefix_prefix)
  next
    case (Some p)
    then obtain left j where "rest_of = Some (left, j)" by (cases p) auto
    then show ?thesis
      using sse_history_numbered(1) [OF Pair] sse_history_numbered(3) [OF Pair, of left j] Pair
        sse_loop_numbered [of json left j selects]
      by (simp add: sse_def numbered_append)
  qed
qed

lemma logs_serve_stream:
  assumes "rs_body (logs_serve H base64 accept_key send history runner_url api_worker request_id req worker_id stream) \<in> {LogSse entries, LogWebSocket entries}"
  obtains key cookies where "rq_method req = ''GET''"
    and "log_websocket_key H base64 accept_key (rq_headers req) stream = Ok key"
    and "authorize H send (authorize_request H runner_url api_worker request_id (rq_headers req) worker_id) = Ok cookies"
    and "history = Ok entries"
    and "rs_body (logs_serve H base64 accept_key send history runner_url api_worker request_id req worker_id stream)
      = rs_body (log_response H key entries)"
proof -
  have "rs_body (log_response H key es) = (case key of None \<Rightarrow> LogSse es | Some _ \<Rightarrow> LogWebSocket es)" for key es
    by (simp add: log_response_def split: option.splits)
  then show ?thesis
    using assms that unfolding logs_serve_def
    by (auto simp: log_text_def Let_def split: if_splits result.splits option.splits)
qed

lemma log_websocket_key_Ok:
  assumes "log_websocket_key H base64 accept_key h stream = Ok key"
  shows "(key \<noteq> None \<longleftrightarrow> stream = WebSocket) \<and> (stream = WebSocket \<longrightarrow> same_origin H h
    \<and> hm_get H h ''sec-websocket-version'' = Some ''13'' \<and> has_token H h ''upgrade'' ''websocket'')"
  using assms
  by (cases stream) (auto simp: log_websocket_key_def websocket_accept_def split: if_splits result.splits option.splits)

lemma authorize_Ok:
  assumes "authorize H send check = Ok cookies"
  obtains status answer where "200 \<le> status" "status \<le> 299" "send check = Some (status, answer)"
  using assms that by (auto simp: authorize_def split: if_splits option.splits)


definition demo_log_request :: "(string \<times> string) list http_request" where
  "demo_log_request = \<lparr> rq_method = ''GET'', rq_uri = \<lparr> u_authority = None, u_target = Some (''/'', None) \<rparr>,
     rq_headers = [(''cookie'', ''session'')], rq_body_limit = None \<rparr>"


end
