(* ===== verification/Request_Body.thy ===== *)
theory Request_Body
  imports Headers
begin

text \<open>
  \<open>src/request_body.rs\<close>: the size limit of a request body. The limited collection of a body is done by
  \<open>http_body_util\<close>, so its outcome is an argument.
\<close>

definition DEFAULT_MAX_REQUEST_BODY_BYTES :: nat where
  "DEFAULT_MAX_REQUEST_BODY_BYTES = 10 * 1024 * 1024"

definition UPLOAD_MAX_BODY_BYTES :: nat where
  "UPLOAD_MAX_BODY_BYTES = 30 * 1024 * 1024"

definition limit_from :: "string option \<Rightarrow> (nat, string) result" where
  "limit_from value =
     (case value of
        None \<Rightarrow> Ok DEFAULT_MAX_REQUEST_BODY_BYTES
      | Some v \<Rightarrow>
          (let refused = Err (''MAX_REQUEST_BODY_BYTES is not a count of bytes above 0: '' @ [CHR 0x27] @ v @ [CHR 0x27]) in
           case parse_unsigned USIZE_MAX (trim_str v) of
             Some limit \<Rightarrow> if 0 < limit then Ok limit else refused
           | None \<Rightarrow> refused))"

datatype body_error = TooLarge | ReadError string

definition announces_more_than :: "'h header_ops \<Rightarrow> 'h \<Rightarrow> nat \<Rightarrow> bool" where
  "announces_more_than H h limit =
     (case hm_get_str H h ''content-length'' of
        None \<Rightarrow> False
      | Some value \<Rightarrow>
          (case parse_unsigned (2 ^ 64 - 1) value of None \<Rightarrow> False | Some n \<Rightarrow> limit < n))"

datatype collect_error = LengthLimitError | OtherError string

definition body_read ::
  "('b \<Rightarrow> nat \<Rightarrow> (u8 list, collect_error) result) \<Rightarrow> 'b \<Rightarrow> nat \<Rightarrow> (u8 list, body_error) result" where
  "body_read collect body limit =
     (case collect body limit of
        Ok collected \<Rightarrow> Ok collected
      | Err LengthLimitError \<Rightarrow> Err TooLarge
      | Err (OtherError e) \<Rightarrow> Err (ReadError e))"

section \<open>The contract of the limited collection\<close>

text \<open>A body is the chunks that arrive and the error that ends it, if any.\<close>

type_synonym body_stream = "u8 list list \<times> string option"

definition collect_limited :: "body_stream \<Rightarrow> nat \<Rightarrow> (u8 list, collect_error) result" where
  "collect_limited body limit =
     (if limit < length (concat (fst body)) then Err LengthLimitError
      else case snd body of Some e \<Rightarrow> Err (OtherError e) | None \<Rightarrow> Ok (concat (fst body)))"

locale limited_body =
  fixes collect :: "'b \<Rightarrow> nat \<Rightarrow> (u8 list, collect_error) result"
    and bytes_of :: "'b \<Rightarrow> u8 list"
  assumes collect_whole: "collect body limit = Ok data \<Longrightarrow> data = bytes_of body \<and> length data \<le> limit"
    and collect_over: "limit < length (bytes_of body) \<Longrightarrow> collect body limit = Err LengthLimitError"

interpretation streamed: limited_body collect_limited "\<lambda>body. concat (fst body)"
  by unfold_locales (auto simp: collect_limited_def split: if_splits option.splits)

end
