(* ===== verification/Ingress.thy ===== *)
theory Ingress
  imports Ingress_Config Logs Request_Body
begin

text \<open>
  \<open>src/ingress.rs\<close>, what a public request may ask for: the headers only the runner sets, the client an
  allowlisted proxy names, the worker a host names, and the paths only a scanner asks for. The URI
  authority, UUIDs and percent-decoding come from crates and are arguments.
\<close>

section \<open>Data\<close>

definition RUNNER_HEADERS :: "string list" where
  "RUNNER_HEADERS =
     [''x-worker-id'', ''x-worker-name'', ''x-openworkers-internal'', ''x-openworkers-depth'', ''x-request-id'',
      ''forwarded'', ''x-forwarded-for'', ''x-forwarded-host'', ''x-forwarded-port'', ''x-forwarded-proto'',
      ''x-real-ip'', ''cf-connecting-ip'']"

datatype 'u route = RWorker | RLogs 'u log_stream | RLatency | RProbe | RBadHost

record 'u ingress_env =
  authority_host :: "string \<Rightarrow> string option"
  parse_uuid :: "string \<Rightarrow> 'u option"
  percent_decode_lossy :: "string \<Rightarrow> string"

record forwarded =
  fw_client :: "ip_addr option"
  fw_https :: "bool option"

definition no_forwarded :: forwarded where
  "no_forwarded = \<lparr> fw_client = None, fw_https = None \<rparr>"

section \<open>The host and the worker it names\<close>

definition host_of :: "'h header_ops \<Rightarrow> 'u ingress_env \<Rightarrow> 'h \<Rightarrow> string option" where
  "host_of H E h =
     (case hm_get_str H h ''host'' of
        None \<Rightarrow> None
      | Some value \<Rightarrow>
          (case authority_host E value of
             None \<Rightarrow> None
           | Some name \<Rightarrow>
               let host = to_ascii_lowercase (trim_end_matches ''.'' name) in
               if host \<noteq> [] then Some host else None))"

fun find_map :: "('a \<Rightarrow> 'b option) \<Rightarrow> 'a list \<Rightarrow> 'b option" where
  "find_map f [] = None"
| "find_map f (x # xs) = (case f x of Some y \<Rightarrow> Some y | None \<Rightarrow> find_map f xs)"

definition under_domain :: "string \<Rightarrow> string \<Rightarrow> string option" where
  "under_domain host domain =
     (case strip_suffix_str host domain of None \<Rightarrow> None | Some rest \<Rightarrow> strip_suffix_str rest ''.'')"

definition worker_route :: "(string \<Rightarrow> 'u option) \<Rightarrow> string \<Rightarrow> string list \<Rightarrow> (string \<times> string) option" where
  "worker_route uuid host domains =
     (case find_map (under_domain host) domains of
        None \<Rightarrow> None
      | Some name \<Rightarrow>
          if name = [] \<or> CHR ''.'' \<in> set name then None
          else case uuid name of
              Some _ \<Rightarrow> Some (''x-worker-id'', name)
            | None \<Rightarrow> Some (''x-worker-name'', name))"

section \<open>Paths\<close>

definition worker_upload :: "string \<Rightarrow> bool" where
  "worker_upload path =
     (case strip_prefix_str path ''/api/v1/workers/'' of
        None \<Rightarrow> False
      | Some rest \<Rightarrow>
          (case strip_suffix_str rest ''/upload'' of
             None \<Rightarrow> False
           | Some ident \<Rightarrow> ident \<noteq> [] \<and> CHR ''/'' \<notin> set ident))"

definition PROBED_DOT_FILES :: "string list" where
  "PROBED_DOT_FILES = [''env'', ''git'', ''svn'', ''hg'', ''ssh'', ''aws'', ''htpasswd'', ''htaccess'', ''ds_store'']"

definition PROBED_KEYS :: "string list" where
  "PROBED_KEYS = [''rsa'', ''dsa'', ''ecdsa'', ''ed25519'']"

definition probed_key :: "string \<Rightarrow> bool" where
  "probed_key name =
     (case strip_prefix_str name ''id_'' of
        None \<Rightarrow> False
      | Some kind \<Rightarrow> (case strip_suffix_str kind ''.pub'' of Some k \<Rightarrow> k | None \<Rightarrow> kind) \<in> set PROBED_KEYS)"

definition probed_segment :: "string \<Rightarrow> bool" where
  "probed_segment segment =
     ((case strip_prefix_str segment ''.'' of
         None \<Rightarrow> False
       | Some name \<Rightarrow> hd (split_char (CHR ''.'') name) \<in> set PROBED_DOT_FILES)
      \<or> (case rsplit_once_char (CHR ''.'') segment of
           None \<Rightarrow> False
         | Some (_, extension) \<Rightarrow>
             extension = ''phtml''
             \<or> (case strip_prefix_str extension ''php'' of
                  None \<Rightarrow> False
                | Some version \<Rightarrow> length version \<le> 1 \<and> list_all is_digit version)))"

definition scanner_probe :: "'u ingress_env \<Rightarrow> string \<Rightarrow> bool" where
  "scanner_probe E path =
     (let path = to_ascii_lowercase (percent_decode_lossy E path);
          segments = filter (\<lambda>segment. segment \<noteq> []) (split_char (CHR ''/'') path)
      in if segments = [''etc'', ''passwd''] \<or> segments = [''etc'', ''shadow''] then True
         else (segments \<noteq> [] \<and> probed_key (last segments)) \<or> list_ex probed_segment segments)"

section \<open>Preparing a public request\<close>

definition forwarded_by_proxy ::
  "'h header_ops \<Rightarrow> 'n address_parsers \<Rightarrow> ('n, 'c, 'k) ingress_config \<Rightarrow> 'h \<Rightarrow> peer \<Rightarrow> forwarded" where
  "forwarded_by_proxy H A config h p =
     (case client_ip_header config of
        None \<Rightarrow> no_forwarded
      | Some header \<Rightarrow>
          if \<not> (case p of PeerTcp addr \<Rightarrow> config_allows A config (sa_ip addr) | PeerUnix \<Rightarrow> True)
          then no_forwarded
          else \<lparr> fw_client = (case hm_get_str H h header of None \<Rightarrow> None | Some value \<Rightarrow> parse_ip A (trim_str value)),
                 fw_https = (case hm_get H h ''x-forwarded-proto'' of
                               None \<Rightarrow> None
                             | Some v \<Rightarrow> if v = ''https'' then Some True else if v = ''http'' then Some False else None) \<rparr>)"

text \<open>A target in absolute form names the host, and only its path stays.\<close>

definition take_authority :: "'h header_ops \<Rightarrow> 'h http_request \<Rightarrow> 'h http_request" where
  "take_authority H req =
     (case u_authority (rq_uri req) of
        None \<Rightarrow> req
      | Some authority \<Rightarrow>
          req\<lparr> rq_headers := (case hv_from_str H authority of
                                Some value \<Rightarrow> hm_insert H (rq_headers req) ''host'' value
                              | None \<Rightarrow> rq_headers req),
               rq_uri := \<lparr> u_authority = None,
                          u_target = Some (case u_target (rq_uri req) of Some t \<Rightarrow> t | None \<Rightarrow> (''/'', None)) \<rparr> \<rparr>)"

text \<open>The headers of the runner, in place of those the client sent; \<^const>\<open>None\<close> is the panic of an \<open>expect\<close>.\<close>

definition runner_headers ::
  "'h header_ops \<Rightarrow> 'n address_parsers \<Rightarrow> ('n, 'c, 'k) ingress_config \<Rightarrow> string \<Rightarrow> 'h \<Rightarrow> peer \<Rightarrow> bool \<Rightarrow> 'h option" where
  "runner_headers H A config request_id h p tls =
     (let forwarded = forwarded_by_proxy H A config h p;
          removed = foldl (hm_remove H) h RUNNER_HEADERS;
          scheme = (if (case fw_https forwarded of Some b \<Rightarrow> b | None \<Rightarrow> tls) then ''https'' else ''http'');
          named = hm_insert H (hm_insert H removed ''x-request-id'' request_id) ''x-forwarded-proto'' scheme
      in case (case fw_client forwarded of Some c \<Rightarrow> Some c | None \<Rightarrow> peer_ip p) of
           None \<Rightarrow> Some named
         | Some client \<Rightarrow>
             map_option (\<lambda>value. hm_insert H (hm_insert H (hm_insert H named ''x-real-ip'' value)
                          ''x-forwarded-for'' value) ''cf-connecting-ip'' value)
               (hv_from_str H (show_ip (to_canonical client))))"

definition prepare_route ::
  "'h header_ops \<Rightarrow> 'u ingress_env \<Rightarrow> ('n, 'c, 'k) ingress_config \<Rightarrow> 'h http_request \<Rightarrow> string
   \<Rightarrow> ('u route \<times> 'h http_request) option" where
  "prepare_route H E config req host =
     (if scanner_probe E (uri_path (rq_uri req)) then Some (RProbe, req)
      else if host \<in> set (dashboard_hosts config)
      then case logs_route (parse_uuid E) (uri_path (rq_uri req)) of
          Some (worker_id, stream) \<Rightarrow> Some (RLogs worker_id stream, req)
        | None \<Rightarrow>
            if uri_path (rq_uri req) = ''/api/health/latency/proxy'' then Some (RLatency, req)
            else
              let req = (if worker_upload (uri_path (rq_uri req))
                         then req\<lparr> rq_body_limit := Some UPLOAD_MAX_BODY_BYTES \<rparr> else req)
              in map_option (\<lambda>value. (RWorker, req\<lparr> rq_headers := hm_insert H (rq_headers req) ''x-worker-name'' value \<rparr>))
                   (hv_from_str H (api_worker config))
      else case worker_route (parse_uuid E) host (worker_domains config) of
          None \<Rightarrow> Some (RWorker, req)
        | Some (header, name) \<Rightarrow>
            map_option (\<lambda>value. (RWorker, req\<lparr> rq_headers := hm_insert H (rq_headers req) header value \<rparr>))
              (hv_from_str H name))"

definition prepare ::
  "'h header_ops \<Rightarrow> 'n address_parsers \<Rightarrow> 'u ingress_env \<Rightarrow> ('n, 'c, 'k) ingress_config \<Rightarrow> string
   \<Rightarrow> 'h http_request \<Rightarrow> peer \<Rightarrow> bool \<Rightarrow> ('u route \<times> 'h http_request) option" where
  "prepare H A E config request_id req0 p tls =
     (let req = take_authority H req0 in
      case runner_headers H A config request_id (rq_headers req) p tls of
        None \<Rightarrow> None
      | Some h \<Rightarrow>
          (case host_of H E h of
             None \<Rightarrow> Some (RBadHost, req\<lparr> rq_headers := h \<rparr>)
           | Some host \<Rightarrow>
               (case hv_from_str H host of
                  None \<Rightarrow> None
                | Some value \<Rightarrow>
                    prepare_route H E config (req\<lparr> rq_headers := hm_insert H h ''x-forwarded-host'' value \<rparr>) host)))"

text \<open>The accept loop of a listener: the connections it serves, of those it accepted.\<close>

definition accept_peers :: "'n address_parsers \<Rightarrow> 'n list option \<Rightarrow> socket_addr option list \<Rightarrow> socket_addr list" where
  "accept_peers A networks accepted =
     filter (\<lambda>p. allowed A networks (sa_ip p)) (List.map_filter id accepted)"

section \<open>The worker a host names\<close>

lemma find_map_Some:
  "find_map f xs = Some y \<Longrightarrow> \<exists>x \<in> set xs. f x = Some y"
  by (induction xs) (auto split: option.splits)

lemma find_map_unique:
  assumes "x \<in> set xs" "f x = Some y" "\<And>x' y'. x' \<in> set xs \<Longrightarrow> f x' = Some y' \<Longrightarrow> y' = y"
  shows "find_map f xs = Some y"
  using assms
proof (induction xs)
  case (Cons x' xs)
  show ?case
  proof (cases "f x'")
    case None
    then have "x \<in> set xs" using Cons.prems(1,2) by auto
    then have "find_map f xs = Some y" using Cons.prems(2,3) by (intro Cons.IH) auto
    then show ?thesis using None by simp
  next
    case (Some y')
    then show ?thesis using Cons.prems(3) [of x' y'] by simp
  qed
qed simp

lemma under_domain_Some: "under_domain host domain = Some name \<longleftrightarrow> host = name @ ''.'' @ domain"
  by (auto simp: under_domain_def strip_suffix_str_Some split: option.splits)
     (auto simp: strip_suffix_str_def ends_with_iff split: if_splits)

text \<open>Two domains that both end the same host lie one under the other.\<close>

lemma domains_nested:
  assumes "n @ ''.'' @ d = m @ ''.'' @ e" and "length d \<le> length e"
  shows "d = e \<or> ends_with e (''.'' @ d)"
proof -
  obtain u where "u @ ''.'' @ d = ''.'' @ e \<or> ''.'' @ d = u @ ''.'' @ e"
    using assms(1) unfolding append_eq_append_conv2 by blast
  then have u: "u @ ''.'' @ d = ''.'' @ e"
  proof
    assume eq: "''.'' @ d = u @ ''.'' @ e"
    have "length d + 1 = length u + length e + 1" using arg_cong [OF eq, of length] by simp
    then have "u = []" using assms(2) by simp
    then show ?thesis using eq by simp
  qed
  show ?thesis
  proof (cases u)
    case Nil
    then show ?thesis using u by simp
  next
    case (Cons c v)
    then have "e = v @ ''.'' @ d" using u by simp
    then show ?thesis by (auto simp: ends_with_iff)
  qed
qed

lemma worker_route_sound:
  assumes "worker_route uuid host domains = Some (header, name)"
  shows "name \<noteq> [] \<and> CHR ''.'' \<notin> set name \<and> (\<exists>domain \<in> set domains. host = name @ ''.'' @ domain)
    \<and> header = (if uuid name = None then ''x-worker-name'' else ''x-worker-id'')"
proof -
  have "find_map (under_domain host) domains = Some name"
    using assms by (auto simp: worker_route_def split: option.splits if_splits)
  then show ?thesis
    using assms find_map_Some [of "under_domain host" domains name]
    by (auto simp: worker_route_def under_domain_Some split: option.splits if_splits)
qed

text \<open>
  With one worker domain under another, the order of the list decides: a host under the inner domain
  names no worker when the outer one comes first.
\<close>

lemma worker_route_overlap:
  "worker_route uuid ''a.w.dev'' [''dev'', ''w.dev''] = None"
  "worker_route (\<lambda>_. None) ''a.w.dev'' [''w.dev'', ''dev''] = Some (''x-worker-name'', ''a'')"
  by (simp_all add: worker_route_def under_domain_def strip_suffix_str_def ends_with_def starts_with_def)

section \<open>The headers of a prepared request\<close>

definition client_of :: "'h header_ops \<Rightarrow> 'n address_parsers \<Rightarrow> ('n, 'c, 'k) ingress_config \<Rightarrow> 'h \<Rightarrow> peer \<Rightarrow> ip_addr option" where
  "client_of H A config h p = (case fw_client (forwarded_by_proxy H A config h p) of Some c \<Rightarrow> Some c | None \<Rightarrow> peer_ip p)"

definition scheme_of :: "'h header_ops \<Rightarrow> 'n address_parsers \<Rightarrow> ('n, 'c, 'k) ingress_config \<Rightarrow> 'h \<Rightarrow> peer \<Rightarrow> bool \<Rightarrow> string" where
  "scheme_of H A config h p tls =
     (if (case fw_https (forwarded_by_proxy H A config h p) of Some b \<Rightarrow> b | None \<Rightarrow> tls) then ''https'' else ''http'')"

text \<open>What a header holds once the headers of the runner are in place.\<close>

definition runner_value ::
  "'h header_ops \<Rightarrow> 'n address_parsers \<Rightarrow> ('n, 'c, 'k) ingress_config \<Rightarrow> string \<Rightarrow> 'h \<Rightarrow> peer \<Rightarrow> bool \<Rightarrow> string \<Rightarrow> string option" where
  "runner_value H A config request_id h p tls n =
     (if n = ''x-request-id'' then Some request_id
      else if n = ''x-forwarded-proto'' then Some (scheme_of H A config h p tls)
      else if n \<in> {''x-real-ip'', ''x-forwarded-for'', ''cf-connecting-ip''}
      then map_option (show_ip \<circ> to_canonical) (client_of H A config h p)
      else if n \<in> set RUNNER_HEADERS then None
      else hm_get H h n)"

text \<open>The route of a request and the worker header it gets, from its host and its path.\<close>

definition route_of :: "'u ingress_env \<Rightarrow> ('n, 'c, 'k) ingress_config \<Rightarrow> string option \<Rightarrow> string \<Rightarrow> 'u route \<times> (string \<times> string) option" where
  "route_of E config host path =
     (case host of
        None \<Rightarrow> (RBadHost, None)
      | Some host \<Rightarrow>
          if scanner_probe E path then (RProbe, None)
          else if host \<in> set (dashboard_hosts config)
          then case logs_route (parse_uuid E) path of
              Some (worker_id, stream) \<Rightarrow> (RLogs worker_id stream, None)
            | None \<Rightarrow> if path = ''/api/health/latency/proxy'' then (RLatency, None)
                      else (RWorker, Some (''x-worker-name'', api_worker config))
          else (RWorker, worker_route (parse_uuid E) host (worker_domains config)))"

text \<open>What a header of a prepared request holds.\<close>

definition prepared_value ::
  "'h header_ops \<Rightarrow> 'n address_parsers \<Rightarrow> 'u ingress_env \<Rightarrow> ('n, 'c, 'k) ingress_config \<Rightarrow> string \<Rightarrow> 'h http_request
   \<Rightarrow> peer \<Rightarrow> bool \<Rightarrow> string \<Rightarrow> string option" where
  "prepared_value H A E config request_id req p tls n =
     (let h = rq_headers req; host = host_of H E h; path = uri_path (rq_uri req) in
      if n = ''x-forwarded-host'' then host
      else case snd (route_of E config host path) of
          Some (header, value) \<Rightarrow> if n = header then Some value else runner_value H A config request_id h p tls n
        | None \<Rightarrow> runner_value H A config request_id h p tls n)"

locale ingress_crates = header_map H for H :: "'h header_ops" +
  fixes E :: "'u ingress_env"
  assumes ip_value: "hv_from_str H (show_ip ip) \<noteq> None"
    and host_value: "authority_host E a = Some name \<Longrightarrow> hv_from_str H (to_ascii_lowercase (trim_end_matches ''.'' name)) \<noteq> None"
    and prefix_value: "hv_from_str H (s @ t) \<noteq> None \<Longrightarrow> hv_from_str H s \<noteq> None"
begin

lemma runner_headers_get:
  obtains h' where "runner_headers H A config request_id h p tls = Some h'"
    and "\<And>n. hm_get H h' n = runner_value H A config request_id h p tls n"
proof -
  define named where "named = hm_insert H (hm_insert H (foldl (hm_remove H) h RUNNER_HEADERS) ''x-request-id'' request_id)
    ''x-forwarded-proto'' (scheme_of H A config h p tls)"
  have get_named: "hm_get H named n =
      (if n = ''x-request-id'' then Some request_id
       else if n = ''x-forwarded-proto'' then Some (scheme_of H A config h p tls)
       else if n \<in> set RUNNER_HEADERS then None else hm_get H h n)" for n
    by (simp add: named_def get_simps)
  show ?thesis
  proof (cases "client_of H A config h p")
    case None
    have "runner_headers H A config request_id h p tls = Some named"
      using None by (simp add: runner_headers_def Let_def client_of_def scheme_of_def named_def)
    moreover have "hm_get H named n = runner_value H A config request_id h p tls n" for n
      unfolding get_named runner_value_def None by (simp add: RUNNER_HEADERS_def)
    ultimately show ?thesis by (rule that)
  next
    case (Some client)
    obtain v where v: "hv_from_str H (show_ip (to_canonical client)) = Some v"
      using ip_value [of "to_canonical client"] by blast
    let ?h = "hm_insert H (hm_insert H (hm_insert H named ''x-real-ip'' v) ''x-forwarded-for'' v) ''cf-connecting-ip'' v"
    have "runner_headers H A config request_id h p tls = Some ?h"
      using Some v by (simp add: runner_headers_def Let_def client_of_def scheme_of_def named_def)
    moreover have "hm_get H ?h n = runner_value H A config request_id h p tls n" for n
      unfolding get_insert get_named runner_value_def Some using from_str_same [OF v] by (simp add: RUNNER_HEADERS_def)
    ultimately show ?thesis by (rule that)
  qed
qed

lemma host_of_runner:
  assumes "\<And>n. hm_get H h' n = runner_value H A config request_id h p tls n"
  shows "host_of H E h' = host_of H E h"
  using assms [of "''host''"] by (simp add: host_of_def hm_get_str_def runner_value_def RUNNER_HEADERS_def)

lemma host_of_value: "host_of H E h = Some host \<Longrightarrow> hv_from_str H host = Some host"
  using host_value from_str_same
  by (auto simp: host_of_def Let_def split: option.splits if_splits)

lemma prepare_route_spec:
  assumes host: "hv_from_str H host = Some host" and api: "hv_from_str H (api_worker config) \<noteq> None"
  obtains req' where "prepare_route H E config req host = Some (fst (route_of E config (Some host) (uri_path (rq_uri req))), req')"
    and "\<And>n. hm_get H (rq_headers req') n =
      (case snd (route_of E config (Some host) (uri_path (rq_uri req))) of
         Some (header, value) \<Rightarrow> if n = header then Some value else hm_get H (rq_headers req) n
       | None \<Rightarrow> hm_get H (rq_headers req) n)"
proof -
  have api': "hv_from_str H (api_worker config) = Some (api_worker config)"
    using api from_str_same by fastforce
  have name': "hv_from_str H name = Some name"
    if wr: "worker_route (parse_uuid E) host (worker_domains config) = Some (header, name)" for header name
  proof -
    obtain domain where "host = name @ ''.'' @ domain" using worker_route_sound [OF wr] by blast
    then have "hv_from_str H name \<noteq> None" using prefix_value [of name "''.'' @ domain"] host by auto
    then show ?thesis using from_str_same by fastforce
  qed
  let ?route = "route_of E config (Some host) (uri_path (rq_uri req))"
  have "\<exists>req'. prepare_route H E config req host = Some (fst ?route, req')
      \<and> (\<forall>n. hm_get H (rq_headers req') n =
        (case snd ?route of Some (header, value) \<Rightarrow> if n = header then Some value else hm_get H (rq_headers req) n
         | None \<Rightarrow> hm_get H (rq_headers req) n))"
  proof (cases "scanner_probe E (uri_path (rq_uri req)) \<or> host \<in> set (dashboard_hosts config)")
    case True
    then show ?thesis
      by (cases "logs_route (parse_uuid E) (uri_path (rq_uri req))")
         (auto simp: prepare_route_def route_of_def api' Let_def get_insert split: if_splits)
  next
    case False
    then show ?thesis
      by (cases "worker_route (parse_uuid E) host (worker_domains config)")
         (auto simp: prepare_route_def route_of_def name' get_insert)
  qed
  then show ?thesis using that by blast
qed

lemma prepare_spec:
  assumes api: "hv_from_str H (api_worker config) \<noteq> None"
  obtains req' where "prepare H A E config request_id req p tls =
      Some (fst (route_of E config (host_of H E (rq_headers (take_authority H req))) (uri_path (rq_uri (take_authority H req)))), req')"
    and "\<And>n. hm_get H (rq_headers req') n = prepared_value H A E config request_id (take_authority H req) p tls n"
proof -
  define r where "r = take_authority H req"
  obtain h' where h': "runner_headers H A config request_id (rq_headers r) p tls = Some h'"
      and get: "\<And>n. hm_get H h' n = runner_value H A config request_id (rq_headers r) p tls n"
    using runner_headers_get [of A config request_id "rq_headers r" p tls] by blast
  note host_eq = host_of_runner [OF get]
  show ?thesis
  proof (cases "host_of H E (rq_headers r)")
    case None
    show ?thesis
    proof (rule that)
      show "prepare H A E config request_id req p tls = Some (fst (route_of E config
          (host_of H E (rq_headers (take_authority H req))) (uri_path (rq_uri (take_authority H req)))), r\<lparr> rq_headers := h' \<rparr>)"
        using None h' host_eq by (simp add: prepare_def Let_def route_of_def flip: r_def)
      show "hm_get H (rq_headers (r\<lparr> rq_headers := h' \<rparr>)) n
          = prepared_value H A E config request_id (take_authority H req) p tls n" for n
        using None get [of n] by (simp add: prepared_value_def Let_def route_of_def runner_value_def RUNNER_HEADERS_def flip: r_def)
    qed
  next
    case (Some host)
    note hv = host_of_value [OF Some]
    let ?req = "r\<lparr> rq_headers := hm_insert H h' ''x-forwarded-host'' host \<rparr>"
    obtain req' where req': "prepare_route H E config ?req host = Some (fst (route_of E config (Some host) (uri_path (rq_uri ?req))), req')"
      and got: "\<And>n. hm_get H (rq_headers req') n =
        (case snd (route_of E config (Some host) (uri_path (rq_uri ?req))) of
           Some (header, value) \<Rightarrow> if n = header then Some value else hm_get H (rq_headers ?req) n
         | None \<Rightarrow> hm_get H (rq_headers ?req) n)"
      using prepare_route_spec [OF hv api, of ?req] by blast
    have headers: "header \<noteq> ''x-forwarded-host''"
      if "snd (route_of E config (Some host) path) = Some (header, v)" for header v path
      using that worker_route_sound [of "parse_uuid E" host "worker_domains config" header v]
      by (auto simp: route_of_def split: if_splits option.splits)
    show ?thesis
    proof (rule that)
      show "prepare H A E config request_id req p tls = Some (fst (route_of E config
          (host_of H E (rq_headers (take_authority H req))) (uri_path (rq_uri (take_authority H req)))), req')"
        using Some h' host_eq hv req' by (simp add: prepare_def Let_def flip: r_def)
      show "hm_get H (rq_headers req') n = prepared_value H A E config request_id (take_authority H req) p tls n" for n
        using Some get [of n] got [of n] headers
        by (auto simp: prepared_value_def Let_def get_insert simp flip: r_def split: option.splits if_splits)
    qed
  qed
qed

end

text \<open>Two header maps that agree outside the headers of the runner, for a peer that is not a trusted proxy.\<close>

definition same_client_headers :: "'h header_ops \<Rightarrow> 'h \<Rightarrow> 'h \<Rightarrow> bool" where
  "same_client_headers H h k \<longleftrightarrow> (\<forall>n. n \<notin> set RUNNER_HEADERS \<longrightarrow> hm_get H h n = hm_get H k n)"

definition trusted_proxy :: "'n address_parsers \<Rightarrow> ('n, 'c, 'k) ingress_config \<Rightarrow> peer \<Rightarrow> bool" where
  "trusted_proxy A config p \<longleftrightarrow> client_ip_header config \<noteq> None
     \<and> (case p of PeerTcp addr \<Rightarrow> config_allows A config (sa_ip addr) | PeerUnix \<Rightarrow> True)"

lemma untrusted_forwarded: "\<not> trusted_proxy A config p \<Longrightarrow> forwarded_by_proxy H A config h p = no_forwarded"
  by (auto simp: trusted_proxy_def forwarded_by_proxy_def split: option.splits peer.splits)

lemma same_runner_value:
  assumes "\<not> trusted_proxy A config p" "same_client_headers H h k"
  shows "runner_value H A config request_id h p tls n = runner_value H A config request_id k p tls n"
  using assms untrusted_forwarded [OF assms(1), of H h] untrusted_forwarded [OF assms(1), of H k]
  by (simp add: runner_value_def client_of_def scheme_of_def same_client_headers_def)

lemma same_host_of: "same_client_headers H h k \<Longrightarrow> host_of H E h = host_of H E k"
  by (simp add: same_client_headers_def host_of_def hm_get_str_def RUNNER_HEADERS_def)

lemma same_take_authority:
  assumes "header_map H" "same_client_headers H (rq_headers req) k"
  shows "same_client_headers H (rq_headers (take_authority H req)) (rq_headers (take_authority H (req\<lparr> rq_headers := k \<rparr>)))"
  using assms(2)
  by (auto simp: take_authority_def same_client_headers_def header_map.get_insert [OF assms(1)] split: option.splits)

end
