(* ===== verification/Ingress_Props.thy ===== *)
theory Ingress_Props
  imports Ingress
begin

text \<open>
  The public side of the runner, its properties: an instance of the crates the preparation of a request
  relies on, and what a prepared request carries.
\<close>

section \<open>Interpretation\<close>

lemma visible_show_radix: "2 \<le> r \<Longrightarrow> r \<le> 16 \<Longrightarrow> list_all visible (show_radix r n)"
proof (induction r n rule: show_radix.induct)
  case (1 r n)
  have digit: "m < 16 \<Longrightarrow> visible (digit_char m)" for m
    by (auto simp: visible_def digit_char_def)
  show ?case
  proof (cases "n < r")
    case True
    then show ?thesis using 1 digit by (subst show_radix.simps) auto
  next
    case False
    have "n mod r < 16" using "1.prems" mod_less_divisor [of r n] by linarith
    then show ?thesis using False 1 digit by (subst show_radix.simps) auto
  qed
qed

lemma visible_separators: "visible (CHR ''.'')" "visible (CHR '':'')" "visible (CHR ''f'')"
  by (simp_all add: visible_def)

lemma visible_join_segments: "list_all visible (join_segments ss)"
  by (induction ss rule: join_segments.induct) (auto simp: visible_show_radix visible_separators)

lemma visible_show_ipv4: "list_all visible (show_ipv4 v4)"
  by (cases v4) (simp add: visible_show_radix visible_separators)

lemma visible_show_ip: "list_all visible (show_ip ip)"
  by (cases ip) (simp_all add: visible_show_ipv4 show_ipv6_def visible_join_segments visible_separators Let_def
      split: option.splits)

lemma visible_lower: "visible c \<Longrightarrow> visible (ascii_lower c)"
  by (auto simp: visible_def of_char_ascii_lower)

lemma visible_trim_end: "list_all visible s \<Longrightarrow> list_all visible (trim_end_matches p s)"
  using set_mono_suffix [OF strip_all_suffix [of "[rev p]" "rev s"]]
  by (auto simp: trim_end_matches_def list_all_iff)

definition demo_ingress_env :: "nat ingress_env" where
  "demo_ingress_env = \<lparr> authority_host = (\<lambda>s. if list_all visible s then Some s else None),
     parse_uuid = (\<lambda>_. None), percent_decode_lossy = id \<rparr>"

interpretation demo_ingress: ingress_crates list_headers demo_ingress_env
proof
  fix a name
  assume "authority_host demo_ingress_env a = Some name"
  then have "list_all visible name" by (simp add: demo_ingress_env_def split: if_splits)
  then have "list_all visible (to_ascii_lowercase (trim_end_matches ''.'' name))"
    using visible_trim_end visible_lower by (auto simp: to_ascii_lowercase_def list_all_iff)
  then show "hv_from_str list_headers (to_ascii_lowercase (trim_end_matches ''.'' name)) \<noteq> None"
    by (simp add: list_headers_def)
qed (simp_all add: list_headers_def visible_show_ip split: if_splits)

section \<open>Properties\<close>


definition demo_config :: "(string, string, string) ingress_config" where
  "demo_config = \<lparr> internal_port = 8080, http_addr = \<lparr> sa_ip = V4 (Ipv4Addr 0 0 0 0), sa_port = 80 \<rparr>,
     cfg_https_addr = HttpsUnix ''/s'', cfg_listeners = 1, dashboard_hosts = [''dash''], api_worker = ''api'',
     worker_domains = [''dev''], allowlist = None, client_ip_header = None, cfg_tls = None, client_cert = None \<rparr>"

definition demo_public :: "(string \<times> string) list http_request" where
  "demo_public = \<lparr> rq_method = ''GET'', rq_uri = \<lparr> u_authority = None, u_target = Some (''/'', None) \<rparr>,
     rq_headers = [(''host'', ''a.dev''), (''x-openworkers-internal'', ''1''), (''x-real-ip'', ''forged'')], rq_body_limit = None \<rparr>"

abbreviation demo_peer :: peer where
  "demo_peer \<equiv> PeerTcp \<lparr> sa_ip = V4 (Ipv4Addr 10 0 0 1), sa_port = 5 \<rparr>"

lemma demo_api: "hv_from_str list_headers (api_worker demo_config) \<noteq> None"
  by (simp add: list_headers_def demo_config_def visible_def)


text \<open>
  C6. A client that is not an allowlisted proxy cannot forge what only the runner sets: whatever it
  sends under the names of those headers, the route and every header of the prepared request are the
  same, the addresses are those of its connection, and the headers of internal calls are absent.
\<close>

theorem client_cannot_forge:
  assumes crates: "ingress_crates H E" and api: "hv_from_str H (api_worker config) \<noteq> None"
    and peer: "\<not> trusted_proxy A config p" and same: "same_client_headers H (rq_headers req) h"
  shows "\<exists>route req1 req2. prepare H A E config request_id req p tls = Some (route, req1)
      \<and> prepare H A E config request_id (req\<lparr> rq_headers := h \<rparr>) p tls = Some (route, req2)
      \<and> (\<forall>n. hm_get H (rq_headers req1) n = hm_get H (rq_headers req2) n)
      \<and> hm_get H (rq_headers req1) ''x-real-ip'' = map_option (show_ip \<circ> to_canonical) (peer_ip p)
      \<and> hm_get H (rq_headers req1) ''x-forwarded-for'' = map_option (show_ip \<circ> to_canonical) (peer_ip p)
      \<and> hm_get H (rq_headers req1) ''x-openworkers-internal'' = None
      \<and> hm_get H (rq_headers req1) ''x-openworkers-depth'' = None"
proof -
  let ?r = "take_authority H req" and ?s = "take_authority H (req\<lparr> rq_headers := h \<rparr>)"
  have agree: "same_client_headers H (rq_headers ?r) (rq_headers ?s)"
    by (rule same_take_authority [OF ingress_crates.axioms(1) [OF crates] same])
  have uri: "rq_uri ?s = rq_uri ?r" by (simp add: take_authority_def split: option.splits)
  obtain req1 where p1: "prepare H A E config request_id req p tls =
        Some (fst (route_of E config (host_of H E (rq_headers ?r)) (uri_path (rq_uri ?r))), req1)"
      and g1: "\<And>n. hm_get H (rq_headers req1) n = prepared_value H A E config request_id ?r p tls n"
    using ingress_crates.prepare_spec [OF crates api] by blast
  obtain req2 where p2: "prepare H A E config request_id (req\<lparr> rq_headers := h \<rparr>) p tls =
        Some (fst (route_of E config (host_of H E (rq_headers ?s)) (uri_path (rq_uri ?s))), req2)"
      and g2: "\<And>n. hm_get H (rq_headers req2) n = prepared_value H A E config request_id ?s p tls n"
    using ingress_crates.prepare_spec [OF crates api] by blast
  have same_value: "prepared_value H A E config request_id ?s p tls n = prepared_value H A E config request_id ?r p tls n" for n
    unfolding prepared_value_def Let_def uri same_host_of [OF agree] same_runner_value [OF peer agree] ..
  have names: "header \<in> {''x-worker-id'', ''x-worker-name''}"
    if "snd (route_of E config host path) = Some (header, v)" for header v host path
    using that worker_route_sound [of "parse_uuid E" "the host" "worker_domains config" header v]
    by (auto simp: route_of_def split: if_splits option.splits)
  have fixed: "prepared_value H A E config request_id ?r p tls n = runner_value H A config request_id (rq_headers ?r) p tls n"
    if "n \<notin> {''x-worker-id'', ''x-worker-name'', ''x-forwarded-host''}" for n
    using names that by (auto simp: prepared_value_def Let_def split: option.splits)
  have client: "client_of H A config (rq_headers ?r) p = peer_ip p"
    by (simp add: client_of_def untrusted_forwarded [OF peer] no_forwarded_def)
  have one: "hm_get H (rq_headers req1) n = runner_value H A config request_id (rq_headers ?r) p tls n"
    if "n \<notin> {''x-worker-id'', ''x-worker-name'', ''x-forwarded-host''}" for n
    using g1 [of n] fixed [OF that] by simp
  show ?thesis
  proof (intro exI conjI allI)
    show "prepare H A E config request_id req p tls =
        Some (fst (route_of E config (host_of H E (rq_headers ?r)) (uri_path (rq_uri ?r))), req1)" by (fact p1)
    show "prepare H A E config request_id (req\<lparr> rq_headers := h \<rparr>) p tls =
        Some (fst (route_of E config (host_of H E (rq_headers ?r)) (uri_path (rq_uri ?r))), req2)"
      unfolding p2 uri same_host_of [OF agree] ..
    show "hm_get H (rq_headers req1) n = hm_get H (rq_headers req2) n" for n
      by (simp only: g1 g2 same_value)
    show "hm_get H (rq_headers req1) ''x-real-ip'' = map_option (show_ip \<circ> to_canonical) (peer_ip p)"
      using one [of "''x-real-ip''"] by (simp add: runner_value_def client)
    show "hm_get H (rq_headers req1) ''x-forwarded-for'' = map_option (show_ip \<circ> to_canonical) (peer_ip p)"
      using one [of "''x-forwarded-for''"] by (simp add: runner_value_def client)
    show "hm_get H (rq_headers req1) ''x-openworkers-internal'' = None"
      using one [of "''x-openworkers-internal''"] by (simp add: runner_value_def RUNNER_HEADERS_def)
    show "hm_get H (rq_headers req1) ''x-openworkers-depth'' = None"
      using one [of "''x-openworkers-depth''"] by (simp add: runner_value_def RUNNER_HEADERS_def)
  qed
qed

theorem client_cannot_forge_witness:
  "\<exists>route req1 req2.
     prepare list_headers demo_parsers demo_ingress_env demo_config ''1'' demo_public demo_peer True = Some (route, req1)
   \<and> prepare list_headers demo_parsers demo_ingress_env demo_config ''1'' (demo_public\<lparr> rq_headers := [(''host'', ''a.dev'')] \<rparr>) demo_peer True
      = Some (route, req2)
   \<and> hm_get list_headers (rq_headers req1) ''x-real-ip'' = Some ''10.0.0.1''"
proof -
  have same: "same_client_headers list_headers (rq_headers demo_public) [(''host'', ''a.dev'')]"
    by (auto simp: same_client_headers_def demo_public_def hm_get_def list_headers_def RUNNER_HEADERS_def)
  have ip: "map_option (show_ip \<circ> to_canonical) (peer_ip demo_peer) = Some ''10.0.0.1''" by code_simp
  have "\<not> trusted_proxy demo_parsers demo_config demo_peer" by (simp add: trusted_proxy_def demo_config_def)
  from client_cannot_forge [OF demo_ingress.ingress_crates_axioms demo_api this same, of "''1''" True]
  show ?thesis unfolding ip by blast
qed

text \<open>
  C32. When no worker domain lies under another, a host names a worker exactly when it is one label
  before one of the domains, and the label decides between the id and the name.
\<close>

theorem worker_route_exact:
  assumes apart: "\<forall>d \<in> set domains. \<forall>e \<in> set domains. \<not> ends_with e (''.'' @ d)"
  shows "worker_route uuid host domains = Some (header, name) \<longleftrightarrow>
     name \<noteq> [] \<and> CHR ''.'' \<notin> set name \<and> (\<exists>d \<in> set domains. host = name @ ''.'' @ d)
     \<and> header = (if uuid name = None then ''x-worker-name'' else ''x-worker-id'')"
proof
  assume r: "name \<noteq> [] \<and> CHR ''.'' \<notin> set name \<and> (\<exists>d \<in> set domains. host = name @ ''.'' @ d)
     \<and> header = (if uuid name = None then ''x-worker-name'' else ''x-worker-id'')"
  then obtain d where d: "d \<in> set domains" "host = name @ ''.'' @ d" by blast
  have "find_map (under_domain host) domains = Some name"
  proof (rule find_map_unique)
    show "d \<in> set domains" "under_domain host d = Some name" using d by (simp_all add: under_domain_Some)
    show "m = name" if e: "e \<in> set domains" "under_domain host e = Some m" for e m
    proof -
      have eq: "name @ ''.'' @ d = m @ ''.'' @ e" using e(2) d(2) by (simp add: under_domain_Some)
      have "d = e"
        using domains_nested [OF eq] domains_nested [OF eq [symmetric]] apart d(1) e(1)
        by (cases "length d \<le> length e") auto
      then show ?thesis using eq by simp
    qed
  qed
  then show "worker_route uuid host domains = Some (header, name)"
    using r by (auto simp: worker_route_def split: option.splits)
qed (use worker_route_sound in fast)

theorem worker_route_exact_witness:
  "worker_route (\<lambda>_. None) ''a.w.dev'' [''w.dev'', ''x.org''] = Some (''x-worker-name'', ''a'')"
  by (subst worker_route_exact) (auto simp: ends_with_def starts_with_def)

end
