(* ===== verification/Lru.thy ===== *)
theory Lru
  imports Prelude "HOL-Library.AList"
begin

text \<open>
  The contract of the \<open>lru\<close> crate's cache, which the code cache and the resolve cache hold. The crate is
  not part of the repository: its operations are the fields of a record, and the locale states its
  documented behaviour through \<open>lru_items\<close>, the entries from the most to the least recently used. A list
  kept in that order satisfies it.
\<close>

record ('c, 'k, 'v) lru_ops =
  lru_new :: "nat \<Rightarrow> 'c"
  lru_get :: "'c \<Rightarrow> 'k \<Rightarrow> 'c \<times> 'v option"
  lru_push :: "'c \<Rightarrow> 'k \<Rightarrow> 'v \<Rightarrow> 'c \<times> ('k \<times> 'v) option"
  lru_pop :: "'c \<Rightarrow> 'c \<times> ('k \<times> 'v) option"
  lru_clear :: "'c \<Rightarrow> 'c"
  lru_len :: "'c \<Rightarrow> nat"
  lru_items :: "'c \<Rightarrow> ('k \<times> 'v) list"
  lru_cap :: "'c \<Rightarrow> nat"

definition touch :: "'k \<Rightarrow> 'v \<Rightarrow> ('k \<times> 'v) list \<Rightarrow> ('k \<times> 'v) list" where
  "touch k v items = (k, v) # AList.delete k items"

locale lru =
  fixes L :: "('c, 'k, 'v) lru_ops"
  assumes items_new: "0 < n \<Longrightarrow> lru_items L (lru_new L n) = [] \<and> lru_cap L (lru_new L n) = n"
    and items_get: "lru_get L c k = (c', r) \<Longrightarrow> r = map_of (lru_items L c) k
      \<and> lru_items L c' = (case r of Some v \<Rightarrow> touch k v (lru_items L c) | None \<Rightarrow> lru_items L c)"
    and items_push_old: "map_of (lru_items L c) k = Some old \<Longrightarrow> lru_push L c k v = (c', p) \<Longrightarrow>
      p = Some (k, old) \<and> lru_items L c' = touch k v (lru_items L c)"
    and items_push_new: "map_of (lru_items L c) k = None \<Longrightarrow> length (lru_items L c) < lru_cap L c \<Longrightarrow>
      lru_push L c k v = (c', p) \<Longrightarrow> p = None \<and> lru_items L c' = (k, v) # lru_items L c"
    and items_push_full: "map_of (lru_items L c) k = None \<Longrightarrow> length (lru_items L c) = lru_cap L c \<Longrightarrow> 0 < lru_cap L c \<Longrightarrow>
      lru_push L c k v = (c', p) \<Longrightarrow>
      p = Some (last (lru_items L c)) \<and> lru_items L c' = (k, v) # butlast (lru_items L c)"
    and items_pop: "lru_pop L c = (c', p) \<Longrightarrow>
      (if lru_items L c = [] then p = None \<and> lru_items L c' = []
       else p = Some (last (lru_items L c)) \<and> lru_items L c' = butlast (lru_items L c))"
    and items_clear: "lru_items L (lru_clear L c) = []"
    and items_len: "lru_len L c = length (lru_items L c)"
    and cap_same: "lru_cap L (fst (lru_get L c k)) = lru_cap L c" "lru_cap L (fst (lru_push L c k v)) = lru_cap L c"
      "lru_cap L (fst (lru_pop L c)) = lru_cap L c" "lru_cap L (lru_clear L c) = lru_cap L c"

text \<open>The cache as its capacity and the list of its entries.\<close>

definition list_lru :: "(nat \<times> ('k \<times> 'v) list, 'k, 'v) lru_ops" where
  "list_lru = \<lparr>
     lru_new = (\<lambda>n. (n, [])),
     lru_get = (\<lambda>(n, items) k. case map_of items k of
         Some v \<Rightarrow> ((n, touch k v items), Some v) | None \<Rightarrow> ((n, items), None)),
     lru_push = (\<lambda>(n, items) k v. case map_of items k of
         Some old \<Rightarrow> ((n, touch k v items), Some (k, old))
       | None \<Rightarrow> if length items < n then ((n, (k, v) # items), None)
                 else ((n, (k, v) # butlast items), Some (last items))),
     lru_pop = (\<lambda>(n, items). if items = [] then ((n, []), None) else ((n, butlast items), Some (last items))),
     lru_clear = (\<lambda>(n, items). (n, [])),
     lru_len = (\<lambda>(n, items). length items),
     lru_items = snd, lru_cap = fst \<rparr>"

interpretation listed_lru: lru list_lru
  by unfold_locales (auto simp: list_lru_def split: option.splits if_splits)

section \<open>What stays in the cache\<close>

definition lru_fits :: "('c, 'k, 'v) lru_ops \<Rightarrow> 'c \<Rightarrow> bool" where
  "lru_fits L c \<longleftrightarrow> length (lru_items L c) \<le> lru_cap L c \<and> 0 < lru_cap L c"

context lru
begin

lemma set_touch: "set (touch k v items) \<subseteq> insert (k, v) (set items)"
  by (auto simp: touch_def AList.delete_eq)

lemma length_touch: "map_of items k = Some old \<Longrightarrow> length (touch k v items) \<le> length items"
  unfolding touch_def AList.delete_eq
  using length_filter_less [OF map_of_SomeD, of items k old] by (simp add: Suc_le_eq)

lemma get_subset:
  assumes "lru_get L c k = (c', r)"
  shows "set (lru_items L c') \<subseteq> set (lru_items L c)" and "lru_fits L c \<Longrightarrow> lru_fits L c'"
    and "r = Some v \<Longrightarrow> (k, v) \<in> set (lru_items L c)"
proof -
  note G = items_get [OF assms]
  have cap: "lru_cap L c' = lru_cap L c" using cap_same(1) [of c k] assms by simp
  show "set (lru_items L c') \<subseteq> set (lru_items L c)"
    using G set_touch [of k] by (fastforce split: option.splits dest: map_of_SomeD)
  show "lru_fits L c \<Longrightarrow> lru_fits L c'"
    using G cap length_touch [of "lru_items L c" k]
    by (auto simp: lru_fits_def split: option.splits intro: order_trans)
  show "r = Some v \<Longrightarrow> (k, v) \<in> set (lru_items L c)" using G by (auto dest: map_of_SomeD)
qed

lemma push_subset:
  assumes fits: "lru_fits L c" and push: "lru_push L c k v = (c', p)"
  shows "set (lru_items L c') \<subseteq> insert (k, v) (set (lru_items L c))" and "lru_fits L c'"
proof -
  have cap: "lru_cap L c' = lru_cap L c" using cap_same(2) [of c k v] push by simp
  have "set (lru_items L c') \<subseteq> insert (k, v) (set (lru_items L c)) \<and> length (lru_items L c') \<le> lru_cap L c"
  proof (cases "map_of (lru_items L c) k")
    case (Some old)
    then show ?thesis
      using items_push_old [OF Some push] set_touch [of k v "lru_items L c"] length_touch [OF Some, of v] fits
      by (simp add: lru_fits_def)
  next
    case None
    show ?thesis
    proof (cases "length (lru_items L c) < lru_cap L c")
      case True
      then show ?thesis using items_push_new [OF None True push] by auto
    next
      case False
      then have full: "length (lru_items L c) = lru_cap L c" "0 < lru_cap L c" using fits by (auto simp: lru_fits_def)
      have "set (butlast (lru_items L c)) \<subseteq> set (lru_items L c)" by (auto dest: in_set_butlastD)
      then show ?thesis using items_push_full [OF None full push] full by auto
    qed
  qed
  then show "set (lru_items L c') \<subseteq> insert (k, v) (set (lru_items L c))" "lru_fits L c'"
    using cap fits by (simp_all add: lru_fits_def)
qed

lemma clear_fits: "lru_fits L c \<Longrightarrow> lru_fits L (lru_clear L c)"
  by (simp add: lru_fits_def items_clear cap_same)

lemma new_fits: "0 < n \<Longrightarrow> lru_fits L (lru_new L n)"
  using items_new [of n] by (simp add: lru_fits_def)

end

end
