(* ===== verification/Code_Cache.thy ===== *)
theory Code_Cache
  imports Lru Rust_Str
begin

text \<open>
  \<open>src/code_cache.rs\<close>: the cache of compiled worker code, bounded by its entries and by their bytes. The
  LRU is an argument. The loop that evicts runs at most once per entry, so the number of entries is its
  fuel.
\<close>

section \<open>Operations\<close>

type_synonym cache_key = "string \<times> int"

record 'c code_cache =
  cc_entries :: 'c
  cc_bytes :: nat
  cc_max_bytes :: nat

definition cache_new :: "('c, cache_key, u8 list) lru_ops \<Rightarrow> nat \<Rightarrow> nat \<Rightarrow> 'c code_cache" where
  "cache_new L max_entries max_bytes =
     \<lparr> cc_entries = lru_new L max_entries, cc_bytes = 0, cc_max_bytes = max_bytes \<rparr>"

definition cache_get :: "('c, cache_key, u8 list) lru_ops \<Rightarrow> cache_key \<Rightarrow> 'c code_cache \<Rightarrow> 'c code_cache \<times> u8 list option" where
  "cache_get L key c = (let (entries, blob) = lru_get L (cc_entries c) key in (c\<lparr> cc_entries := entries \<rparr>, blob))"

primrec evict :: "('c, cache_key, u8 list) lru_ops \<Rightarrow> nat \<Rightarrow> 'c code_cache \<Rightarrow> 'c code_cache" where
  "evict L 0 c = c"
| "evict L (Suc n) c =
     (if cc_max_bytes c < cc_bytes c
      then case lru_pop L (cc_entries c) of
          (entries, Some (_, evicted)) \<Rightarrow>
            evict L n (c\<lparr> cc_entries := entries, cc_bytes := cc_bytes c - length evicted \<rparr>)
        | (entries, None) \<Rightarrow> c\<lparr> cc_entries := entries \<rparr>
      else c)"

definition cache_put :: "('c, cache_key, u8 list) lru_ops \<Rightarrow> cache_key \<Rightarrow> u8 list \<Rightarrow> 'c code_cache \<Rightarrow> 'c code_cache" where
  "cache_put L key blob c =
     (if cc_max_bytes c < length blob then c
      else
        let added = cc_bytes c + length blob;
            (entries, dropped) = lru_push L (cc_entries c) key blob;
            bytes = (case dropped of Some (_, d) \<Rightarrow> added - length d | None \<Rightarrow> added)
        in evict L (Suc (lru_len L entries)) (c\<lparr> cc_entries := entries, cc_bytes := bytes \<rparr>))"

text \<open>The settings of the global cache, and the keys of V8 code and of Wasm components.\<close>

definition parse_env :: "(string \<Rightarrow> string option) \<Rightarrow> string \<Rightarrow> nat option" where
  "parse_env env name = (case env name of Some v \<Rightarrow> parse_unsigned USIZE_MAX v | None \<Rightarrow> None)"

definition read_env :: "(string \<Rightarrow> string option) \<Rightarrow> string \<Rightarrow> string \<Rightarrow> nat option" where
  "read_env env name fallback = (case parse_env env name of Some v \<Rightarrow> Some v | None \<Rightarrow> parse_env env fallback)"

definition DEFAULT_MAX_ENTRIES :: nat where
  "DEFAULT_MAX_ENTRIES = 5000"

definition DEFAULT_MAX_BYTES :: nat where
  "DEFAULT_MAX_BYTES = 512 * 1024 * 1024"

definition code_cache_init :: "('c, cache_key, u8 list) lru_ops \<Rightarrow> (string \<Rightarrow> string option) \<Rightarrow> 'c code_cache" where
  "code_cache_init L env =
     cache_new L
       (case read_env env ''CODE_CACHE_MAX'' ''SNAPSHOT_CACHE_MAX'' of
          Some n \<Rightarrow> if n = 0 then DEFAULT_MAX_ENTRIES else n | None \<Rightarrow> DEFAULT_MAX_ENTRIES)
       (case read_env env ''CODE_CACHE_MAX_BYTES'' ''SNAPSHOT_CACHE_MAX_BYTES'' of
          Some n \<Rightarrow> n | None \<Rightarrow> DEFAULT_MAX_BYTES)"

definition wasm_id :: "string \<Rightarrow> string \<Rightarrow> string" where
  "wasm_id worker_id engine_key = ''wasm:'' @ engine_key @ '':'' @ worker_id"

definition code_get :: "('c, cache_key, u8 list) lru_ops \<Rightarrow> string \<Rightarrow> int \<Rightarrow> 'c code_cache \<Rightarrow> 'c code_cache \<times> u8 list option" where
  "code_get L worker_id version = cache_get L (worker_id, version)"

definition code_put :: "('c, cache_key, u8 list) lru_ops \<Rightarrow> string \<Rightarrow> int \<Rightarrow> u8 list \<Rightarrow> 'c code_cache \<Rightarrow> 'c code_cache" where
  "code_put L worker_id version snapshot = cache_put L (worker_id, version) snapshot"

definition get_wasm :: "('c, cache_key, u8 list) lru_ops \<Rightarrow> string \<Rightarrow> int \<Rightarrow> string \<Rightarrow> 'c code_cache \<Rightarrow> 'c code_cache \<times> u8 list option" where
  "get_wasm L worker_id version engine_key = cache_get L (wasm_id worker_id engine_key, version)"

definition put_wasm :: "('c, cache_key, u8 list) lru_ops \<Rightarrow> string \<Rightarrow> int \<Rightarrow> string \<Rightarrow> u8 list \<Rightarrow> 'c code_cache \<Rightarrow> 'c code_cache" where
  "put_wasm L worker_id version engine_key component = cache_put L (wasm_id worker_id engine_key, version) component"

section \<open>Invariant\<close>

definition blob_total :: "('k \<times> u8 list) list \<Rightarrow> nat" where
  "blob_total items = sum_list (map (\<lambda>(_, blob). length blob) items)"

definition code_inv :: "('c, cache_key, u8 list) lru_ops \<Rightarrow> 'c code_cache \<Rightarrow> bool" where
  "code_inv L c \<longleftrightarrow> distinct (map fst (lru_items L (cc_entries c)))
     \<and> length (lru_items L (cc_entries c)) \<le> lru_cap L (cc_entries c) \<and> 0 < lru_cap L (cc_entries c)
     \<and> cc_bytes c = blob_total (lru_items L (cc_entries c)) \<and> cc_bytes c \<le> cc_max_bytes c"

lemma blob_total_simps [simp]: "blob_total [] = 0" "blob_total ((k, blob) # items) = length blob + blob_total items"
  by (simp_all add: blob_total_def)

lemma total_butlast: "items \<noteq> [] \<Longrightarrow> blob_total items = blob_total (butlast items) + length (snd (last items))"
  by (induction items rule: rev_induct) (auto simp: blob_total_def)

lemma total_delete:
  "distinct (map fst items) \<Longrightarrow> map_of items k = Some old \<Longrightarrow> blob_total items = blob_total (AList.delete k items) + length old"
proof (induction items)
  case (Cons item items)
  show ?case
  proof (cases "fst item = k")
    case True
    then have "AList.delete k (item # items) = items"
      using Cons.prems by (cases item) (force simp: AList.delete_eq filter_id_conv)
    then show ?thesis using True Cons.prems by (cases item) auto
  next
    case False
    then show ?thesis using Cons by (cases item) (auto simp: AList.delete_eq)
  qed
qed simp

lemma delete_fresh: "map_of items k = None \<Longrightarrow> AList.delete k items = items"
  by (force simp: AList.delete_eq filter_id_conv map_of_eq_None_iff)

lemma delete_shorter: "map_of items k = Some old \<Longrightarrow> length (AList.delete k items) < length items"
  unfolding AList.delete_eq by (rule length_filter_less [OF map_of_SomeD]) simp_all

text \<open>Sequences of operations of the cache.\<close>

datatype cache_event = Get cache_key | Put cache_key "u8 list"

fun cache_step :: "('c, cache_key, u8 list) lru_ops \<Rightarrow> 'c code_cache \<Rightarrow> cache_event \<Rightarrow> 'c code_cache option" where
  "cache_step L c (Get key) = Some (fst (cache_get L key c))"
| "cache_step L c (Put key blob) = Some (cache_put L key blob c)"

locale code_lru = lru L for L :: "('c, cache_key, u8 list) lru_ops"
begin

lemma evict_items:
  assumes "cc_bytes c = blob_total (lru_items L (cc_entries c))" "length (lru_items L (cc_entries c)) < n"
  shows "\<exists>m \<le> length (lru_items L (cc_entries c)). lru_items L (cc_entries (evict L n c)) = take m (lru_items L (cc_entries c))
     \<and> (\<forall>j \<le> length (lru_items L (cc_entries c)). blob_total (take j (lru_items L (cc_entries c))) \<le> cc_max_bytes c \<longrightarrow> j \<le> m)
     \<and> cc_bytes (evict L n c) = blob_total (lru_items L (cc_entries (evict L n c)))
     \<and> cc_bytes (evict L n c) \<le> cc_max_bytes c \<and> cc_max_bytes (evict L n c) = cc_max_bytes c
     \<and> lru_cap L (cc_entries (evict L n c)) = lru_cap L (cc_entries c)"
  using assms
proof (induction n arbitrary: c)
  case (Suc n)
  let ?xs = "lru_items L (cc_entries c)"
  show ?case
  proof (cases "cc_max_bytes c < cc_bytes c")
    case False
    then show ?thesis using Suc.prems by (intro exI [of _ "length ?xs"]) auto
  next
    case True
    then have ne: "?xs \<noteq> []" using Suc.prems(1) by auto
    obtain entries where pop: "lru_pop L (cc_entries c) = (entries, Some (last ?xs))" and items: "lru_items L entries = butlast ?xs"
      using items_pop [of "cc_entries c"] ne by (cases "lru_pop L (cc_entries c)") auto
    obtain k blob where kb: "last ?xs = (k, blob)" by (cases "last ?xs")
    define d where "d = c\<lparr> cc_entries := entries, cc_bytes := cc_bytes c - length blob \<rparr>"
    have step: "evict L (Suc n) c = evict L n d" using True pop kb by (simp add: d_def)
    have d: "lru_items L (cc_entries d) = butlast ?xs" "cc_max_bytes d = cc_max_bytes c"
      "lru_cap L (cc_entries d) = lru_cap L (cc_entries c)"
      using items cap_same(3) [of "cc_entries c"] pop by (simp_all add: d_def)
    have "cc_bytes d = blob_total (butlast ?xs)"
      using Suc.prems(1) total_butlast [OF ne] kb by (simp add: d_def)
    moreover have short: "length (butlast ?xs) < n" using Suc.prems(2) ne by (cases ?xs) auto
    ultimately obtain m where m: "m \<le> length (butlast ?xs)" "lru_items L (cc_entries (evict L n d)) = take m (butlast ?xs)"
        "\<forall>j \<le> length (butlast ?xs). blob_total (take j (butlast ?xs)) \<le> cc_max_bytes c \<longrightarrow> j \<le> m"
        "cc_bytes (evict L n d) = blob_total (lru_items L (cc_entries (evict L n d)))"
        "cc_bytes (evict L n d) \<le> cc_max_bytes c" "cc_max_bytes (evict L n d) = cc_max_bytes c"
        "lru_cap L (cc_entries (evict L n d)) = lru_cap L (cc_entries c)"
      using Suc.IH [of d] short d by auto
    have take: "j \<le> length ?xs - 1 \<Longrightarrow> take j (butlast ?xs) = take j ?xs" for j
      by (simp add: butlast_conv_take)
    have "j \<le> length (butlast ?xs)" if "j \<le> length ?xs" "blob_total (take j ?xs) \<le> cc_max_bytes c" for j
    proof -
      have "j \<noteq> length ?xs" using that(2) True Suc.prems(1) by auto
      then show ?thesis using that(1) by simp
    qed
    then show ?thesis
      unfolding step using m take by (intro exI [of _ m]) auto
  qed
qed simp

text \<open>The entries after a put, from the most recent one: the new one, then what was there.\<close>

lemma push_items:
  assumes inv: "code_inv L c" and push: "lru_push L (cc_entries c) key blob = (entries, dropped)"
  shows "lru_items L entries = take (lru_cap L (cc_entries c)) (touch key blob (lru_items L (cc_entries c)))"
    and "distinct (map fst (lru_items L entries))" and "lru_cap L entries = lru_cap L (cc_entries c)"
    and "(case dropped of Some (_, d) \<Rightarrow> cc_bytes c + length blob - length d | None \<Rightarrow> cc_bytes c + length blob)
      = blob_total (lru_items L entries)"
proof -
  let ?xs = "lru_items L (cc_entries c)"
  have d: "distinct (map fst ?xs)" and len: "length ?xs \<le> lru_cap L (cc_entries c)" "0 < lru_cap L (cc_entries c)"
    and bytes: "cc_bytes c = blob_total ?xs" using inv by (auto simp: code_inv_def)
  show cap: "lru_cap L entries = lru_cap L (cc_entries c)"
    using cap_same(2) [of "cc_entries c" key blob] push by simp
  have del: "length (AList.delete key ?xs) < length ?xs" if "map_of ?xs key = Some old" for old
    using that by (rule delete_shorter)
  consider (old) old where "map_of ?xs key = Some old" | (new) "map_of ?xs key = None" "length ?xs < lru_cap L (cc_entries c)"
    | (full) "map_of ?xs key = None" "length ?xs = lru_cap L (cc_entries c)" using len by force
  then have "lru_items L entries = take (lru_cap L (cc_entries c)) (touch key blob ?xs)
    \<and> distinct (map fst (lru_items L entries))
    \<and> (case dropped of Some (_, d) \<Rightarrow> cc_bytes c + length blob - length d | None \<Rightarrow> cc_bytes c + length blob)
      = blob_total (lru_items L entries)"
  proof cases
    case old
    have r: "dropped = Some (key, old)" "lru_items L entries = touch key blob ?xs"
      using items_push_old [OF old push] by auto
    have "length (touch key blob ?xs) \<le> lru_cap L (cc_entries c)"
      using del [OF old] len by (simp add: touch_def)
    moreover have "key \<notin> fst ` set (AList.delete key ?xs)" by (auto simp: AList.delete_eq)
    ultimately show ?thesis
      using r d total_delete [OF d old] bytes by (simp add: touch_def distinct_delete)
  next
    case new
    then show ?thesis
      using items_push_new [OF new push] d bytes by (auto simp: touch_def delete_fresh map_of_eq_None_iff)
  next
    case full
    have ne: "?xs \<noteq> []" using full(2) len(2) by auto
    have r: "dropped = Some (last ?xs)" "lru_items L entries = (key, blob) # butlast ?xs"
      using items_push_full [OF full len(2) push] by auto
    have "take (lru_cap L (cc_entries c)) (touch key blob ?xs) = (key, blob) # butlast ?xs"
      using full ne by (simp add: touch_def delete_fresh butlast_conv_take flip: full(2)) (cases ?xs; simp)
    moreover have "distinct (map fst ((key, blob) # butlast ?xs))"
      using d full(1) by (auto simp: map_butlast distinct_butlast map_of_eq_None_iff dest: in_set_butlastD)
    ultimately show ?thesis
      using r bytes total_butlast [OF ne] by (cases "last ?xs") simp
  qed
  then show "lru_items L entries = take (lru_cap L (cc_entries c)) (touch key blob ?xs)"
    "distinct (map fst (lru_items L entries))"
    "(case dropped of Some (_, d) \<Rightarrow> cc_bytes c + length blob - length d | None \<Rightarrow> cc_bytes c + length blob)
      = blob_total (lru_items L entries)" by blast+
qed

text \<open>
  A put that fits keeps the longest beginning of the new order of recency that the entries and the
  bytes of the cache allow.
\<close>

lemma put_items:
  fixes key :: cache_key
  assumes inv: "code_inv L c" and fits: "length blob \<le> cc_max_bytes c"
  defines "xs \<equiv> take (lru_cap L (cc_entries c)) (touch key blob (lru_items L (cc_entries c)))"
  shows "\<exists>m. lru_items L (cc_entries (cache_put L key blob c)) = take m xs \<and> 0 < m
      \<and> (\<forall>j \<le> length xs. blob_total (take j xs) \<le> cc_max_bytes c \<longrightarrow> j \<le> m)"
    and "code_inv L (cache_put L key blob c)"
proof -
  obtain entries dropped where push: "lru_push L (cc_entries c) key blob = (entries, dropped)"
    by (cases "lru_push L (cc_entries c) key blob")
  note P = push_items [OF inv push]
  define d where "d = c\<lparr> cc_entries := entries, cc_bytes :=
      (case dropped of Some (_, d) \<Rightarrow> cc_bytes c + length blob - length d | None \<Rightarrow> cc_bytes c + length blob) \<rparr>"
  have put: "cache_put L key blob c = evict L (Suc (lru_len L entries)) d"
    using fits push by (simp add: cache_put_def d_def Let_def del: evict.simps)
  have d: "lru_items L (cc_entries d) = xs" "cc_bytes d = blob_total (lru_items L (cc_entries d))"
    "cc_max_bytes d = cc_max_bytes c" "lru_cap L (cc_entries d) = lru_cap L (cc_entries c)"
    "length (lru_items L (cc_entries d)) < Suc (lru_len L entries)"
    using P by (simp_all add: d_def xs_def items_len)
  obtain m where m: "lru_items L (cc_entries (cache_put L key blob c)) = take m xs"
      "\<forall>j \<le> length xs. blob_total (take j xs) \<le> cc_max_bytes c \<longrightarrow> j \<le> m"
      "cc_bytes (cache_put L key blob c) = blob_total (take m xs)" "cc_bytes (cache_put L key blob c) \<le> cc_max_bytes c"
      "cc_max_bytes (cache_put L key blob c) = cc_max_bytes c"
      "lru_cap L (cc_entries (cache_put L key blob c)) = lru_cap L (cc_entries c)"
    using evict_items [OF d(2,5)] unfolding put d(1,3,4) by auto
  have cap: "0 < lru_cap L (cc_entries c)" using inv by (simp add: code_inv_def)
  then have "1 \<le> length xs" "blob_total (take 1 xs) \<le> cc_max_bytes c"
    using fits by (cases "lru_cap L (cc_entries c)"; simp add: xs_def touch_def)+
  then have "0 < m" using m(2) by force
  then show "\<exists>m. lru_items L (cc_entries (cache_put L key blob c)) = take m xs \<and> 0 < m
      \<and> (\<forall>j \<le> length xs. blob_total (take j xs) \<le> cc_max_bytes c \<longrightarrow> j \<le> m)"
    using m(1,2) by blast
  have "distinct (map fst xs)" using P(1,2) by (simp add: xs_def)
  then have "distinct (map fst (take m xs))" by (simp flip: take_map)
  moreover have "length (take m xs) \<le> lru_cap L (cc_entries c)" by (simp add: xs_def)
  ultimately show "code_inv L (cache_put L key blob c)"
    using m cap by (simp add: code_inv_def)
qed

lemma get_items:
  assumes inv: "code_inv L c"
  shows "code_inv L (fst (cache_get L key c))" and "snd (cache_get L key c) = map_of (lru_items L (cc_entries c)) key"
proof -
  let ?xs = "lru_items L (cc_entries c)"
  obtain entries r where get: "lru_get L (cc_entries c) key = (entries, r)" by (cases "lru_get L (cc_entries c) key")
  note G = items_get [OF get]
  show "snd (cache_get L key c) = map_of ?xs key" using G get by (simp add: cache_get_def)
  have d: "distinct (map fst ?xs)" using inv by (simp add: code_inv_def)
  have items: "lru_items L entries = (case map_of ?xs key of Some v \<Rightarrow> touch key v ?xs | None \<Rightarrow> ?xs)" using G by simp
  have "key \<notin> fst ` set (AList.delete key ?xs)" by (auto simp: AList.delete_eq)
  then have "distinct (map fst (lru_items L entries)) \<and> length (lru_items L entries) \<le> length ?xs
      \<and> blob_total (lru_items L entries) = blob_total ?xs"
    using items d total_delete [OF d] delete_shorter [of ?xs key]
    by (auto simp: touch_def distinct_delete Suc_le_eq split: option.splits)
  moreover have "lru_cap L entries = lru_cap L (cc_entries c)"
    using cap_same(1) [of "cc_entries c" key] get by simp
  ultimately show "code_inv L (fst (cache_get L key c))"
    using inv get by (auto simp: code_inv_def cache_get_def)
qed

lemma code_inv_step: "code_inv L c \<Longrightarrow> cache_step L c e = Some c' \<Longrightarrow> code_inv L c'"
proof (cases e)
  case (Put key blob)
  assume inv: "code_inv L c" and step: "cache_step L c e = Some c'"
  show ?thesis
  proof (cases "length blob \<le> cc_max_bytes c")
    case True
    then show ?thesis using put_items(2) [OF inv True, of key] step Put by simp
  next
    case False
    then show ?thesis using inv step Put by (simp add: cache_put_def)
  qed
qed (auto simp: get_items)

end

sublocale code_lru \<subseteq> code_runs: step_invariant "cache_step L" "\<lambda>c. \<exists>n budget. 0 < n \<and> c = cache_new L n budget" "code_inv L"
proof
  show "code_inv L c" if "\<exists>n budget. 0 < n \<and> c = cache_new L n budget" for c
    using that items_new by (auto simp: code_inv_def cache_new_def)
qed (rule code_inv_step)

context code_lru
begin

lemma code_reachable:
  assumes "0 < n" "runs (cache_step L) (cache_new L n budget) es = Some c"
  shows "code_inv L c"
  using code_runs.runs_inv [OF _ assms(2)] assms(1) by blast

end

interpretation listed_code: code_lru "list_lru :: (nat \<times> (cache_key \<times> u8 list) list, cache_key, u8 list) lru_ops"
  by unfold_locales

section \<open>Properties\<close>

text \<open>
  C24. The code cache never holds more bytes or entries than its budget and its count of bytes is exact;
  a blob over the budget changes nothing, and any other put is found by the next get, next to the
  longest run of the most recently used entries that still fits.
\<close>

theorem code_cache_bounded:
  assumes lru: "lru L" and cap: "0 < n" and run: "runs (cache_step L) (cache_new L n budget) es = Some c"
  shows "cc_bytes c = blob_total (lru_items L (cc_entries c)) \<and> cc_bytes c \<le> cc_max_bytes c
    \<and> length (lru_items L (cc_entries c)) \<le> lru_cap L (cc_entries c)
    \<and> (cc_max_bytes c < length blob \<longrightarrow> cache_put L key blob c = c)
    \<and> (length blob \<le> cc_max_bytes c \<longrightarrow>
         snd (cache_get L key (cache_put L key blob c)) = Some blob
         \<and> (\<exists>m. lru_items L (cc_entries (cache_put L key blob c)) =
                 take m (take (lru_cap L (cc_entries c)) (touch key blob (lru_items L (cc_entries c))))
               \<and> (\<forall>j \<le> length (take (lru_cap L (cc_entries c)) (touch key blob (lru_items L (cc_entries c)))).
                    blob_total (take j (take (lru_cap L (cc_entries c)) (touch key blob (lru_items L (cc_entries c))))) \<le> cc_max_bytes c
                    \<longrightarrow> j \<le> m)))"
proof -
  have L: "code_lru L" by (simp add: code_lru_def lru)
  have inv: "code_inv L c" by (rule code_lru.code_reachable [OF L cap run])
  show ?thesis
  proof (intro conjI impI)
    assume fits: "length blob \<le> cc_max_bytes c"
    let ?xs = "take (lru_cap L (cc_entries c)) (touch key blob (lru_items L (cc_entries c)))"
    obtain m where m: "lru_items L (cc_entries (cache_put L key blob c)) = take m ?xs" "0 < m"
        "\<forall>j \<le> length ?xs. blob_total (take j ?xs) \<le> cc_max_bytes c \<longrightarrow> j \<le> m"
      using code_lru.put_items(1) [OF L inv fits] by blast
    show "\<exists>m. lru_items L (cc_entries (cache_put L key blob c)) = take m ?xs
        \<and> (\<forall>j \<le> length ?xs. blob_total (take j ?xs) \<le> cc_max_bytes c \<longrightarrow> j \<le> m)" using m by blast
    have "0 < lru_cap L (cc_entries c)" using inv by (simp add: code_inv_def)
    then have "map_of (take m ?xs) key = Some blob"
      using m(2) by (cases "lru_cap L (cc_entries c)"; cases m) (simp_all add: touch_def)
    then show "snd (cache_get L key (cache_put L key blob c)) = Some blob"
      using code_lru.get_items(2) [OF L code_lru.put_items(2) [OF L inv fits]] m(1) by simp
  qed (use inv in \<open>auto simp: code_inv_def cache_put_def\<close>)
qed

theorem code_cache_bounded_witness:
  "snd (cache_get list_lru (''w'', 2) (cache_put list_lru (''w'', 2) [1, 2, 3]
     (cache_put list_lru (''w'', 1) [0] (cache_new list_lru 2 3)))) = Some [1, 2, 3]
   \<and> lru_items list_lru (cc_entries (cache_put list_lru (''w'', 2) [1, 2, 3]
     (cache_put list_lru (''w'', 1) [0] (cache_new list_lru 2 3)))) = [((''w'', 2), [1, 2, 3])]"
proof -
  let ?c = "cache_put list_lru (''w'', 1) [0] (cache_new list_lru 2 3)"
  have run: "runs (cache_step list_lru) (cache_new list_lru 2 3) [Put (''w'', 1) [0]] = Some ?c" by simp
  have fits: "length [1, 2, 3 :: u8] \<le> cc_max_bytes ?c" by (simp add: cache_put_def cache_new_def list_lru_def)
  have "lru_items list_lru (cc_entries (cache_put list_lru (''w'', 2) [1, 2, 3] ?c)) = [((''w'', 2), [1, 2, 3])]"
    by (simp add: cache_put_def cache_new_def list_lru_def)
  then show ?thesis
    using code_cache_bounded [OF listed_lru.lru_axioms _ run, of "[1, 2, 3]" "(''w'', 2)"] fits by simp
qed

end
