(* ===== verification/Store.thy ===== *)
theory Store
  imports Code_Cache Headers Durable_Registry
begin

text \<open>
  \<open>src/store.rs\<close>: what the runner reads about workers. Postgres is not part of the repository: the answer
  of each statement is an argument, a row or an error, and the definitions are what the code makes of
  the answers. The code cache is the one of \<open>Code_Cache\<close>, threaded as a state.
\<close>

section \<open>Data\<close>

datatype worker_identifier = ById string | ByName string

datatype code_type = Javascript | Typescript | Wasm | Snapshot

fun show_code_type :: "code_type \<Rightarrow> string" where
  "show_code_type Javascript = ''javascript''"
| "show_code_type Typescript = ''typescript''"
| "show_code_type Wasm = ''wasm''"
| "show_code_type Snapshot = ''snapshot''"

datatype binding_type = TVar | TSecret | TAssets | TStorage | TKv | TDatabase | TWorker | TD1 | TDurableObject

datatype database_provider = Platform | Postgres

record storage_config =
  st_id :: string
  st_bucket :: string
  st_prefix :: "string option"
  st_access_key_id :: string
  st_secret_access_key :: string
  st_endpoint :: string
  st_region :: "string option"
  st_public_url :: "string option"

record kv_config =
  kv_id :: string
  kv_name :: string

record database_config =
  db_id :: string
  db_name :: string
  db_provider :: database_provider
  db_connection_string :: "string option"
  db_schema_name :: "string option"
  db_max_rows :: int
  db_timeout_seconds :: int

record worker_binding_config =
  wb_id :: string
  wb_name :: "string option"

datatype binding =
    BVar string string
  | BSecret string string
  | BAssets string storage_config
  | BStorage string storage_config
  | BKv string kv_config
  | BDatabase string database_config
  | BD1 string string
  | BWorker string worker_binding_config
  | BDurableObject string namespace_config

text \<open>The name and the type of a resource binding, as the engine gets them.\<close>

datatype binding_info =
    IAssets string | IStorage string | IKv string | IDatabase string | ID1 string | IWorker string | IDurableObject string

fun to_binding_info :: "binding \<Rightarrow> binding_info option" where
  "to_binding_info (BVar _ _) = None"
| "to_binding_info (BSecret _ _) = None"
| "to_binding_info (BAssets key _) = Some (IAssets key)"
| "to_binding_info (BStorage key _) = Some (IStorage key)"
| "to_binding_info (BKv key _) = Some (IKv key)"
| "to_binding_info (BDatabase key _) = Some (IDatabase key)"
| "to_binding_info (BD1 key _) = Some (ID1 key)"
| "to_binding_info (BWorker key _) = Some (IWorker key)"
| "to_binding_info (BDurableObject key _) = Some (IDurableObject key)"

definition bindings_to_infos :: "binding list \<Rightarrow> binding_info list" where
  "bindings_to_infos bs = List.map_filter to_binding_info bs"

datatype worker_source = SourceBytes "u8 list" | SourceCached "u8 list"

fun source_bytes :: "worker_source \<Rightarrow> u8 list" where
  "source_bytes (SourceBytes bytes) = bytes"
| "source_bytes (SourceCached bytes) = bytes"

record worker_data =
  wd_id :: string
  wd_name :: "string option"
  wd_user_id :: string
  wd_env :: "(string \<times> string) list option"
  wd_code :: "u8 list"
  wd_code_type :: code_type
  wd_version :: int

record worker_meta =
  wm_id :: string
  wm_name :: "string option"
  wm_user_id :: string
  wm_code_type :: code_type
  wm_version :: int
  wm_env :: "string \<Rightarrow> string option"
  wm_bindings :: "binding list"
  wm_env_updated_at :: "int option"

record worker_with_bindings = worker_meta +
  wm_code :: worker_source

section \<open>Code\<close>

definition cached_code ::
  "('c, cache_key, u8 list) lru_ops \<Rightarrow> string \<Rightarrow> int \<Rightarrow> code_type \<Rightarrow> 'c code_cache \<Rightarrow> 'c code_cache \<times> u8 list option" where
  "cached_code L ident version ty c =
     (if ty \<notin> {Javascript, Typescript} then (c, None) else code_get L ident version c)"

definition into_worker :: "worker_meta \<Rightarrow> worker_source \<Rightarrow> worker_with_bindings" where
  "into_worker meta code = worker_meta.extend meta \<lparr> wm_code = code \<rparr>"

definition meta_cached_code ::
  "('c, cache_key, u8 list) lru_ops \<Rightarrow> worker_meta \<Rightarrow> 'c code_cache \<Rightarrow> 'c code_cache \<times> worker_source option" where
  "meta_cached_code L meta c =
     (let (c', blob) = cached_code L (wm_id meta) (wm_version meta) (wm_code_type meta) c
      in (c', map_option SourceCached blob))"

text \<open>\<open>deployment\<close> answers with the bytes of a deployment, or the error of its query.\<close>

definition fetch_deployment_code :: "(string \<Rightarrow> int \<Rightarrow> (u8 list, string) result) \<Rightarrow> string \<Rightarrow> int \<Rightarrow> u8 list option" where
  "fetch_deployment_code deployment worker_id version = ok_of (deployment worker_id version)"

definition with_code ::
  "('c, cache_key, u8 list) lru_ops \<Rightarrow> (string \<Rightarrow> int \<Rightarrow> (u8 list, string) result) \<Rightarrow> worker_meta
   \<Rightarrow> 'c code_cache \<Rightarrow> 'c code_cache \<times> worker_with_bindings option" where
  "with_code L deployment meta c =
     (case meta_cached_code L meta c of
        (c', Some code) \<Rightarrow> (c', Some (into_worker meta code))
      | (c', None) \<Rightarrow>
          (c', map_option (\<lambda>bytes. into_worker meta (SourceBytes bytes))
                 (fetch_deployment_code deployment (wm_id meta) (wm_version meta))))"

text \<open>The worker of a row that carries its code and its environment.\<close>

definition from_worker_data ::
  "('c, cache_key, u8 list) lru_ops \<Rightarrow> worker_data \<Rightarrow> 'c code_cache \<Rightarrow> 'c code_cache \<times> worker_with_bindings" where
  "from_worker_data L data c =
     (let env = (case wd_env data of Some pairs \<Rightarrow> pairs | None \<Rightarrow> []);
          (c', blob) = cached_code L (wd_id data) (wd_version data) (wd_code_type data) c
      in (c', \<lparr> wm_id = wd_id data, wm_name = wd_name data, wm_user_id = wd_user_id data,
                wm_code_type = wd_code_type data, wm_version = wd_version data, wm_env = map_of env,
                wm_bindings = map (\<lambda>(k, v). BVar k v) env, wm_env_updated_at = None,
                wm_code = (case blob of Some b \<Rightarrow> SourceCached b | None \<Rightarrow> SourceBytes (wd_code data)) \<rparr>))"

section \<open>Bindings\<close>

record basic_worker =
  bw_id :: string
  bw_name :: "string option"
  bw_user_id :: string
  bw_code_type :: code_type
  bw_version :: int

record binding_row =
  br_key :: string
  br_value :: "string option"
  br_type :: binding_type
  br_updated_at :: "int option"

record namespace_row =
  nr_id :: string
  nr_user_id :: string
  nr_worker_id :: string
  nr_class_name :: string
  nr_key :: "u8 list"

text \<open>The answers of the database to each statement.\<close>

record store_queries =
  q_worker :: "worker_identifier \<Rightarrow> (basic_worker, string) result"
  q_bindings :: "string \<Rightarrow> (binding_row list, string) result"
  q_storage :: "string \<Rightarrow> (storage_config, string) result"
  q_kv :: "string \<Rightarrow> (kv_config, string) result"
  q_database :: "string \<Rightarrow> (database_config, string) result"
  q_d1 :: "string \<Rightarrow> string \<Rightarrow> (string option, string) result"
  q_namespace :: "string \<Rightarrow> string option \<Rightarrow> (namespace_row option, string) result"
  q_worker_binding :: "string \<Rightarrow> (worker_binding_config, string) result"
  q_deployment :: "string \<Rightarrow> int \<Rightarrow> (u8 list, string) result"

definition fetch_storage_config :: "store_queries \<Rightarrow> string \<Rightarrow> storage_config option" where
  "fetch_storage_config Q config_id = ok_of (q_storage Q config_id)"

definition fetch_kv_config :: "store_queries \<Rightarrow> string \<Rightarrow> kv_config option" where
  "fetch_kv_config Q config_id = ok_of (q_kv Q config_id)"

definition fetch_database_config :: "store_queries \<Rightarrow> string \<Rightarrow> database_config option" where
  "fetch_database_config Q config_id = ok_of (q_database Q config_id)"

definition fetch_worker_binding_config :: "store_queries \<Rightarrow> string \<Rightarrow> worker_binding_config option" where
  "fetch_worker_binding_config Q worker_id = ok_of (q_worker_binding Q worker_id)"

definition fetch_d1_database :: "store_queries \<Rightarrow> string \<Rightarrow> string \<Rightarrow> string option" where
  "fetch_d1_database Q database_id user_id =
     (case q_d1 Q database_id user_id of Ok found \<Rightarrow> found | Err _ \<Rightarrow> None)"

text \<open>A key of another size than the 32 bytes of the schema gives no namespace.\<close>

definition fetch_durable_object_namespace ::
  "store_queries \<Rightarrow> string \<Rightarrow> string option \<Rightarrow> (namespace_config option, string) result" where
  "fetch_durable_object_namespace Q namespace_id user_id =
     and_then (q_namespace Q namespace_id user_id) (\<lambda>row.
       Ok (case row of
             None \<Rightarrow> None
           | Some r \<Rightarrow>
               if length (nr_key r) = 32
               then Some \<lparr> nc_id = nr_id r, nc_user_id = nr_user_id r, nc_worker_id = nr_worker_id r,
                           nc_class_name = nr_class_name r, nc_key = nr_key r \<rparr>
               else None))"

text \<open>The loop over the rows: the bindings, the environment and the last change of it.\<close>

definition row_binding :: "store_queries \<Rightarrow> string \<Rightarrow> binding_row \<Rightarrow> binding option" where
  "row_binding Q user_id row =
     (case br_value row of
        None \<Rightarrow> None
      | Some value \<Rightarrow>
          (case br_type row of
             TVar \<Rightarrow> Some (BVar (br_key row) value)
           | TSecret \<Rightarrow> Some (BSecret (br_key row) value)
           | TAssets \<Rightarrow> map_option (BAssets (br_key row)) (fetch_storage_config Q value)
           | TStorage \<Rightarrow> map_option (BStorage (br_key row)) (fetch_storage_config Q value)
           | TKv \<Rightarrow> map_option (BKv (br_key row)) (fetch_kv_config Q value)
           | TDatabase \<Rightarrow> map_option (BDatabase (br_key row)) (fetch_database_config Q value)
           | TD1 \<Rightarrow> map_option (BD1 (br_key row)) (fetch_d1_database Q value user_id)
           | TDurableObject \<Rightarrow>
               (case fetch_durable_object_namespace Q value (Some user_id) of
                  Ok (Some ns) \<Rightarrow> Some (BDurableObject (br_key row) ns)
                | _ \<Rightarrow> None)
           | TWorker \<Rightarrow> map_option (BWorker (br_key row)) (fetch_worker_binding_config Q value)))"

definition row_env :: "binding_row \<Rightarrow> (string \<Rightarrow> string option) \<Rightarrow> (string \<Rightarrow> string option)" where
  "row_env row env =
     (case (br_type row, br_value row) of
        (TVar, Some value) \<Rightarrow> env(br_key row \<mapsto> value)
      | (TSecret, Some value) \<Rightarrow> env(br_key row \<mapsto> value)
      | _ \<Rightarrow> env)"

fun binding_rows ::
  "store_queries \<Rightarrow> string \<Rightarrow> binding_row list \<Rightarrow> binding list \<times> (string \<Rightarrow> string option) \<times> int option
   \<Rightarrow> binding list \<times> (string \<Rightarrow> string option) \<times> int option" where
  "binding_rows Q user_id [] acc = acc"
| "binding_rows Q user_id (row # rows) (bs, env, at) =
     (let at' = (case br_updated_at row of
                   Some epoch \<Rightarrow> Some (case at of Some prev \<Rightarrow> max prev epoch | None \<Rightarrow> epoch)
                 | None \<Rightarrow> at);
          bs' = (case row_binding Q user_id row of Some b \<Rightarrow> bs @ [b] | None \<Rightarrow> bs)
      in binding_rows Q user_id rows (bs', row_env row env, at'))"

definition get_worker_meta :: "store_queries \<Rightarrow> worker_identifier \<Rightarrow> worker_meta option" where
  "get_worker_meta Q identifier =
     (case q_worker Q identifier of
        Err _ \<Rightarrow> None
      | Ok basic \<Rightarrow>
          let rows = (case q_bindings Q (bw_id basic) of Ok rows \<Rightarrow> rows | Err _ \<Rightarrow> []);
              (bs, env, at) = binding_rows Q (bw_user_id basic) rows ([], Map.empty, None)
          in Some \<lparr> wm_id = bw_id basic, wm_name = bw_name basic, wm_user_id = bw_user_id basic,
                    wm_code_type = bw_code_type basic, wm_version = bw_version basic,
                    wm_env = env, wm_bindings = bs, wm_env_updated_at = at \<rparr>)"

definition get_worker_with_bindings ::
  "('c, cache_key, u8 list) lru_ops \<Rightarrow> store_queries \<Rightarrow> worker_identifier \<Rightarrow> 'c code_cache
   \<Rightarrow> 'c code_cache \<times> worker_with_bindings option" where
  "get_worker_with_bindings L Q identifier c =
     (case get_worker_meta Q identifier of
        None \<Rightarrow> (c, None)
      | Some meta \<Rightarrow> with_code L (q_deployment Q) meta c)"

section \<open>Endpoints, assets and the resolution of a request\<close>

datatype endpoint_type = EWorker | EProject

datatype endpoint = EndpointWorker string | EndpointProject string

definition endpoint_by_name :: "(endpoint_type \<times> string option \<times> string option, string) result \<Rightarrow> endpoint option" where
  "endpoint_by_name row =
     (case row of
        Ok (EWorker, worker_id, _) \<Rightarrow> map_option EndpointWorker worker_id
      | Ok (EProject, _, project_id) \<Rightarrow> map_option EndpointProject project_id
      | Err _ \<Rightarrow> None)"

definition endpoint_from_domain :: "(string option \<times> string option, string) result \<Rightarrow> endpoint option" where
  "endpoint_from_domain row =
     (case row of
        Ok (Some worker_id, _) \<Rightarrow> Some (EndpointWorker worker_id)
      | Ok (None, project_id) \<Rightarrow> map_option EndpointProject project_id
      | Err _ \<Rightarrow> None)"

datatype backend_type = BackendWorker | BackendStorage

datatype asset_type = Immutable | Static | Prerendered

definition from_priority :: "int \<Rightarrow> asset_type option" where
  "from_priority priority =
     (if priority = 3 then Some Immutable else if priority = 2 then Some Static
      else if priority = 1 then Some Prerendered else None)"

definition set_cache_control :: "'h header_ops \<Rightarrow> asset_type \<Rightarrow> nat \<Rightarrow> 'h \<Rightarrow> 'h" where
  "set_cache_control H ty status h =
     (if ty \<noteq> Immutable \<or> \<not> (200 \<le> status \<and> status < 300) then h
      else if hm_get H h ''cache-control'' \<noteq> None then h
      else hm_insert H h ''cache-control'' ''public, max-age=31536000, immutable'')"

definition storage_path :: "asset_type \<Rightarrow> string \<Rightarrow> string" where
  "storage_path ty path =
     (if ty \<noteq> Prerendered then path
      else if path = [] then ''/index.html''
      else if ends_with path ''/'' then path @ ''index.html''
      else
        let name = (case rsplit_once_char (CHR ''/'') path of Some (_, n) \<Rightarrow> n | None \<Rightarrow> path) in
        if CHR ''.'' \<in> set name then path else path @ ''.html'')"

definition get_worker_id_from_domain :: "(string option \<times> string option, string) result \<Rightarrow> string option" where
  "get_worker_id_from_domain row =
     (case endpoint_from_domain row of Some (EndpointWorker worker_id) \<Rightarrow> Some worker_id | _ \<Rightarrow> None)"

record request_resolution =
  rr_worker_id :: "string option"
  rr_project_id :: "string option"
  rr_backend_type :: "backend_type option"
  rr_assets_storage_id :: "string option"
  rr_asset_type :: "asset_type option"

record resolution_row =
  ro_worker_id :: "string option"
  ro_project_id :: "string option"
  ro_backend_type :: "backend_type option"
  ro_assets_storage_id :: "string option"
  ro_priority :: "int option"

datatype sql_failure = RowNotFound | DatabaseError "string option" string | OtherFailure string

definition resolution_from :: "(resolution_row, sql_failure) result \<Rightarrow> (request_resolution option, sql_failure) result" where
  "resolution_from result =
     (case result of
        Ok row \<Rightarrow> Ok (Some \<lparr> rr_worker_id = ro_worker_id row, rr_project_id = ro_project_id row,
          rr_backend_type = ro_backend_type row, rr_assets_storage_id = ro_assets_storage_id row,
          rr_asset_type = Option.bind (ro_priority row) from_priority \<rparr>)
      | Err RowNotFound \<Rightarrow> Ok None
      | Err (DatabaseError code msg) \<Rightarrow> if code = Some ''22P02'' then Ok None else Err (DatabaseError code msg)
      | Err (OtherFailure msg) \<Rightarrow> Err (OtherFailure msg))"

section \<open>Properties\<close>

definition latest :: "int option \<Rightarrow> binding_row list \<Rightarrow> int option" where
  "latest at rows =
     (let epochs = List.map_filter br_updated_at rows @ (case at of Some e \<Rightarrow> [e] | None \<Rightarrow> []) in
      if epochs = [] then None else Some (Max (set epochs)))"

lemma Max_insert_max:
  fixes a b :: int
  shows "finite S \<Longrightarrow> Max (insert (max a b) S) = max a (Max (insert b S))"
  by (cases "S = {}") (simp_all add: max.assoc)

lemma latest_Cons:
  "latest (case br_updated_at row of
             Some epoch \<Rightarrow> Some (case at of Some prev \<Rightarrow> max prev epoch | None \<Rightarrow> epoch)
           | None \<Rightarrow> at) rows = latest at (row # rows)"
proof (cases "br_updated_at row")
  case None
  then show ?thesis by (simp add: latest_def List.map_filter_def)
next
  case (Some epoch)
  let ?S = "set (List.map_filter br_updated_at rows)"
  show ?thesis
  proof (cases at)
    case None
    then show ?thesis using Some by (simp add: latest_def map_filter_simps Un_insert_right)
  next
    case (Some prev)
    then show ?thesis
      using \<open>br_updated_at row = Some epoch\<close> Max_insert_max [of ?S epoch prev]
      by (simp add: latest_def map_filter_simps max.commute [of prev])
  qed
qed

lemma binding_rows_acc:
  "binding_rows Q user_id rows (bs, env, at) =
     (bs @ List.map_filter (row_binding Q user_id) rows, fold row_env rows env, latest at rows)"
proof (induction rows arbitrary: bs env at)
  case Nil
  then show ?case by (simp add: latest_def List.map_filter_def split: option.splits)
next
  case (Cons row rows)
  show ?case
    by (simp only: binding_rows.simps Let_def Cons latest_Cons) (simp add: map_filter_simps split: option.splits)
qed

lemma row_binding_namespace:
  assumes "row_binding Q user_id row = Some (BDurableObject key ns)"
  shows "\<exists>value r. q_namespace Q value (Some user_id) = Ok (Some r) \<and> ns = \<lparr> nc_id = nr_id r, nc_user_id = nr_user_id r,
      nc_worker_id = nr_worker_id r, nc_class_name = nr_class_name r, nc_key = nr_key r \<rparr> \<and> length (nr_key r) = 32"
  using assms
  by (auto simp: row_binding_def fetch_durable_object_namespace_def split: option.splits binding_type.splits result.splits if_splits)


definition demo_namespace_row :: namespace_row where
  "demo_namespace_row = \<lparr> nr_id = ''n'', nr_user_id = ''u'', nr_worker_id = ''w'', nr_class_name = ''C'', nr_key = replicate 32 7 \<rparr>"

definition demo_queries :: store_queries where
  "demo_queries = \<lparr>
     q_worker = (\<lambda>_. Ok \<lparr> bw_id = ''w'', bw_name = None, bw_user_id = ''u'', bw_code_type = Javascript, bw_version = 3 \<rparr>),
     q_bindings = (\<lambda>_. Ok [\<lparr> br_key = ''A'', br_value = Some ''1'', br_type = TVar, br_updated_at = Some 5 \<rparr>,
                          \<lparr> br_key = ''O'', br_value = Some ''n'', br_type = TDurableObject, br_updated_at = Some 9 \<rparr>]),
     q_storage = (\<lambda>_. Err ''none''), q_kv = (\<lambda>_. Err ''none''), q_database = (\<lambda>_. Err ''none''), q_d1 = (\<lambda>_ _. Ok None),
     q_namespace = (\<lambda>_ user. if user = Some ''u'' then Ok (Some demo_namespace_row) else Ok None),
     q_worker_binding = (\<lambda>_. Err ''none''), q_deployment = (\<lambda>_ _. Err ''none'') \<rparr>"


text \<open>
  A query for the bindings that fails is not told from a worker without bindings: the worker is read
  with none.
\<close>

lemma failed_bindings_read_as_none:
  "q_worker Q identifier = Ok basic \<Longrightarrow> q_bindings Q (bw_id basic) = Err e \<Longrightarrow>
     \<exists>meta. get_worker_meta Q identifier = Some meta \<and> wm_bindings meta = [] \<and> wm_env meta = Map.empty"
  by (simp add: get_worker_meta_def)



end
