(* ===== verification/Resolve_Cache.thy ===== *)
theory Resolve_Cache
  imports Store
begin

text \<open>
  \<open>src/resolve_cache.rs\<close>: the worker a request resolves to, kept in memory. Lookups run on many threads
  next to the listener of the database's notifications, so the model has a step per atomic operation:
  the loads of \<open>ENABLED\<close> and \<open>GENERATION\<close>, the lock of the cache, the query, and what the listener does. The
  database is a state that other programs change; a change is a notification for a connected listener.
\<close>

section \<open>The cache\<close>

definition TTL :: nat where
  "TTL = 60 * 1000"

record request_key =
  rk_host :: "string option"
  rk_worker_id :: "string option"
  rk_worker_name :: "string option"
  rk_path :: "string option"

record 'v timed =
  tm_value :: 'v
  tm_at :: nat

record ('r, 'w) resolve_lrus =
  lru_r :: "('r, request_key, request_resolution option timed) lru_ops"
  lru_w :: "('w, string, worker_meta timed) lru_ops"

record ('r, 'w) resolve_cache =
  rc_resolutions :: 'r
  rc_workers :: 'w

definition rcache_new :: "('r, 'w) resolve_lrus \<Rightarrow> nat \<Rightarrow> nat \<Rightarrow> ('r, 'w) resolve_cache" where
  "rcache_new L resolutions ws = \<lparr> rc_resolutions = lru_new (lru_r L) resolutions, rc_workers = lru_new (lru_w L) ws \<rparr>"

definition fresh_value :: "nat \<Rightarrow> 'v timed option \<Rightarrow> 'v option" where
  "fresh_value now e = (case e of Some t \<Rightarrow> if now - tm_at t < TTL then Some (tm_value t) else None | None \<Rightarrow> None)"

definition cached_resolution ::
  "('r, 'w) resolve_lrus \<Rightarrow> request_key \<Rightarrow> nat \<Rightarrow> ('r, 'w) resolve_cache \<Rightarrow> ('r, 'w) resolve_cache \<times> request_resolution option option" where
  "cached_resolution L key now c =
     (let (r1, e1) = lru_get (lru_r L) (rc_resolutions c) (key\<lparr> rk_path := None \<rparr>) in
      case fresh_value now e1 of
        Some v \<Rightarrow> (c\<lparr> rc_resolutions := r1 \<rparr>, Some v)
      | None \<Rightarrow>
          let (r2, e2) = lru_get (lru_r L) r1 key in (c\<lparr> rc_resolutions := r2 \<rparr>, fresh_value now e2))"

definition standalone :: "request_resolution option \<Rightarrow> bool" where
  "standalone v = (case v of Some r \<Rightarrow> rr_project_id r = None \<and> rr_worker_id r \<noteq> None | None \<Rightarrow> False)"

definition put_resolution ::
  "('r, 'w) resolve_lrus \<Rightarrow> request_key \<Rightarrow> request_resolution option \<Rightarrow> nat \<Rightarrow> ('r, 'w) resolve_cache \<Rightarrow> ('r, 'w) resolve_cache" where
  "put_resolution L key v now c =
     (let key' = (if standalone v then key\<lparr> rk_path := None \<rparr> else key) in
      c\<lparr> rc_resolutions := fst (lru_push (lru_r L) (rc_resolutions c) key' \<lparr> tm_value = v, tm_at = now \<rparr>) \<rparr>)"

definition cached_worker ::
  "('r, 'w) resolve_lrus \<Rightarrow> string \<Rightarrow> nat \<Rightarrow> ('r, 'w) resolve_cache \<Rightarrow> ('r, 'w) resolve_cache \<times> worker_meta option" where
  "cached_worker L worker_id now c =
     (let (w, e) = lru_get (lru_w L) (rc_workers c) worker_id in (c\<lparr> rc_workers := w \<rparr>, fresh_value now e))"

definition put_worker ::
  "('r, 'w) resolve_lrus \<Rightarrow> worker_meta \<Rightarrow> nat \<Rightarrow> ('r, 'w) resolve_cache \<Rightarrow> ('r, 'w) resolve_cache" where
  "put_worker L meta now c =
     c\<lparr> rc_workers := fst (lru_push (lru_w L) (rc_workers c) (wm_id meta) \<lparr> tm_value = meta, tm_at = now \<rparr>) \<rparr>"

definition rcache_clear :: "('r, 'w) resolve_lrus \<Rightarrow> ('r, 'w) resolve_cache \<Rightarrow> ('r, 'w) resolve_cache" where
  "rcache_clear L c = c\<lparr> rc_resolutions := lru_clear (lru_r L) (rc_resolutions c), rc_workers := lru_clear (lru_w L) (rc_workers c) \<rparr>"

text \<open>\<open>worker\<close> after it has the worker and its bindings: the code from the code cache, or else from the database.\<close>

definition worker_with_code ::
  "('c, cache_key, u8 list) lru_ops \<Rightarrow> store_queries \<Rightarrow> worker_meta \<Rightarrow> 'c code_cache \<Rightarrow> 'c code_cache \<times> worker_with_bindings option" where
  "worker_with_code L Q meta c =
     (case meta_cached_code L meta c of
        (c', Some code) \<Rightarrow> (c', Some (into_worker meta code))
      | (c', None) \<Rightarrow> with_code L (q_deployment Q) meta c')"

section \<open>Lookups and the listener\<close>

datatype wanted = WantResolution request_key | WantWorker string

datatype found = FoundResolution "request_resolution option" | FoundWorker worker_meta

text \<open>
  A lookup loads \<open>ENABLED\<close>, then \<open>GENERATION\<close>, looks in the cache, queries the database (the query starts at
  a number of changes and ends later), and stores what it read: it takes the lock, loads \<open>ENABLED\<close> and
  \<open>GENERATION\<close> again, and puts.
\<close>

datatype lookup_pc =
    LoadEnabled
  | LoadGeneration
  | LookUp
  | StartQuery
  | Query nat
  | LockCache found
  | StillGeneration found
  | PutCache found
  | Answered "found option"

record lookup =
  lk_wanted :: wanted
  lk_generation :: "nat option"
  lk_pc :: lookup_pc

text \<open>
  The listener: the top of its loop, the connection, the check of the triggers, the first invalidation
  and the switch on, the wait for notifications with an invalidation for each, and the invalidation
  and the pause after the connection is gone.
\<close>

datatype listener =
    ListenTop | Connecting | Checking | Bump1 | Clear1 | Enable | Receiving | Bump2 | Clear2 | BumpStop | ClearStop | Pause

record ('d, 'r, 'w) resolve_state =
  rs_enabled :: bool
  rs_generation :: nat
  rs_cache :: "('r, 'w) resolve_cache"
  rs_lock :: "nat option"
  rs_now :: nat
  rs_database :: 'd
  rs_changes :: nat
  rs_pending :: nat
  rs_listener :: listener
  rs_lookups :: "lookup list"

text \<open>What the database answers to a request and for a worker, with the law the cache relies on.\<close>

record 'd resolve_answers =
  answer_request :: "'d \<Rightarrow> request_key \<Rightarrow> request_resolution option"
  answer_worker :: "'d \<Rightarrow> string \<Rightarrow> worker_meta option"

definition path_free :: "'d resolve_answers \<Rightarrow> bool" where
  "path_free A \<longleftrightarrow> (\<forall>d key. standalone (answer_request A d key) \<longrightarrow>
     (\<forall>path. answer_request A d (key\<lparr> rk_path := Some path \<rparr>) = answer_request A d key))"

definition listening :: "listener \<Rightarrow> bool" where
  "listening l \<longleftrightarrow> l \<in> {Checking, Bump1, Clear1, Enable, Receiving, Bump2, Clear2}"

definition answers :: "'d resolve_answers \<Rightarrow> 'd \<Rightarrow> wanted \<Rightarrow> found option \<Rightarrow> bool" where
  "answers A d w f =
     (case w of
        WantResolution key \<Rightarrow> f = Some (FoundResolution (answer_request A d key))
      | WantWorker i \<Rightarrow> f = map_option FoundWorker (answer_worker A d i))"

definition kind_ok :: "wanted \<Rightarrow> found option \<Rightarrow> bool" where
  "kind_ok w f =
     (case (w, f) of
        (WantResolution _, Some (FoundWorker _)) \<Rightarrow> False
      | (WantWorker _, Some (FoundResolution _)) \<Rightarrow> False
      | (WantWorker i, Some (FoundWorker meta)) \<Rightarrow> wm_id meta = i
      | _ \<Rightarrow> True)"

definition set_lookup :: "nat \<Rightarrow> lookup \<Rightarrow> ('d, 'r, 'w) resolve_state \<Rightarrow> ('d, 'r, 'w) resolve_state" where
  "set_lookup i l s = s\<lparr> rs_lookups := (rs_lookups s)[i := l] \<rparr>"

definition at_pc :: "lookup_pc \<Rightarrow> lookup \<Rightarrow> lookup" where
  "at_pc pc l = l\<lparr> lk_pc := pc \<rparr>"

definition look_up ::
  "('r, 'w) resolve_lrus \<Rightarrow> wanted \<Rightarrow> nat \<Rightarrow> ('r, 'w) resolve_cache \<Rightarrow> ('r, 'w) resolve_cache \<times> found option" where
  "look_up L w now c =
     (case w of
        WantResolution key \<Rightarrow> let (c', v) = cached_resolution L key now c in (c', map_option FoundResolution v)
      | WantWorker i \<Rightarrow> let (c', v) = cached_worker L i now c in (c', map_option FoundWorker v))"

definition put_found ::
  "('r, 'w) resolve_lrus \<Rightarrow> wanted \<Rightarrow> found \<Rightarrow> nat \<Rightarrow> ('r, 'w) resolve_cache \<Rightarrow> ('r, 'w) resolve_cache" where
  "put_found L w f now c =
     (case (w, f) of
        (WantResolution key, FoundResolution v) \<Rightarrow> put_resolution L key v now c
      | (_, FoundWorker meta) \<Rightarrow> put_worker L meta now c
      | _ \<Rightarrow> c)"

text \<open>
  A step of lookup \<open>i\<close>; \<open>read\<close> is what its query read, or an error of the database (\<^const>\<open>None\<close>). A query that
  no change overlaps reads the answer of the database.
\<close>

fun lookup_step ::
  "('r, 'w) resolve_lrus \<Rightarrow> 'd resolve_answers \<Rightarrow> nat \<Rightarrow> found option option \<Rightarrow> ('d, 'r, 'w) resolve_state
   \<Rightarrow> ('d, 'r, 'w) resolve_state option" where
  "lookup_step L A i read s =
     (let l = rs_lookups s ! i; w = lk_wanted l; free = (rs_lock s = None) in
      case lk_pc l of
        LoadEnabled \<Rightarrow>
          Some (set_lookup i (if rs_enabled s then at_pc LoadGeneration l else (at_pc StartQuery l)\<lparr> lk_generation := None \<rparr>) s)
      | LoadGeneration \<Rightarrow> Some (set_lookup i ((at_pc LookUp l)\<lparr> lk_generation := Some (rs_generation s) \<rparr>) s)
      | LookUp \<Rightarrow>
          if free
          then let (c, f) = look_up L w (rs_now s) (rs_cache s) in
               Some (set_lookup i (at_pc (case f of Some v \<Rightarrow> Answered (Some v) | None \<Rightarrow> StartQuery) l) (s\<lparr> rs_cache := c \<rparr>))
          else None
      | StartQuery \<Rightarrow> Some (set_lookup i (at_pc (Query (rs_changes s)) l) s)
      | Query n \<Rightarrow>
          (case read of
             None \<Rightarrow> Some (set_lookup i (at_pc (Answered None) l) s)
           | Some f \<Rightarrow>
               if kind_ok w f \<and> (n = rs_changes s \<longrightarrow> answers A (rs_database s) w f)
               then Some (set_lookup i (at_pc (case f of Some v \<Rightarrow> LockCache v | None \<Rightarrow> Answered None) l) s)
               else None)
      | LockCache v \<Rightarrow>
          if free
          then if lk_generation l \<noteq> None \<and> rs_enabled s
               then Some (set_lookup i (at_pc (StillGeneration v) l) (s\<lparr> rs_lock := Some i \<rparr>))
               else Some (set_lookup i (at_pc (Answered (Some v)) l) s)
          else None
      | StillGeneration v \<Rightarrow>
          if lk_generation l = Some (rs_generation s)
          then Some (set_lookup i (at_pc (PutCache v) l) s)
          else Some (set_lookup i (at_pc (Answered (Some v)) l) (s\<lparr> rs_lock := None \<rparr>))
      | PutCache v \<Rightarrow>
          Some (set_lookup i (at_pc (Answered (Some v)) l)
                 (s\<lparr> rs_cache := put_found L w v (rs_now s) (rs_cache s), rs_lock := None \<rparr>))
      | Answered _ \<Rightarrow> None)"

text \<open>A step of the listener; \<open>ok\<close> tells whether the connection, the triggers or the wait gave what it needs.\<close>

definition listen_to :: "listener \<Rightarrow> ('d, 'r, 'w) resolve_state \<Rightarrow> ('d, 'r, 'w) resolve_state" where
  "listen_to l s = s\<lparr> rs_listener := l \<rparr>"

fun listener_step ::
  "('r, 'w) resolve_lrus \<Rightarrow> bool \<Rightarrow> ('d, 'r, 'w) resolve_state \<Rightarrow> ('d, 'r, 'w) resolve_state option" where
  "listener_step L ok s =
     (let bump = (\<lambda>l. Some (listen_to l (s\<lparr> rs_generation := rs_generation s + 1 \<rparr>)));
          clear = (\<lambda>l. if rs_lock s = None then Some (listen_to l (s\<lparr> rs_cache := rcache_clear L (rs_cache s) \<rparr>)) else None)
      in case rs_listener s of
        ListenTop \<Rightarrow> Some (listen_to Connecting (s\<lparr> rs_enabled := False \<rparr>))
      | Connecting \<Rightarrow> Some (if ok then listen_to Checking (s\<lparr> rs_pending := 0 \<rparr>) else listen_to BumpStop s)
      | Checking \<Rightarrow> Some (listen_to (if ok then Bump1 else BumpStop) s)
      | Bump1 \<Rightarrow> bump Clear1
      | Clear1 \<Rightarrow> clear Enable
      | Enable \<Rightarrow> Some (listen_to Receiving (s\<lparr> rs_enabled := True \<rparr>))
      | Receiving \<Rightarrow>
          if ok then if 0 < rs_pending s then Some (listen_to Bump2 (s\<lparr> rs_pending := rs_pending s - 1 \<rparr>)) else None
          else Some (listen_to BumpStop s)
      | Bump2 \<Rightarrow> bump Clear2
      | Clear2 \<Rightarrow> clear Receiving
      | BumpStop \<Rightarrow> bump ClearStop
      | ClearStop \<Rightarrow> clear Pause
      | Pause \<Rightarrow> Some (listen_to ListenTop s))"

datatype 'd resolve_event =
    NewLookup wanted
  | LookupStep nat "found option option"
  | ListenerStep bool
  | Change 'd
  | Tick nat

fun resolve_step ::
  "('r, 'w) resolve_lrus \<Rightarrow> 'd resolve_answers \<Rightarrow> ('d, 'r, 'w) resolve_state \<Rightarrow> 'd resolve_event \<Rightarrow> ('d, 'r, 'w) resolve_state option" where
  "resolve_step L A s (NewLookup w) =
     (if (case w of WantResolution key \<Rightarrow> rk_path key \<noteq> None | WantWorker _ \<Rightarrow> True)
      then Some (s\<lparr> rs_lookups := rs_lookups s @ [\<lparr> lk_wanted = w, lk_generation = None, lk_pc = LoadEnabled \<rparr>] \<rparr>) else None)"
| "resolve_step L A s (LookupStep i read) = (if i < length (rs_lookups s) then lookup_step L A i read s else None)"
| "resolve_step L A s (ListenerStep ok) = listener_step L ok s"
| "resolve_step L A s (Change d) =
     Some (s\<lparr> rs_database := d, rs_changes := rs_changes s + 1,
             rs_pending := (if listening (rs_listener s) then rs_pending s + 1 else rs_pending s) \<rparr>)"
| "resolve_step L A s (Tick n) = Some (s\<lparr> rs_now := rs_now s + n \<rparr>)"

definition resolve_start :: "('r, 'w) resolve_lrus \<Rightarrow> nat \<Rightarrow> nat \<Rightarrow> 'd \<Rightarrow> ('d, 'r, 'w) resolve_state" where
  "resolve_start L resolutions ws d =
     \<lparr> rs_enabled = False, rs_generation = 0, rs_cache = rcache_new L resolutions ws, rs_lock = None, rs_now = 0,
       rs_database = d, rs_changes = 0, rs_pending = 0, rs_listener = ListenTop, rs_lookups = [] \<rparr>"

section \<open>Invariant\<close>

text \<open>An entry is good when it is what the database answers to every request that reads it.\<close>

definition good_resolution :: "'d resolve_answers \<Rightarrow> 'd \<Rightarrow> request_key \<times> request_resolution option timed \<Rightarrow> bool" where
  "good_resolution A d e =
     (case rk_path (fst e) of
        Some _ \<Rightarrow> tm_value (snd e) = answer_request A d (fst e)
      | None \<Rightarrow> \<forall>path. tm_value (snd e) = answer_request A d ((fst e)\<lparr> rk_path := Some path \<rparr>))"

definition good_worker :: "'d resolve_answers \<Rightarrow> 'd \<Rightarrow> string \<times> worker_meta timed \<Rightarrow> bool" where
  "good_worker A d e \<longleftrightarrow> answer_worker A d (fst e) = Some (tm_value (snd e))"

definition good_cache :: "('r, 'w) resolve_lrus \<Rightarrow> 'd resolve_answers \<Rightarrow> 'd \<Rightarrow> ('r, 'w) resolve_cache \<Rightarrow> bool" where
  "good_cache L A d c \<longleftrightarrow> (\<forall>e \<in> set (lru_items (lru_r L) (rc_resolutions c)). good_resolution A d e)
     \<and> (\<forall>e \<in> set (lru_items (lru_w L) (rc_workers c)). good_worker A d e)"

definition cache_fits :: "('r, 'w) resolve_lrus \<Rightarrow> ('r, 'w) resolve_cache \<Rightarrow> bool" where
  "cache_fits L c \<longleftrightarrow> lru_fits (lru_r L) (rc_resolutions c) \<and> lru_fits (lru_w L) (rc_workers c)"

text \<open>A change is still to be told: a notification waits, or the listener took one and did not bump yet.\<close>

definition dirty :: "('d, 'r, 'w) resolve_state \<Rightarrow> bool" where
  "dirty s \<longleftrightarrow> 0 < rs_pending s \<or> rs_listener s = Bump2"

fun holds :: "lookup_pc \<Rightarrow> found option" where
  "holds (LockCache v) = Some v"
| "holds (StillGeneration v) = Some v"
| "holds (PutCache v) = Some v"
| "holds _ = None"

fun in_lock :: "lookup_pc \<Rightarrow> bool" where
  "in_lock (StillGeneration v) = True"
| "in_lock (PutCache v) = True"
| "in_lock _ = False"

definition wanted_ok :: "wanted \<Rightarrow> bool" where
  "wanted_ok w = (case w of WantResolution key \<Rightarrow> rk_path key \<noteq> None | WantWorker _ \<Rightarrow> True)"

definition connected :: "listener \<Rightarrow> bool" where
  "connected l \<longleftrightarrow> l \<in> {Clear1, Enable, Receiving, Bump2, Clear2}"

definition lookup_ok :: "'d resolve_answers \<Rightarrow> ('d, 'r, 'w) resolve_state \<Rightarrow> nat \<Rightarrow> lookup \<Rightarrow> bool" where
  "lookup_ok A s i l \<longleftrightarrow> wanted_ok (lk_wanted l)
     \<and> (in_lock (lk_pc l) \<longleftrightarrow> rs_lock s = Some i)
     \<and> (\<forall>g. lk_generation l = Some g \<longrightarrow> g \<le> rs_generation s)
     \<and> (\<forall>n. lk_pc l = Query n \<longrightarrow> n \<le> rs_changes s)
     \<and> (\<forall>v. holds (lk_pc l) = Some v \<longrightarrow> kind_ok (lk_wanted l) (Some v))
     \<and> (\<forall>v. lk_pc l = PutCache v \<and> rs_listener s \<in> {Enable, Receiving, Bump2} \<longrightarrow> lk_generation l = Some (rs_generation s))
     \<and> (connected (rs_listener s) \<and> lk_generation l = Some (rs_generation s) \<and> \<not> dirty s \<longrightarrow>
          (\<forall>n. lk_pc l = Query n \<longrightarrow> n = rs_changes s)
          \<and> (\<forall>v. holds (lk_pc l) = Some v \<longrightarrow> answers A (rs_database s) (lk_wanted l) (Some v)))"

definition resolve_inv :: "('r, 'w) resolve_lrus \<Rightarrow> 'd resolve_answers \<Rightarrow> ('d, 'r, 'w) resolve_state \<Rightarrow> bool" where
  "resolve_inv L A s \<longleftrightarrow>
     (\<forall>i < length (rs_lookups s). lookup_ok A s i (rs_lookups s ! i))
     \<and> (\<forall>i. rs_lock s = Some i \<longrightarrow> i < length (rs_lookups s))
     \<and> cache_fits L (rs_cache s)
     \<and> (rs_listener s \<in> {Enable, Receiving} \<and> rs_pending s = 0 \<longrightarrow> good_cache L A (rs_database s) (rs_cache s))"

lemma resolve_invD:
  assumes "resolve_inv L A s"
  shows "i < length (rs_lookups s) \<Longrightarrow> lookup_ok A s i (rs_lookups s ! i)"
    and "rs_lock s = Some i \<Longrightarrow> i < length (rs_lookups s)"
    and "cache_fits L (rs_cache s)"
    and "rs_listener s \<in> {Enable, Receiving} \<Longrightarrow> rs_pending s = 0 \<Longrightarrow> good_cache L A (rs_database s) (rs_cache s)"
  using assms by (auto simp: resolve_inv_def)

text \<open>A lookup moves and the rest of the state is what the other lookups see of it.\<close>

lemma lookup_moves:
  assumes inv: "resolve_inv L A s" and i: "i < length (rs_lookups s)"
    and same: "rs_generation t = rs_generation s" "rs_changes t = rs_changes s" "rs_listener t = rs_listener s"
      "rs_pending t = rs_pending s" "rs_database t = rs_database s" "rs_lookups t = rs_lookups s"
    and lock: "rs_lock t = rs_lock s \<or> rs_lock s = Some i \<and> rs_lock t = None \<or> rs_lock s = None \<and> rs_lock t = Some i"
    and l': "lookup_ok A t i l'" and c: "cache_fits L (rs_cache t)"
    and g: "rs_listener s \<in> {Enable, Receiving} \<Longrightarrow> rs_pending s = 0 \<Longrightarrow> good_cache L A (rs_database s) (rs_cache t)"
  shows "resolve_inv L A (set_lookup i l' t)"
proof -
  have dirty: "dirty (set_lookup i l' t) = dirty s" "dirty t = dirty s" using same by (simp_all add: dirty_def set_lookup_def)
  have other: "lookup_ok A (set_lookup i l' t) j (rs_lookups s ! j)" if "j < length (rs_lookups s)" "j \<noteq> i" for j
  proof -
    have ok: "lookup_ok A s j (rs_lookups s ! j)" by (rule resolve_invD(1) [OF inv that(1)])
    have "rs_lock t = Some j \<longleftrightarrow> rs_lock s = Some j" using lock that(2) by auto
    then show ?thesis using ok same dirty by (simp add: lookup_ok_def set_lookup_def)
  qed
  have self: "lookup_ok A (set_lookup i l' t) i l'" using l' dirty by (simp add: lookup_ok_def set_lookup_def)
  show ?thesis
    unfolding resolve_inv_def
  proof (intro conjI allI impI)
    show "lookup_ok A (set_lookup i l' t) j (rs_lookups (set_lookup i l' t) ! j)"
      if "j < length (rs_lookups (set_lookup i l' t))" for j
      using that other [of j] self i same by (cases "j = i") (simp_all add: set_lookup_def)
    show "j < length (rs_lookups (set_lookup i l' t))" if "rs_lock (set_lookup i l' t) = Some j" for j
      using that lock i same resolve_invD(2) [OF inv, of j] by (auto simp: set_lookup_def)
    show "cache_fits L (rs_cache (set_lookup i l' t))" using c by (simp add: set_lookup_def)
    show "good_cache L A (rs_database (set_lookup i l' t)) (rs_cache (set_lookup i l' t))"
      if "rs_listener (set_lookup i l' t) \<in> {Enable, Receiving} \<and> rs_pending (set_lookup i l' t) = 0"
      using that g same by (simp add: set_lookup_def)
  qed
qed

end
