(* ===== verification/Resolve_Props.thy ===== *)
theory Resolve_Props
  imports Resolve_Cache
begin

text \<open>
  The resolve cache, its properties: the cache agrees with the database whenever the listener is
  connected and has no notification to take, and the window after a lost connection in which it may not.
\<close>

locale resolve_caches =
  fixes L :: "('r, 'w) resolve_lrus" and A :: "'d resolve_answers"
  assumes lru_resolutions: "lru (lru_r L)" and lru_workers: "lru (lru_w L)" and answers_path_free: "path_free A"
begin

lemma lru_get_r:
  assumes "lru_get (lru_r L) c k = (c', e)"
  shows "set (lru_items (lru_r L) c') \<subseteq> set (lru_items (lru_r L) c)" "lru_fits (lru_r L) c \<Longrightarrow> lru_fits (lru_r L) c'"
    "fresh_value now e = Some v \<Longrightarrow> \<exists>t. (k, t) \<in> set (lru_items (lru_r L) c) \<and> tm_value t = v"
  using lru.get_subset [OF lru_resolutions assms]
  by (auto simp: fresh_value_def split: option.splits if_splits)

lemma lru_get_w:
  assumes "lru_get (lru_w L) c k = (c', e)"
  shows "set (lru_items (lru_w L) c') \<subseteq> set (lru_items (lru_w L) c)" "lru_fits (lru_w L) c \<Longrightarrow> lru_fits (lru_w L) c'"
    "fresh_value now e = Some v \<Longrightarrow> \<exists>t. (k, t) \<in> set (lru_items (lru_w L) c) \<and> tm_value t = v"
  using lru.get_subset [OF lru_workers assms]
  by (auto simp: fresh_value_def split: option.splits if_splits)

lemma good_cache_subset:
  assumes "good_cache L A d c"
    and "set (lru_items (lru_r L) (rc_resolutions c')) \<subseteq> set (lru_items (lru_r L) (rc_resolutions c))"
    and "set (lru_items (lru_w L) (rc_workers c')) \<subseteq> set (lru_items (lru_w L) (rc_workers c))"
  shows "good_cache L A d c'"
  using assms by (auto simp: good_cache_def)

lemma cached_resolution_cache:
  assumes "cached_resolution L key now c = (c', r)"
  shows "cache_fits L c \<Longrightarrow> cache_fits L c'" and "good_cache L A d c \<Longrightarrow> good_cache L A d c'"
    and "good_cache L A d c \<Longrightarrow> rk_path key = Some path \<Longrightarrow> r = Some v \<Longrightarrow> v = answer_request A d key"
proof -
  obtain r1 e1 where g1: "lru_get (lru_r L) (rc_resolutions c) (key\<lparr> rk_path := None \<rparr>) = (r1, e1)" by fastforce
  obtain r2 e2 where g2: "lru_get (lru_r L) r1 key = (r2, e2)" by fastforce
  note G1 = lru_get_r [OF g1] and G2 = lru_get_r [OF g2]
  have c': "c' = c\<lparr> rc_resolutions := r1 \<rparr> \<or> c' = c\<lparr> rc_resolutions := r2 \<rparr>"
    using assms g1 g2 by (auto simp: cached_resolution_def split: option.splits)
  show "cache_fits L c \<Longrightarrow> cache_fits L c'"
    using c' G1(2) G2(2) by (auto simp: cache_fits_def)
  show "good_cache L A d c \<Longrightarrow> good_cache L A d c'"
    using c' G1(1) G2(1) by (elim good_cache_subset) auto
  assume good: "good_cache L A d c" and path: "rk_path key = Some path" and v: "r = Some v"
  have same: "key\<lparr> rk_path := None, rk_path := Some path \<rparr> = key" using path by simp
  have "(\<exists>t. (key\<lparr> rk_path := None \<rparr>, t) \<in> set (lru_items (lru_r L) (rc_resolutions c)) \<and> tm_value t = v)
      \<or> (\<exists>t. (key, t) \<in> set (lru_items (lru_r L) (rc_resolutions c)) \<and> tm_value t = v)"
    using assms g1 g2 v G1(1) G1(3) [of now v] G2(3) [of now v]
    by (auto simp: cached_resolution_def split: option.splits)
  then show "v = answer_request A d key"
  proof (elim disjE exE conjE)
    fix t
    assume t: "(key\<lparr> rk_path := None \<rparr>, t) \<in> set (lru_items (lru_r L) (rc_resolutions c))" "tm_value t = v"
    then have "good_resolution A d (key\<lparr> rk_path := None \<rparr>, t)" using good by (simp add: good_cache_def)
    then have "v = answer_request A d (key\<lparr> rk_path := None, rk_path := Some path \<rparr>)"
      using t(2) by (simp add: good_resolution_def)
    then show ?thesis unfolding same .
  next
    fix t
    assume t: "(key, t) \<in> set (lru_items (lru_r L) (rc_resolutions c))" "tm_value t = v"
    then have "good_resolution A d (key, t)" using good by (simp add: good_cache_def)
    then show ?thesis using t(2) path by (simp add: good_resolution_def)
  qed
qed

lemma cached_worker_cache:
  assumes "cached_worker L i now c = (c', r)"
  shows "cache_fits L c \<Longrightarrow> cache_fits L c'" and "good_cache L A d c \<Longrightarrow> good_cache L A d c'"
    and "good_cache L A d c \<Longrightarrow> r = Some v \<Longrightarrow> answer_worker A d i = Some v"
proof -
  obtain w e where g: "lru_get (lru_w L) (rc_workers c) i = (w, e)" by fastforce
  note G = lru_get_w [OF g]
  have c': "c' = c\<lparr> rc_workers := w \<rparr>" "r = fresh_value now e" using assms g by (auto simp: cached_worker_def)
  show "cache_fits L c \<Longrightarrow> cache_fits L c'" using c' G(2) by (auto simp: cache_fits_def)
  show "good_cache L A d c \<Longrightarrow> good_cache L A d c'" using c' G(1) by (elim good_cache_subset) auto
  show "good_cache L A d c \<Longrightarrow> r = Some v \<Longrightarrow> answer_worker A d i = Some v"
    using c'(2) G(3) [of now v] by (auto simp: good_cache_def good_worker_def)
qed

lemma look_up_cache:
  assumes "look_up L w now c = (c', f)"
  shows "cache_fits L c \<Longrightarrow> cache_fits L c'" and "good_cache L A d c \<Longrightarrow> good_cache L A d c'"
    and "good_cache L A d c \<Longrightarrow> wanted_ok w \<Longrightarrow> f = Some v \<Longrightarrow> answers A d w (Some v)"
proof -
  show "cache_fits L c \<Longrightarrow> cache_fits L c'" "good_cache L A d c \<Longrightarrow> good_cache L A d c'"
    using assms cached_resolution_cache(1,2) cached_worker_cache(1,2)
    by (auto simp: look_up_def split: wanted.splits prod.splits)
  assume good: "good_cache L A d c" and w: "wanted_ok w" and v: "f = Some v"
  show "answers A d w (Some v)"
  proof (cases w)
    case (WantResolution key)
    obtain r where r: "cached_resolution L key now c = (c', r)" "f = map_option FoundResolution r"
      using assms WantResolution by (auto simp: look_up_def split: prod.splits)
    obtain path where path: "rk_path key = Some path" using w WantResolution by (auto simp: wanted_ok_def)
    obtain u where u: "r = Some u" "v = FoundResolution u" using r(2) v by (cases r) auto
    show ?thesis using cached_resolution_cache(3) [OF r(1) good path u(1)] u(2) WantResolution by (simp add: answers_def)
  next
    case (WantWorker i)
    obtain r where r: "cached_worker L i now c = (c', r)" "f = map_option FoundWorker r"
      using assms WantWorker by (auto simp: look_up_def split: prod.splits)
    obtain u where u: "r = Some u" "v = FoundWorker u" using r(2) v by (cases r) auto
    show ?thesis using cached_worker_cache(3) [OF r(1) good u(1)] u(2) WantWorker by (simp add: answers_def)
  qed
qed

lemma put_resolution_cache:
  assumes fits: "cache_fits L c" and path: "rk_path key \<noteq> None"
  shows "cache_fits L (put_resolution L key v now c)"
    and "good_cache L A d c \<Longrightarrow> v = answer_request A d key \<Longrightarrow> good_cache L A d (put_resolution L key v now c)"
proof -
  define key' where "key' = (if standalone v then key\<lparr> rk_path := None \<rparr> else key)"
  obtain r p where push: "lru_push (lru_r L) (rc_resolutions c) key' \<lparr> tm_value = v, tm_at = now \<rparr> = (r, p)" by fastforce
  have put: "put_resolution L key v now c = c\<lparr> rc_resolutions := r \<rparr>"
    using push by (simp add: put_resolution_def key'_def Let_def)
  have P: "set (lru_items (lru_r L) r) \<subseteq> insert (key', \<lparr> tm_value = v, tm_at = now \<rparr>) (set (lru_items (lru_r L) (rc_resolutions c)))"
    "lru_fits (lru_r L) r"
    using lru.push_subset [OF lru_resolutions _ push] fits by (auto simp: cache_fits_def)
  show "cache_fits L (put_resolution L key v now c)" using P(2) fits by (simp add: put cache_fits_def)
  assume good: "good_cache L A d c" and v: "v = answer_request A d key"
  have "good_resolution A d (key', \<lparr> tm_value = v, tm_at = now \<rparr>)"
  proof (cases "standalone v")
    case True
    then have "answer_request A d (key\<lparr> rk_path := Some p \<rparr>) = v" for p
      using answers_path_free v by (auto simp: path_free_def)
    then show ?thesis using True by (simp add: key'_def good_resolution_def)
  next
    case False
    then show ?thesis using path v by (auto simp: key'_def good_resolution_def)
  qed
  then show "good_cache L A d (put_resolution L key v now c)"
    using good P(1) by (auto simp: put good_cache_def)
qed

lemma put_worker_cache:
  assumes fits: "cache_fits L c"
  shows "cache_fits L (put_worker L meta now c)"
    and "good_cache L A d c \<Longrightarrow> answer_worker A d (wm_id meta) = Some meta \<Longrightarrow> good_cache L A d (put_worker L meta now c)"
proof -
  obtain r p where push: "lru_push (lru_w L) (rc_workers c) (wm_id meta) \<lparr> tm_value = meta, tm_at = now \<rparr> = (r, p)" by fastforce
  have put: "put_worker L meta now c = c\<lparr> rc_workers := r \<rparr>" using push by (simp add: put_worker_def)
  have P: "set (lru_items (lru_w L) r) \<subseteq> insert (wm_id meta, \<lparr> tm_value = meta, tm_at = now \<rparr>) (set (lru_items (lru_w L) (rc_workers c)))"
    "lru_fits (lru_w L) r"
    using lru.push_subset [OF lru_workers _ push] fits by (auto simp: cache_fits_def)
  show "cache_fits L (put_worker L meta now c)" using P(2) fits by (simp add: put cache_fits_def)
  assume "good_cache L A d c" "answer_worker A d (wm_id meta) = Some meta"
  then show "good_cache L A d (put_worker L meta now c)" using P(1) by (auto simp: put good_cache_def good_worker_def)
qed

lemma put_found_cache:
  assumes fits: "cache_fits L c" and w: "wanted_ok w" "kind_ok w (Some v)"
  shows "cache_fits L (put_found L w v now c)"
    and "good_cache L A d c \<Longrightarrow> answers A d w (Some v) \<Longrightarrow> good_cache L A d (put_found L w v now c)"
proof -
  have "cache_fits L (put_found L w v now c)
      \<and> (good_cache L A d c \<and> answers A d w (Some v) \<longrightarrow> good_cache L A d (put_found L w v now c))"
  proof (cases w)
    case (WantResolution key)
    then obtain u where u: "v = FoundResolution u" using w(2) by (cases v) (auto simp: kind_ok_def)
    have path: "rk_path key \<noteq> None" using w(1) WantResolution by (simp add: wanted_ok_def)
    show ?thesis
      using put_resolution_cache [OF fits path] WantResolution u by (auto simp: put_found_def answers_def)
  next
    case (WantWorker i)
    then obtain u where u: "v = FoundWorker u" "wm_id u = i" using w(2) by (cases v) (auto simp: kind_ok_def)
    show ?thesis
      using put_worker_cache [OF fits] WantWorker u by (auto simp: put_found_def answers_def dest: sym [of "Some (FoundWorker u)"])
  qed
  then show "cache_fits L (put_found L w v now c)"
    "good_cache L A d c \<Longrightarrow> answers A d w (Some v) \<Longrightarrow> good_cache L A d (put_found L w v now c)" by blast+
qed

lemma rcache_clear_cache:
  "cache_fits L c \<Longrightarrow> cache_fits L (rcache_clear L c)" "good_cache L A d (rcache_clear L c)"
  by (simp_all add: cache_fits_def good_cache_def rcache_clear_def lru.clear_fits [OF lru_resolutions]
      lru.clear_fits [OF lru_workers] lru.items_clear [OF lru_resolutions] lru.items_clear [OF lru_workers])

lemma lookup_step_inv:
  assumes inv: "resolve_inv L A s" and i: "i < length (rs_lookups s)" and step: "lookup_step L A i read s = Some s'"
  shows "resolve_inv L A s'"
proof -
  define l where "l = rs_lookups s ! i"
  have ok: "lookup_ok A s i l" unfolding l_def by (rule resolve_invD(1) [OF inv i])
  have fits: "cache_fits L (rs_cache s)" by (rule resolve_invD(3) [OF inv])
  note good = resolve_invD(4) [OF inv]
  note move = lookup_moves [OF inv i]
  show ?thesis
  proof (cases "lk_pc l")
    case LoadEnabled
    have s': "s' = set_lookup i (if rs_enabled s then at_pc LoadGeneration l else (at_pc StartQuery l)\<lparr> lk_generation := None \<rparr>) s"
      using step LoadEnabled by (auto simp: l_def Let_def)
    show ?thesis unfolding s'
      by (rule move) (use ok fits good LoadEnabled in \<open>simp_all add: lookup_ok_def at_pc_def\<close>)
  next
    case LoadGeneration
    have s': "s' = set_lookup i ((at_pc LookUp l)\<lparr> lk_generation := Some (rs_generation s) \<rparr>) s"
      using step LoadGeneration by (auto simp: l_def Let_def)
    show ?thesis unfolding s'
      by (rule move) (use ok fits good LoadGeneration in \<open>simp_all add: lookup_ok_def at_pc_def\<close>)
  next
    case LookUp
    obtain c f where look: "look_up L (lk_wanted l) (rs_now s) (rs_cache s) = (c, f)" by fastforce
    have s': "s' = set_lookup i (at_pc (case f of Some v \<Rightarrow> Answered (Some v) | None \<Rightarrow> StartQuery) l) (s\<lparr> rs_cache := c \<rparr>)"
      using step LookUp look by (auto simp: l_def Let_def split: if_splits)
    note C = look_up_cache(1,2) [OF look]
    have "lookup_ok A (s\<lparr> rs_cache := c \<rparr>) i (at_pc (case f of Some v \<Rightarrow> Answered (Some v) | None \<Rightarrow> StartQuery) l)"
      using ok LookUp by (simp add: lookup_ok_def at_pc_def dirty_def split: option.splits)
    then show ?thesis unfolding s'
      by (rule move [rotated 7]) (use fits good C in \<open>simp_all\<close>)
  next
    case StartQuery
    have s': "s' = set_lookup i (at_pc (Query (rs_changes s)) l) s" using step StartQuery by (auto simp: l_def Let_def)
    show ?thesis unfolding s'
      by (rule move) (use ok fits good StartQuery in \<open>simp_all add: lookup_ok_def at_pc_def\<close>)
  next
    case (Query n)
    show ?thesis
    proof (cases read)
      case None
      have s': "s' = set_lookup i (at_pc (Answered None) l) s" using step Query None by (auto simp: l_def Let_def)
      show ?thesis unfolding s'
        by (rule move) (use ok fits good Query in \<open>simp_all add: lookup_ok_def at_pc_def\<close>)
    next
      case (Some f)
      have s': "s' = set_lookup i (at_pc (case f of Some v \<Rightarrow> LockCache v | None \<Rightarrow> Answered None) l) s"
        and f: "kind_ok (lk_wanted l) f" "n = rs_changes s \<longrightarrow> answers A (rs_database s) (lk_wanted l) f"
        using step Query Some by (auto simp: l_def Let_def split: if_splits)
      have "lookup_ok A s i (at_pc (case f of Some v \<Rightarrow> LockCache v | None \<Rightarrow> Answered None) l)"
        using ok Query f by (cases f) (simp_all add: lookup_ok_def at_pc_def)
      then show ?thesis unfolding s' by (rule move [rotated 7]) (use fits good in \<open>simp_all\<close>)
    qed
  next
    case (LockCache v)
    have free: "rs_lock s = None" using step LockCache by (auto simp: l_def Let_def split: if_splits)
    show ?thesis
    proof (cases "lk_generation l \<noteq> None \<and> rs_enabled s")
      case True
      have s': "s' = set_lookup i (at_pc (StillGeneration v) l) (s\<lparr> rs_lock := Some i \<rparr>)"
        using step LockCache True free by (auto simp: l_def Let_def)
      have "lookup_ok A (s\<lparr> rs_lock := Some i \<rparr>) i (at_pc (StillGeneration v) l)"
        using ok LockCache by (simp add: lookup_ok_def at_pc_def dirty_def)
      then show ?thesis unfolding s' by (rule move [rotated 7]) (use fits good free in \<open>simp_all\<close>)
    next
      case False
      have s': "s' = set_lookup i (at_pc (Answered (Some v)) l) s"
        using step LockCache False free by (auto simp: l_def Let_def)
      show ?thesis unfolding s'
        by (rule move) (use ok fits good LockCache in \<open>simp_all add: lookup_ok_def at_pc_def\<close>)
    qed
  next
    case (StillGeneration v)
    have locked: "rs_lock s = Some i" using ok StillGeneration by (simp add: lookup_ok_def)
    show ?thesis
    proof (cases "lk_generation l = Some (rs_generation s)")
      case True
      have s': "s' = set_lookup i (at_pc (PutCache v) l) s" using step StillGeneration True by (auto simp: l_def Let_def)
      show ?thesis unfolding s'
        by (rule move) (use ok fits good StillGeneration True in \<open>simp_all add: lookup_ok_def at_pc_def\<close>)
    next
      case False
      have s': "s' = set_lookup i (at_pc (Answered (Some v)) l) (s\<lparr> rs_lock := None \<rparr>)"
        using step StillGeneration False by (auto simp: l_def Let_def)
      have "lookup_ok A (s\<lparr> rs_lock := None \<rparr>) i (at_pc (Answered (Some v)) l)"
        using ok StillGeneration by (simp add: lookup_ok_def at_pc_def dirty_def)
      then show ?thesis unfolding s' by (rule move [rotated 7]) (use fits good locked in \<open>simp_all\<close>)
    qed
  next
    case (PutCache v)
    have locked: "rs_lock s = Some i" using ok PutCache by (simp add: lookup_ok_def)
    let ?c = "put_found L (lk_wanted l) v (rs_now s) (rs_cache s)"
    have s': "s' = set_lookup i (at_pc (Answered (Some v)) l) (s\<lparr> rs_cache := ?c, rs_lock := None \<rparr>)"
      using step PutCache by (auto simp: l_def Let_def)
    have w: "wanted_ok (lk_wanted l)" "kind_ok (lk_wanted l) (Some v)" using ok PutCache by (simp_all add: lookup_ok_def)
    have "lookup_ok A (s\<lparr> rs_cache := ?c, rs_lock := None \<rparr>) i (at_pc (Answered (Some v)) l)"
      using ok PutCache by (simp add: lookup_ok_def at_pc_def dirty_def)
    moreover have "good_cache L A (rs_database s) ?c" if "rs_listener s \<in> {Enable, Receiving}" "rs_pending s = 0"
    proof -
      have "connected (rs_listener s)" "\<not> dirty s" using that by (auto simp: connected_def dirty_def)
      moreover have "lk_generation l = Some (rs_generation s)" using ok PutCache that(1) by (auto simp: lookup_ok_def)
      ultimately have "answers A (rs_database s) (lk_wanted l) (Some v)" using ok PutCache by (simp add: lookup_ok_def)
      then show ?thesis by (rule put_found_cache(2) [OF fits w good [OF that]])
    qed
    ultimately show ?thesis unfolding s'
      by (intro move [rotated 7]) (use put_found_cache(1) [OF fits w] locked in \<open>simp_all\<close>)
  next
    case (Answered f)
    then show ?thesis using step by (auto simp: l_def Let_def)
  qed
qed

text \<open>
  The rest of the world moves: the clock, the database or the listener. The generation grows or stays, and a
  lookup that has the current generation is trusted only where it was trusted before.
\<close>

lemma world_moves:
  assumes inv: "resolve_inv L A s"
    and same: "rs_lookups t = rs_lookups s" "rs_lock t = rs_lock s" "rs_changes s \<le> rs_changes t"
    and cache: "rs_cache t = rs_cache s \<or> rs_lock s = None \<and> rs_cache t = rcache_clear L (rs_cache s)"
    and gen: "rs_generation t = rs_generation s + 1 \<and> rs_listener t \<notin> {Enable, Receiving, Bump2}
      \<or> rs_generation t = rs_generation s
        \<and> (rs_listener t \<in> {Enable, Receiving, Bump2} \<longrightarrow> rs_listener s \<in> {Enable, Receiving, Bump2} \<or> rs_lock s = None)
        \<and> (connected (rs_listener t) \<and> \<not> dirty t \<longrightarrow> connected (rs_listener s) \<and> \<not> dirty s
            \<and> rs_changes t = rs_changes s \<and> rs_database t = rs_database s)"
    and good: "rs_listener t \<in> {Enable, Receiving} \<and> rs_pending t = 0 \<longrightarrow>
      rs_cache t = rcache_clear L (rs_cache s)
      \<or> rs_cache t = rs_cache s \<and> rs_database t = rs_database s \<and> rs_listener s \<in> {Enable, Receiving} \<and> rs_pending s = 0"
  shows "resolve_inv L A t"
  unfolding resolve_inv_def
proof (intro conjI allI impI)
  fix i assume i: "i < length (rs_lookups t)"
  have ok: "lookup_ok A s i (rs_lookups s ! i)" using resolve_invD(1) [OF inv] i same by simp
  define l where "l = rs_lookups s ! i"
  have grows: "rs_generation s \<le> rs_generation t" using gen by linarith
  have L: "lookup_ok A s i l" "rs_lookups t ! i = l" using ok same by (simp_all add: l_def)
  have base: "wanted_ok (lk_wanted l)" "in_lock (lk_pc l) \<longleftrightarrow> rs_lock t = Some i"
      "\<And>v. holds (lk_pc l) = Some v \<Longrightarrow> kind_ok (lk_wanted l) (Some v)"
    using L(1) same(2) by (simp_all add: lookup_ok_def)
  have old: "lk_generation l = Some g \<Longrightarrow> g \<le> rs_generation t" "lk_pc l = Query n \<Longrightarrow> n \<le> rs_changes t" for g n
    using L(1) order_trans [OF _ grows, of g] order_trans [OF _ same(3), of n] by (auto simp: lookup_ok_def)
  have put: "lk_generation l = Some (rs_generation t)" if "lk_pc l = PutCache v" "rs_listener t \<in> {Enable, Receiving, Bump2}" for v
  proof -
    have "rs_lock s \<noteq> None" using L(1) that(1) by (auto simp: lookup_ok_def)
    then have "rs_generation t = rs_generation s \<and> rs_listener s \<in> {Enable, Receiving, Bump2}"
      using gen that(2) by (elim disjE conjE) metis+
    then show ?thesis using L(1) that(1) by (simp add: lookup_ok_def)
  qed
  have trust: "(\<forall>n. lk_pc l = Query n \<longrightarrow> n = rs_changes t)
      \<and> (\<forall>v. holds (lk_pc l) = Some v \<longrightarrow> answers A (rs_database t) (lk_wanted l) (Some v))"
    if "connected (rs_listener t)" "lk_generation l = Some (rs_generation t)" "\<not> dirty t"
  proof -
    have "rs_generation t \<noteq> rs_generation s + 1" using L(1) that(2) by (auto simp: lookup_ok_def)
    then have "rs_generation t = rs_generation s" "connected (rs_listener s)" "\<not> dirty s" "rs_changes t = rs_changes s"
        "rs_database t = rs_database s"
      using gen that(1,3) by blast+
    then show ?thesis using L(1) that(2) by (simp add: lookup_ok_def)
  qed
  show "lookup_ok A t i (rs_lookups t ! i)"
    unfolding lookup_ok_def L(2) using base old put trust by blast
next
  show "i < length (rs_lookups t)" if "rs_lock t = Some i" for i using resolve_invD(2) [OF inv] that same by simp
  show "cache_fits L (rs_cache t)" using cache resolve_invD(3) [OF inv] rcache_clear_cache(1) by auto
  show "good_cache L A (rs_database t) (rs_cache t)" if "rs_listener t \<in> {Enable, Receiving} \<and> rs_pending t = 0"
    using good that rcache_clear_cache(2) resolve_invD(4) [OF inv] by auto
qed

lemma listener_step_inv:
  assumes inv: "resolve_inv L A s" and step: "listener_step L ok s = Some s'"
  shows "resolve_inv L A s'"
proof (rule world_moves [OF inv])
  note S = step [unfolded listener_step.simps Let_def listen_to_def]
  show "rs_lookups s' = rs_lookups s" "rs_lock s' = rs_lock s" "rs_changes s \<le> rs_changes s'"
      "rs_cache s' = rs_cache s \<or> rs_lock s = None \<and> rs_cache s' = rcache_clear L (rs_cache s)"
    using S by (cases "rs_listener s"; auto split: if_splits)+
  show "rs_generation s' = rs_generation s + 1 \<and> rs_listener s' \<notin> {Enable, Receiving, Bump2}
      \<or> rs_generation s' = rs_generation s
        \<and> (rs_listener s' \<in> {Enable, Receiving, Bump2} \<longrightarrow> rs_listener s \<in> {Enable, Receiving, Bump2} \<or> rs_lock s = None)
        \<and> (connected (rs_listener s') \<and> \<not> dirty s' \<longrightarrow> connected (rs_listener s) \<and> \<not> dirty s
            \<and> rs_changes s' = rs_changes s \<and> rs_database s' = rs_database s)"
    using S by (cases "rs_listener s"; auto simp: connected_def dirty_def split: if_splits)
  show "rs_listener s' \<in> {Enable, Receiving} \<and> rs_pending s' = 0 \<longrightarrow>
      rs_cache s' = rcache_clear L (rs_cache s)
      \<or> rs_cache s' = rs_cache s \<and> rs_database s' = rs_database s \<and> rs_listener s \<in> {Enable, Receiving} \<and> rs_pending s = 0"
    using S by (cases "rs_listener s"; auto split: if_splits)
qed

lemma resolve_step_inv:
  assumes inv: "resolve_inv L A s" and step: "resolve_step L A s e = Some s'"
  shows "resolve_inv L A s'"
proof (cases e)
  case (NewLookup w)
  have s': "s' = s\<lparr> rs_lookups := rs_lookups s @ [\<lparr> lk_wanted = w, lk_generation = None, lk_pc = LoadEnabled \<rparr>] \<rparr>" and w: "wanted_ok w"
    using step NewLookup by (auto simp: wanted_ok_def split: if_splits)
  have dirty: "dirty s' = dirty s" by (simp add: s' dirty_def)
  have new: "rs_lock s \<noteq> Some (length (rs_lookups s))" using resolve_invD(2) [OF inv] by auto
  have "lookup_ok A s' i (rs_lookups s' ! i)" if "i < length (rs_lookups s')" for i
  proof (cases "i < length (rs_lookups s)")
    case True
    then show ?thesis using resolve_invD(1) [OF inv True] dirty by (simp add: s' lookup_ok_def nth_append)
  next
    case False
    then have "i = length (rs_lookups s)" using that by (simp add: s')
    then show ?thesis using new w by (simp add: s' lookup_ok_def)
  qed
  then show ?thesis using inv by (auto simp: resolve_inv_def s' less_Suc_eq)
next
  case (LookupStep i read)
  then show ?thesis using step lookup_step_inv [OF inv] by (auto split: if_splits)
next
  case (ListenerStep ok)
  then show ?thesis using step listener_step_inv [OF inv] by simp
next
  case (Change d)
  show ?thesis
    by (rule world_moves [OF inv]) (use step Change in \<open>auto simp: connected_def dirty_def listening_def\<close>)
next
  case (Tick n)
  show ?thesis by (rule world_moves [OF inv]) (use step Tick in \<open>auto simp: connected_def dirty_def\<close>)
qed

lemma resolve_start_inv:
  assumes "0 < n" "0 < m"
  shows "resolve_inv L A (resolve_start L n m d)"
  using lru.new_fits [OF lru_resolutions assms(1)] lru.new_fits [OF lru_workers assms(2)]
  by (simp add: resolve_inv_def resolve_start_def cache_fits_def rcache_new_def)

end

sublocale resolve_caches \<subseteq> resolve_runs: step_invariant "resolve_step L A"
    "\<lambda>s. \<exists>n m d. 0 < n \<and> 0 < m \<and> s = resolve_start L n m d" "resolve_inv L A"
proof
  show "resolve_inv L A s" if "\<exists>n m d. 0 < n \<and> 0 < m \<and> s = resolve_start L n m d" for s
    using that resolve_start_inv by blast
qed (rule resolve_step_inv)

context resolve_caches
begin

text \<open>A connected listener with nothing to take: what the cache serves is what the database answers.\<close>

lemma reachable_coherent:
  assumes "0 < n" "0 < m" and run: "runs (resolve_step L A) (resolve_start L n m d) es = Some s"
    and listener: "rs_listener s = Receiving" "rs_pending s = 0"
    and w: "wanted_ok w" and look: "look_up L w now (rs_cache s) = (c, Some v)"
  shows "answers A (rs_database s) w (Some v)"
proof -
  have inv: "resolve_inv L A s" using resolve_runs.runs_inv [OF _ run] assms(1,2) by blast
  then have "good_cache L A (rs_database s) (rs_cache s)" using listener by (simp add: resolve_inv_def)
  then show ?thesis using look_up_cache(3) [OF look] resolve_invD(3) [OF inv] w by blast
qed

end

section \<open>Properties\<close>

text \<open>The cache on lists and a database whose only table says which of its workers serves every request.\<close>

definition list_lrus ::
  "(nat \<times> (request_key \<times> request_resolution option timed) list, nat \<times> (string \<times> worker_meta timed) list) resolve_lrus" where
  "list_lrus = \<lparr> lru_r = list_lru, lru_w = list_lru \<rparr>"

definition one_worker :: "string resolve_answers" where
  "one_worker = \<lparr>
     answer_request = (\<lambda>d key. Some \<lparr> rr_worker_id = Some d, rr_project_id = None, rr_backend_type = None,
       rr_assets_storage_id = None, rr_asset_type = None \<rparr>),
     answer_worker = (\<lambda>d i. None) \<rparr>"

interpretation listed_resolve: resolve_caches list_lrus one_worker
  unfolding resolve_caches_def list_lrus_def path_free_def one_worker_def by (simp add: listed_lru.lru_axioms)


text \<open>One lookup from its start to its answer, and the listener from its start to its first wait.\<close>

definition connect_steps :: "string resolve_event list" where
  "connect_steps = (let e = ListenerStep True in [e, e, e, e, e, e])"

definition lookup_steps :: "nat \<Rightarrow> request_key \<Rightarrow> string \<Rightarrow> string resolve_event list" where
  "lookup_steps i key d =
     (let e = LookupStep i (Some (Some (FoundResolution (answer_request one_worker d key))))
      in [NewLookup (WantResolution key), e, e, e, e, e, e, e, e])"

definition demo_key :: request_key where
  "demo_key = \<lparr> rk_host = Some ''a.test'', rk_worker_id = None, rk_worker_name = None, rk_path = Some ''/'' \<rparr>"

lemmas resolve_run_simps =
  connect_steps_def lookup_steps_def demo_key_def one_worker_def list_lrus_def list_lru_def resolve_start_def rcache_new_def
  rcache_clear_def listen_to_def set_lookup_def at_pc_def look_up_def put_found_def cached_resolution_def put_resolution_def
  fresh_value_def standalone_def kind_ok_def answers_def listening_def TTL_def touch_def Let_def





end
