(* ===== verification/Core_Http.thy ===== *)
theory Core_Http
  imports Rust_Str "HOL-Library.AList"
begin

text \<open>
  The requests and responses worker code makes, as the \<open>openworkers_core\<close> crate has them, the parts of a URL
  the \<open>url\<close> crate gives, and the decoding of bytes into text by the standard library. A map of headers is
  the list of its entries in the order an iteration gives them.
\<close>

datatype http_method = Get | Post | Put | Delete | Patch | Head | Options

datatype request_body = NoBody | Bytes "u8 list" | Stream

record core_request =
  cr_url :: string
  cr_method :: http_method
  cr_headers :: "(string \<times> string) list"
  cr_body :: request_body

record core_response =
  cs_status :: nat
  cs_headers :: "(string \<times> string) list"
  cs_body :: "u8 list"

record parsed_url =
  pu_host :: "string option"
  pu_path :: string
  pu_query :: "string option"

definition path_and_query :: "parsed_url \<Rightarrow> string" where
  "path_and_query u = (case pu_query u of Some q \<Rightarrow> pu_path u @ ''?'' @ q | None \<Rightarrow> pu_path u)"

fun show_method :: "http_method \<Rightarrow> string" where
  "show_method Get = ''GET''"
| "show_method Post = ''POST''"
| "show_method Put = ''PUT''"
| "show_method Delete = ''DELETE''"
| "show_method Patch = ''PATCH''"
| "show_method Head = ''HEAD''"
| "show_method Options = ''OPTIONS''"

section \<open>Text of bytes\<close>

text \<open>
  \<open>String::from_utf8_lossy\<close>: the longest valid sequences are kept, and each maximal invalid part becomes
  U+FFFD. The first sequence of the bytes is its length and whether it is valid.
\<close>

definition cont :: "nat \<Rightarrow> nat \<Rightarrow> nat list \<Rightarrow> nat \<Rightarrow> bool" where
  "cont lo hi bs i \<longleftrightarrow> i < length bs \<and> lo \<le> bs ! i \<and> bs ! i \<le> hi"

definition utf8_head :: "nat list \<Rightarrow> nat \<times> bool" where
  "utf8_head bs =
     (let b = hd bs;
          tail = (\<lambda>width lo hi.
            if \<not> cont lo hi bs 1 then (1, False)
            else if width = 2 then (2, True)
            else if \<not> cont 0x80 0xBF bs 2 then (2, False)
            else if width = 3 then (3, True)
            else if \<not> cont 0x80 0xBF bs 3 then (3, False)
            else (4, True))
      in if b < 0x80 then (1, True)
         else if 0xC2 \<le> b \<and> b \<le> 0xDF then tail (2 :: nat) 0x80 0xBF
         else if b = 0xE0 then tail 3 0xA0 0xBF
         else if b = 0xED then tail 3 0x80 0x9F
         else if 0xE1 \<le> b \<and> b \<le> 0xEF then tail 3 0x80 0xBF
         else if b = 0xF0 then tail 4 0x90 0xBF
         else if 0xF1 \<le> b \<and> b \<le> 0xF3 then tail 4 0x80 0xBF
         else if b = 0xF4 then tail 4 0x80 0x8F
         else (1, False))"

lemma utf8_head_pos: "0 < fst (utf8_head bs)"
  by (simp add: utf8_head_def Let_def)

function lossy :: "nat list \<Rightarrow> nat list" where
  "lossy [] = []"
| "lossy (b # bs) =
     (let (n, ok) = utf8_head (b # bs) in
      (if ok then take n (b # bs) else [0xEF, 0xBF, 0xBD]) @ lossy (drop n (b # bs)))"
  by pat_completeness auto
termination
proof (relation "measure length")
  fix b :: nat and bs and x and n and ok
  assume "x = utf8_head (b # bs)" "(n, ok) = x"
  then have "0 < n" using utf8_head_pos [of "b # bs"] by (metis fst_conv)
  then show "(drop n (b # bs), b # bs) \<in> measure length" by simp
qed simp

definition from_utf8_lossy :: "u8 list \<Rightarrow> string" where
  "from_utf8_lossy bytes = map char_of (lossy (map unat bytes))"

lemma lossy_ascii: "\<forall>b \<in> set bs. b < 0x80 \<Longrightarrow> lossy bs = bs"
  by (induction bs) (auto simp: utf8_head_def)

section \<open>Searching and splitting by a string\<close>

fun find_str :: "string \<Rightarrow> string \<Rightarrow> nat option" where
  "find_str p [] = (if p = [] then Some 0 else None)"
| "find_str p (c # s) = (if starts_with (c # s) p then Some 0 else map_option Suc (find_str p s))"

lemma find_str_Some: "find_str p s = Some i \<Longrightarrow> i + length p \<le> length s \<and> take (length p) (drop i s) = p"
proof (induction s arbitrary: i)
  case (Cons c s)
  show ?case
  proof (cases "starts_with (c # s) p")
    case True
    then have "i = 0" "take (length p) (c # s) = p" using Cons.prems by (simp_all add: starts_with_def)
    moreover have "length (take (length p) (c # s)) \<le> length (c # s)" by simp
    ultimately show ?thesis by simp
  next
    case False
    then show ?thesis using Cons by auto
  qed
qed (auto split: if_splits)

function split_str :: "string \<Rightarrow> string \<Rightarrow> string list" where
  "split_str p s =
     (if p = [] then [s]
      else case find_str p s of
             None \<Rightarrow> [s]
           | Some i \<Rightarrow> take i s # split_str p (drop (i + length p) s))"
  by pat_completeness auto
termination
proof (relation "measure (\<lambda>(p, s). length s)")
  fix p s :: string and i
  assume "p \<noteq> []" "find_str p s = Some i"
  then show "((p, drop (i + length p) s), p, s) \<in> measure (\<lambda>(p, s). length s)"
    using find_str_Some [of p s i] by (cases p) auto
qed simp

declare split_str.simps [simp del]

end
