(* ===== verification/Fetch_Route.thy ===== *)
theory Fetch_Route
  imports Core_Http Ingress_Config Logs
begin

text \<open>
  \<open>src/services/fetch.rs\<close>: the requests of worker code that the runner routes to itself, with the depth of
  the call and the mark of an internal route, and the sending of every other request through a client that
  only reaches public addresses. The URL parser, the UUIDs and the HTTP client are arguments.
\<close>

section \<open>Routes inside the runner\<close>

definition route_domains :: "string option \<Rightarrow> string list" where
  "route_domains var =
     (case var of
        None \<Rightarrow> []
      | Some s \<Rightarrow> filter (\<lambda>d. d \<noteq> []) (map (\<lambda>d. to_ascii_lowercase (trim_end_matches ''.'' (trim_str d))) (split_char (CHR '','') s)))"

definition runner_url :: "nat option \<Rightarrow> string" where
  "runner_url var =
     ''http://127.0.0.1:'' @ show_radix 10 (case var of Some p \<Rightarrow> p | None \<Rightarrow> DEFAULT_INTERNAL_PORT)"

definition CALL_DEPTH_HEADER :: string where "CALL_DEPTH_HEADER = ''x-openworkers-depth''"

definition MAX_CALL_DEPTH :: u32 where "MAX_CALL_DEPTH = 16"

definition call_depth :: "(string \<times> string) list \<Rightarrow> u32" where
  "call_depth headers =
     (if map_of headers INTERNAL_ROUTE_HEADER = None then 0
      else case Option.bind (map_of headers CALL_DEPTH_HEADER) (parse_unsigned (2 ^ 32 - 1)) of
             Some depth \<Rightarrow> word_of_nat depth
           | None \<Rightarrow> 0)"

text \<open>The UUID is 32 characters; a prefix of more than 31 is a panic the callers never meet.\<close>

definition generate_request_id :: "string \<Rightarrow> string \<Rightarrow> string" where
  "generate_request_id name uuid = name @ ''_'' @ take (31 - length name) uuid"

record route_env =
  re_parse :: "string \<Rightarrow> parsed_url option"
  re_domains :: "string list"
  re_port :: "nat option"
  re_uuid :: string

fun first_worker :: "string \<Rightarrow> string list \<Rightarrow> string option" where
  "first_worker host [] = None"
| "first_worker host (domain # domains) =
     (case strip_suffix_str host (''.'' @ domain) of Some name \<Rightarrow> Some name | None \<Rightarrow> first_worker host domains)"

definition routed_headers :: "string \<Rightarrow> string \<Rightarrow> string \<Rightarrow> u32 \<Rightarrow> (string \<times> string) list \<Rightarrow> (string \<times> string) list" where
  "routed_headers header target request_id depth headers =
     AList.update CALL_DEPTH_HEADER (show_radix 10 (unat depth))
       (AList.update INTERNAL_ROUTE_HEADER ''1''
         (AList.update ''x-request-id'' request_id (AList.update header target headers)))"

definition try_internal_worker_route :: "route_env \<Rightarrow> core_request \<Rightarrow> u32 \<Rightarrow> core_request option" where
  "try_internal_worker_route E request depth =
     (case re_parse E (cr_url request) of
        None \<Rightarrow> None
      | Some url \<Rightarrow>
          (case pu_host url of
             None \<Rightarrow> None
           | Some host \<Rightarrow>
               (case first_worker host (re_domains E) of
                  None \<Rightarrow> None
                | Some worker_name \<Rightarrow>
                    if cr_body request = Stream then None
                    else Some \<lparr> cr_url = runner_url (re_port E) @ path_and_query url, cr_method = cr_method request,
                                cr_headers = routed_headers ''x-worker-name'' worker_name
                                  (generate_request_id ''internal'' (re_uuid E)) depth (cr_headers request),
                                cr_body = cr_body request \<rparr>)))"

definition binding_request :: "route_env \<Rightarrow> string \<Rightarrow> core_request \<Rightarrow> u32 \<Rightarrow> core_request" where
  "binding_request E worker_id request depth =
     (let target = (case re_parse E (cr_url request) of
            Some url \<Rightarrow> path_and_query url
          | None \<Rightarrow> if starts_with (cr_url request) ''/'' then cr_url request else ''/'' @ cr_url request)
      in \<lparr> cr_url = runner_url (re_port E) @ target, cr_method = cr_method request,
           cr_headers = routed_headers ''x-worker-id'' worker_id (generate_request_id ''binding'' (re_uuid E)) depth (cr_headers request),
           cr_body = cr_body request \<rparr>)"

section \<open>Sending\<close>

record fetch_context =
  fc_worker_id :: "string option"
  fc_user_id :: "string option"

record wire_request =
  wr_filtered :: bool
  wr_method :: http_method
  wr_url :: string
  wr_headers :: "(string \<times> string) list"
  wr_body :: "u8 list option"

definition context_headers :: "fetch_context option \<Rightarrow> (string \<times> string) list" where
  "context_headers ctx =
     (case ctx of
        None \<Rightarrow> []
      | Some c \<Rightarrow>
          (case fc_worker_id c of Some w \<Rightarrow> [(''x-fetch-worker'', w)] | None \<Rightarrow> [])
          @ (case fc_user_id c of Some u \<Rightarrow> [(''x-fetch-tenant-id'', u)] | None \<Rightarrow> []))"

definition wire_of ::
  "(string \<Rightarrow> (unit, string) result) \<Rightarrow> core_request \<Rightarrow> (string \<times> string) list option \<Rightarrow> fetch_context option \<Rightarrow> egress_policy
   \<Rightarrow> (wire_request, string) result" where
  "wire_of guard request extra_headers ctx policy =
     (case (if policy = PublicOnly then guard (cr_url request) else Ok ()) of
        Err e \<Rightarrow> Err e
      | Ok _ \<Rightarrow>
          if cr_method request = Options then Err ''OPTIONS method not yet supported''
          else Ok \<lparr> wr_filtered = (policy = PublicOnly), wr_method = cr_method request, wr_url = cr_url request,
                    wr_headers = cr_headers request @ (case extra_headers of Some h \<Rightarrow> h | None \<Rightarrow> []) @ context_headers ctx,
                    wr_body = (case cr_body request of Bytes b \<Rightarrow> Some b | _ \<Rightarrow> None) \<rparr>)"

text \<open>
  The pump of the response's body: it forwards the chunks until one is an error, which it forwards too, or
  until the reader is gone; \<open>reads\<close> is how many chunks the reader takes.
\<close>

fun pump_body :: "nat \<Rightarrow> (u8 list, string) result list \<Rightarrow> (u8 list, string) result list" where
  "pump_body reads [] = []"
| "pump_body 0 (chunk # chunks) = []"
| "pump_body (Suc reads) (Ok chunk # chunks) = Ok chunk # pump_body reads chunks"
| "pump_body (Suc reads) (Err e # chunks) = [Err e]"

record fetch_response =
  fr_status :: nat
  fr_headers :: "(string \<times> string) list"
  fr_chunks :: "(u8 list, string) result list"

definition do_fetch ::
  "(string \<Rightarrow> (unit, string) result) \<Rightarrow> (string \<Rightarrow> string option) \<Rightarrow> (wire_request \<Rightarrow> (fetch_response, string) result)
   \<Rightarrow> core_request \<Rightarrow> (string \<times> string) list option \<Rightarrow> fetch_context option \<Rightarrow> egress_policy \<Rightarrow> nat \<Rightarrow> (fetch_response, string) result" where
  "do_fetch guard to_str send request extra_headers ctx policy reads =
     (case wire_of guard request extra_headers ctx policy of
        Err e \<Rightarrow> Err e
      | Ok wire \<Rightarrow>
          (case send wire of
             Err e \<Rightarrow> Err (''Request failed: '' @ e)
           | Ok response \<Rightarrow>
               Ok \<lparr> fr_status = fr_status response,
                    fr_headers = List.map_filter (\<lambda>(k, v). map_option (Pair k) (to_str v)) (fr_headers response),
                    fr_chunks = pump_body reads (fr_chunks response) \<rparr>))"

section \<open>What a routed request carries\<close>

lemma map_of_routed_headers:
  assumes "header \<notin> {CALL_DEPTH_HEADER, INTERNAL_ROUTE_HEADER, ''x-request-id''}"
  shows "map_of (routed_headers header target request_id depth headers) n =
     (if n = CALL_DEPTH_HEADER then Some (show_radix 10 (unat depth))
      else if n = INTERNAL_ROUTE_HEADER then Some ''1''
      else if n = ''x-request-id'' then Some request_id
      else if n = header then Some target else map_of headers n)"
  using assms by (simp add: routed_headers_def AList.update_conv' CALL_DEPTH_HEADER_def INTERNAL_ROUTE_HEADER_def)

lemma distinct_routed_headers:
  "distinct (map fst headers) \<Longrightarrow> distinct (map fst (routed_headers header target request_id depth headers))"
  by (simp add: routed_headers_def AList.distinct_update)

lemma first_worker_Some:
  "first_worker host domains = Some name \<Longrightarrow> \<exists>domain \<in> set domains. host = name @ ''.'' @ domain"
  by (induction domains) (auto simp: strip_suffix_str_Some split: option.splits)

lemma of_digit_char: "d < 10 \<Longrightarrow> (of_char (digit_char d) :: nat) = 48 + d"
  by (simp add: digit_char_def)

lemma digits_value_snoc: "digits_value (s @ [c]) = 10 * digits_value s + (of_char c - 48)"
  by (simp add: digits_value_def)

lemma show_nat_digits: "list_all is_digit (show_nat n) \<and> digits_value (show_nat n) = n"
proof (induction n rule: less_induct)
  case (less n)
  show ?case
  proof (cases "n < 10")
    case True
    then show ?thesis using digits_value_snoc [of "[]"] of_digit_char [of n] by (simp add: show_radix.simps is_digit_def digits_value_def)
  next
    case False
    then show ?thesis
      using less [of "n div 10"] of_digit_char [of "n mod 10"] is_digit_def [of "digit_char (n mod 10)"]
      by (subst (1 2) show_radix.simps) (auto simp: digits_value_snoc)
  qed
qed

lemma parse_show_nat:
  assumes "n \<le> largest"
  shows "parse_unsigned largest (show_nat n) = Some n"
proof -
  obtain c s where cs: "show_nat n = c # s" by (cases "show_nat n") simp_all
  have "is_digit c" using show_nat_digits [of n] by (simp add: cs)
  then have "c \<noteq> CHR ''+''" by (auto simp: is_digit_def)
  then have "\<not> starts_with (show_nat n) ''+''" by (simp add: cs starts_with_def)
  then show ?thesis using show_nat_digits [of n] assms by (simp add: parse_unsigned_def)
qed

text \<open>The depth the runner writes on a request is the depth it reads from it.\<close>

lemma call_depth_routed:
  assumes "header \<notin> {CALL_DEPTH_HEADER, INTERNAL_ROUTE_HEADER, ''x-request-id''}"
  shows "call_depth (routed_headers header target request_id depth headers) = depth"
proof -
  have "unat depth < 2 ^ LENGTH(32)" by (rule unsigned_less)
  then have "unat depth \<le> 2 ^ 32 - 1" by simp
  then have "parse_unsigned (2 ^ 32 - 1) (show_nat (unat depth)) = Some (unat depth)" by (rule parse_show_nat)
  then show ?thesis
    by (simp add: call_depth_def map_of_routed_headers [OF assms] INTERNAL_ROUTE_HEADER_def CALL_DEPTH_HEADER_def)
qed

end
