(* ===== verification/Storage_Service.thy ===== *)
theory Storage_Service
  imports Core_Http Store
begin

text \<open>
  \<open>src/services/storage.rs\<close>: the keys and URLs of the objects a storage binding reaches, and the operations
  on them. The percent decoder, the URL parser, the signature and the HTTP client are third-party crates
  and arguments; what the path check relies on of the decoder is a locale.
\<close>

section \<open>Paths\<close>

definition NUL :: char where "NUL = CHR 0x00"

fun decode_loop :: "(string \<Rightarrow> string option) \<Rightarrow> nat \<Rightarrow> string \<Rightarrow> string option" where
  "decode_loop D 0 current = Some current"
| "decode_loop D (Suc n) current =
     (case D current of
        None \<Rightarrow> None
      | Some decoded \<Rightarrow> if decoded = current then Some current else decode_loop D n decoded)"

definition sanitize_path :: "(string \<Rightarrow> string option) \<Rightarrow> string \<Rightarrow> string option" where
  "sanitize_path D path =
     (case decode_loop D 10 path of
        None \<Rightarrow> None
      | Some current \<Rightarrow>
          if NUL \<in> set current then None
          else if contains_str current ''..'' then None
          else Some (join_char (CHR ''/'') (filter (\<lambda>p. p \<noteq> [] \<and> p \<noteq> ''.'') (split_char (CHR ''/'') current))))"

record storage_crates =
  sc_decode :: "string \<Rightarrow> string option"
  sc_url :: "string \<Rightarrow> (parsed_url, string) result"
  sc_sha256_hex :: "u8 list \<Rightarrow> string"
  sc_sign :: "string \<Rightarrow> string \<Rightarrow> string \<Rightarrow> string \<Rightarrow> string \<times> string \<Rightarrow> u8 list \<Rightarrow> ((string \<times> string) list, string) result"
  sc_send :: "string \<Rightarrow> string \<Rightarrow> (string \<times> string) list \<Rightarrow> u8 list option \<Rightarrow> (core_response, string) result"
  sc_body :: "core_response \<Rightarrow> (u8 list, string) result"
  sc_to_str :: "string \<Rightarrow> string option"

definition in_prefix :: "string \<Rightarrow> string \<Rightarrow> string" where
  "in_prefix pfx key = trim_end_matches ''/'' pfx @ ''/'' @ key"

definition build_s3_url :: "storage_crates \<Rightarrow> storage_config \<Rightarrow> string \<Rightarrow> (string, string) result" where
  "build_s3_url C config url_or_path =
     (let path = (if starts_with url_or_path ''http://'' \<or> starts_with url_or_path ''https://''
                  then case sc_url C url_or_path of Ok u \<Rightarrow> pu_path u | Err _ \<Rightarrow> url_or_path
                  else url_or_path)
      in case sanitize_path (sc_decode C) path of
           None \<Rightarrow> Err ''Invalid path: traversal not allowed''
         | Some sanitized \<Rightarrow>
             let full_path = (case st_prefix config of
                   Some pfx \<Rightarrow> in_prefix pfx sanitized
                 | None \<Rightarrow> trim_start_matches ''/'' path)
             in Ok (st_endpoint config @ ''/'' @ st_bucket config @ ''/'' @ full_path))"

definition build_full_key :: "storage_crates \<Rightarrow> storage_config \<Rightarrow> string \<Rightarrow> (string, string) result" where
  "build_full_key C config key =
     (case sanitize_path (sc_decode C) key of
        None \<Rightarrow> Err ''Invalid key: directory traversal not allowed''
      | Some sanitized \<Rightarrow>
          (case st_prefix config of Some pfx \<Rightarrow> Ok (in_prefix pfx sanitized) | None \<Rightarrow> Ok sanitized))"

definition strip_prefix :: "storage_config \<Rightarrow> string \<Rightarrow> string" where
  "strip_prefix config key =
     (case st_prefix config of
        Some pfx \<Rightarrow> (case strip_prefix_str key (in_prefix pfx []) of Some rest \<Rightarrow> rest | None \<Rightarrow> key)
      | None \<Rightarrow> key)"

definition list_prefix :: "storage_config \<Rightarrow> string option \<Rightarrow> string" where
  "list_prefix config pfx =
     (case (st_prefix config, pfx) of
        (Some p, Some user_p) \<Rightarrow> trim_end_matches ''/'' p @ (if user_p = [] then [] else ''/'') @ user_p
      | (Some p, None) \<Rightarrow> p
      | (None, Some user_p) \<Rightarrow> user_p
      | (None, None) \<Rightarrow> [])"

section \<open>Signed requests\<close>

definition compute_signature_headers ::
  "storage_crates \<Rightarrow> string \<Rightarrow> string \<Rightarrow> string \<Rightarrow> string \<Rightarrow> string \<times> string \<Rightarrow> u8 list \<Rightarrow> ((string \<times> string) list, string) result" where
  "compute_signature_headers C method uri host region credentials body_bytes =
     (case sc_sign C method uri host region credentials body_bytes of
        Err e \<Rightarrow> Err e
      | Ok instructions \<Rightarrow>
          Ok (foldl (\<lambda>h (name, v). AList.update name v h)
                [(''host'', host), (''x-amz-content-sha256'', sc_sha256_hex C body_bytes)] instructions))"

definition sign_and_execute_raw ::
  "storage_crates \<Rightarrow> string \<Rightarrow> string \<Rightarrow> string \<Rightarrow> string \<Rightarrow> string \<times> string \<Rightarrow> u8 list option \<Rightarrow> (core_response, string) result" where
  "sign_and_execute_raw C method url host region credentials body =
     (let body_bytes = (case body of Some b \<Rightarrow> b | None \<Rightarrow> []) in
      case sc_url C url of
        Err e \<Rightarrow> Err e
      | Ok parsed \<Rightarrow>
          (case compute_signature_headers C method (path_and_query parsed) host region credentials body_bytes of
             Err e \<Rightarrow> Err e
           | Ok signed_headers \<Rightarrow>
               if method \<in> {''GET'', ''PUT'', ''DELETE'', ''HEAD''}
               then case sc_send C method url signed_headers (if method = ''PUT'' then body else None) of
                      Ok response \<Rightarrow> Ok response
                    | Err e \<Rightarrow> Err (''HTTP request failed: '' @ e)
               else Err (''Unsupported method: '' @ method)))"

definition sign_and_execute ::
  "storage_crates \<Rightarrow> string \<Rightarrow> string \<Rightarrow> string \<Rightarrow> string \<Rightarrow> string \<times> string \<Rightarrow> u8 list option \<Rightarrow> (nat \<times> u8 list, string) result" where
  "sign_and_execute C method url host region credentials body =
     (case sign_and_execute_raw C method url host region credentials body of
        Err e \<Rightarrow> Err e
      | Ok response \<Rightarrow>
          (case sc_body C response of
             Err e \<Rightarrow> Err (''Failed to read response body: '' @ e)
           | Ok bytes \<Rightarrow> Ok (cs_status response, bytes)))"

definition sign_and_execute_response ::
  "storage_crates \<Rightarrow> string \<Rightarrow> string \<Rightarrow> string \<Rightarrow> string \<Rightarrow> string \<times> string \<Rightarrow> u8 list option \<Rightarrow> (core_response, string) result" where
  "sign_and_execute_response C method url host region credentials body =
     (case sign_and_execute_raw C method url host region credentials body of
        Err e \<Rightarrow> Err e
      | Ok response \<Rightarrow>
          let headers = List.map_filter (\<lambda>(k, v). map_option (Pair k) (sc_to_str C v)) (cs_headers response) in
          (case sc_body C response of
             Err e \<Rightarrow> Err (''Failed to read response body: '' @ e)
           | Ok bytes \<Rightarrow> Ok \<lparr> cs_status = cs_status response, cs_headers = headers, cs_body = bytes \<rparr>))"

definition U64_LARGEST :: nat where "U64_LARGEST = 2 ^ 64 - 1"

definition trim_quotes :: "string \<Rightarrow> string" where
  "trim_quotes s = trim_end_matches [CHR 0x22] (trim_start_matches [CHR 0x22] s)"

definition sign_and_execute_head ::
  "storage_crates \<Rightarrow> string \<Rightarrow> string \<Rightarrow> string \<Rightarrow> string \<times> string \<Rightarrow> (nat \<times> nat \<times> string option, string) result" where
  "sign_and_execute_head C url host region credentials =
     (case sign_and_execute_raw C ''HEAD'' url host region credentials None of
        Err e \<Rightarrow> Err e
      | Ok response \<Rightarrow>
          let header = (\<lambda>name. Option.bind (map_of (cs_headers response) name) (sc_to_str C));
              len = (case Option.bind (header ''content-length'') (parse_unsigned U64_LARGEST) of Some n \<Rightarrow> n | None \<Rightarrow> 0)
          in Ok (cs_status response, len, map_option trim_quotes (header ''etag'')))"

definition sign_s3_request :: "storage_crates \<Rightarrow> core_request \<Rightarrow> string \<Rightarrow> string \<Rightarrow> ((string \<times> string) list, string) result" where
  "sign_s3_request C request access_key_id secret_access_key =
     (case sc_url C (cr_url request) of
        Err e \<Rightarrow> Err (''Invalid URL: '' @ e)
      | Ok url \<Rightarrow>
          (case pu_host url of
             None \<Rightarrow> Err ''URL has no host''
           | Some host \<Rightarrow>
               compute_signature_headers C (show_method (cr_method request)) (cr_url request) host ''auto''
                 (access_key_id, secret_access_key) (case cr_body request of Bytes b \<Rightarrow> b | _ \<Rightarrow> [])))"

section \<open>Operations\<close>

definition parse_list_response :: "string \<Rightarrow> string list" where
  "parse_list_response xml =
     List.map_filter (\<lambda>part. map_option (\<lambda>end. take end part) (find_str ''</Key>'' part)) (split_str ''<Key>'' xml)"

datatype storage_op =
    SGet string | SFetch string | SPut string "u8 list" | SHead string | SDelete string | SList "string option" "nat option"

datatype storage_result =
    SBody "u8 list option"
  | SResponse core_response
  | SHeadInfo nat "string option"
  | SKeys "string list" bool
  | SError string

definition failed :: "string \<Rightarrow> nat \<Rightarrow> u8 list \<Rightarrow> storage_result" where
  "failed what status body =
     SError (''S3 '' @ what @ '' failed with status '' @ show_radix 10 status @ '': '' @ from_utf8_lossy body)"

definition list_url :: "storage_config \<Rightarrow> string option \<Rightarrow> nat option \<Rightarrow> string" where
  "list_url config pfx limit =
     (let p = list_prefix config pfx in
      st_endpoint config @ ''/'' @ st_bucket config @ ''?list-type=2''
      @ (if p = [] then [] else ''&prefix='' @ p)
      @ (case limit of Some n \<Rightarrow> ''&max-keys='' @ show_radix 10 n | None \<Rightarrow> []))"

definition execute_s3_operation :: "storage_crates \<Rightarrow> storage_config \<Rightarrow> storage_op \<Rightarrow> storage_result" where
  "execute_s3_operation C config op =
     (let region = (case st_region config of Some r \<Rightarrow> r | None \<Rightarrow> ''auto'');
          credentials = (st_access_key_id config, st_secret_access_key config);
          at = (\<lambda>key f. case build_full_key C config key of
                   Err e \<Rightarrow> SError e
                 | Ok full_key \<Rightarrow> f (st_endpoint config @ ''/'' @ st_bucket config @ ''/'' @ full_key))
      in case sc_url C (st_endpoint config) of
           Err e \<Rightarrow> SError (''Invalid endpoint URL: '' @ e)
         | Ok endpoint_url \<Rightarrow>
           (case pu_host endpoint_url of
              None \<Rightarrow> SError ''Endpoint URL has no host''
            | Some host \<Rightarrow>
              (case op of
                 SGet key \<Rightarrow> at key (\<lambda>url.
                   case sign_and_execute C ''GET'' url host region credentials None of
                     Err e \<Rightarrow> SError e
                   | Ok (status, body) \<Rightarrow>
                       if status = 200 then SBody (Some body) else if status = 404 then SBody None else failed ''GET'' status body)
               | SFetch key \<Rightarrow> at key (\<lambda>url.
                   case sign_and_execute_response C ''GET'' url host region credentials None of
                     Err e \<Rightarrow> SError e
                   | Ok response \<Rightarrow> SResponse response)
               | SPut key body \<Rightarrow> at key (\<lambda>url.
                   case sign_and_execute C ''PUT'' url host region credentials (Some body) of
                     Err e \<Rightarrow> SError e
                   | Ok (status, resp_body) \<Rightarrow>
                       if status = 200 \<or> status = 201 then SBody None else failed ''PUT'' status resp_body)
               | SHead key \<Rightarrow> at key (\<lambda>url.
                   case sign_and_execute_head C url host region credentials of
                     Err e \<Rightarrow> SError e
                   | Ok (status, len, etag) \<Rightarrow>
                       if status = 200 then SHeadInfo len etag
                       else if status = 404 then SError ''Object not found''
                       else SError (''S3 HEAD failed with status '' @ show_radix 10 status))
               | SDelete key \<Rightarrow> at key (\<lambda>url.
                   case sign_and_execute C ''DELETE'' url host region credentials None of
                     Err e \<Rightarrow> SError e
                   | Ok (status, resp_body) \<Rightarrow>
                       if status = 200 \<or> status = 204 then SBody None else failed ''DELETE'' status resp_body)
               | SList pfx limit \<Rightarrow>
                   (case sign_and_execute C ''GET'' (list_url config pfx limit) host region credentials None of
                      Err e \<Rightarrow> SError e
                    | Ok (status, body) \<Rightarrow>
                        if status = 200
                        then let body_str = from_utf8_lossy body in
                             SKeys (map (strip_prefix config) (parse_list_response body_str))
                               (contains_str body_str ''<IsTruncated>true</IsTruncated>'')
                        else failed ''LIST'' status body))))"

section \<open>What the percent decoder promises\<close>

definition is_hex :: "char \<Rightarrow> bool" where
  "is_hex c \<longleftrightarrow> c \<in> set ''0123456789abcdefABCDEF''"

fun has_escape :: "string \<Rightarrow> bool" where
  "has_escape (c # a # b # s) \<longleftrightarrow> c = CHR ''%'' \<and> is_hex a \<and> is_hex b \<or> has_escape (a # b # s)"
| "has_escape _ \<longleftrightarrow> False"

definition hex_value :: "char \<Rightarrow> nat" where
  "hex_value c =
     (let n = of_char c :: nat in if n \<le> 57 then n - 48 else if n \<le> 70 then n - 55 else n - 87)"

text \<open>One pass of the decoder on bytes.\<close>

fun unescape :: "string \<Rightarrow> string" where
  "unescape (c # a # b # s) =
     (if c = CHR ''%'' \<and> is_hex a \<and> is_hex b then char_of (16 * hex_value a + hex_value b) # unescape s
      else c # unescape (a # b # s))"
| "unescape s = s"

definition ascii :: "string \<Rightarrow> bool" where
  "ascii s \<longleftrightarrow> list_all (\<lambda>c. (of_char c :: nat) < 128) s"

locale percent_decoder =
  fixes D :: "string \<Rightarrow> string option"
  assumes decode_plain: "\<not> has_escape s \<Longrightarrow> D s = Some s"
    and decode_ascii: "ascii (unescape s) \<Longrightarrow> D s = Some (unescape s)"

definition ascii_decoder :: "string \<Rightarrow> string option" where
  "ascii_decoder s = (if ascii (unescape s) then Some (unescape s) else if has_escape s then None else Some s)"

lemma unescape_plain: "\<not> has_escape s \<Longrightarrow> unescape s = s"
  by (induction s rule: unescape.induct) auto

interpretation ascii_decoding: percent_decoder ascii_decoder
  by unfold_locales (simp_all add: ascii_decoder_def unescape_plain)

section \<open>Pieces of a path\<close>

lemma has_escape_piece:
  assumes "CHR ''/'' \<notin> set p"
  shows "has_escape (p @ CHR ''/'' # s) \<longleftrightarrow> has_escape p \<or> has_escape s"
  using assms
proof (induction p rule: has_escape.induct)
  case (1 c a b p)
  then show ?case by auto
qed (cases s; cases "tl s"; auto simp: is_hex_def)+

lemma join_char_Cons: "xs \<noteq> [] \<Longrightarrow> join_char c (x # xs) = x @ c # join_char c xs"
  by (cases xs) simp_all

lemma has_escape_join:
  "\<forall>x \<in> set xs. CHR ''/'' \<notin> set x \<Longrightarrow> has_escape (join_char (CHR ''/'') xs) \<longleftrightarrow> (\<exists>x \<in> set xs. has_escape x)"
proof (induction xs)
  case (Cons x xs)
  then show ?case by (cases "xs = []") (simp_all add: join_char_Cons has_escape_piece)
qed simp

lemma sublist_piece:
  assumes "c \<notin> set p" "p \<noteq> []"
  shows "sublist p (x @ c # s) \<longleftrightarrow> sublist p x \<or> sublist p s"
proof
  assume "sublist p (x @ c # s)"
  then consider "sublist p x" | "sublist p (c # s)"
    | ys zs where "p = ys @ zs" "suffix ys x" "Sublist.prefix zs (c # s)"
    by (auto simp: sublist_append)
  then show "sublist p x \<or> sublist p s"
  proof cases
    case 2
    then show ?thesis using assms by (auto simp: sublist_Cons_right prefix_Cons)
  next
    case (3 ys zs)
    then have "zs = []" using assms(1) by (auto simp: prefix_Cons)
    then show ?thesis using 3 by (simp add: suffix_imp_sublist)
  qed simp
qed (auto simp: sublist_append sublist_Cons_right)

lemma sublist_join:
  assumes "c \<notin> set p" "p \<noteq> []"
  shows "sublist p (join_char c xs) \<longleftrightarrow> (\<exists>x \<in> set xs. sublist p x)"
proof (induction xs)
  case Nil
  then show ?case using assms by simp
next
  case (Cons x xs)
  then show ?case by (cases "xs = []") (simp_all add: join_char_Cons sublist_piece [OF assms])
qed

lemma split_join_char:
  assumes "xs \<noteq> []" "\<forall>x \<in> set xs. c \<notin> set x"
  shows "split_char c (join_char c xs) = xs"
  using assms
proof (induction xs)
  case (Cons x xs)
  have piece: "c \<notin> set y \<Longrightarrow> split_char c (y @ c # s) = y # split_char c s" "c \<notin> set y \<Longrightarrow> split_char c y = [y]" for y s
    by (induction y) auto
  show ?case using Cons by (cases "xs = []") (simp_all add: join_char_Cons piece)
qed simp

text \<open>The components a sanitized path is joined from.\<close>

definition kept_parts :: "string \<Rightarrow> string list" where
  "kept_parts current = filter (\<lambda>p. p \<noteq> [] \<and> p \<noteq> ''.'') (split_char (CHR ''/'') current)"

lemma kept_parts_no_slash: "\<forall>x \<in> set (kept_parts current). CHR ''/'' \<notin> set x"
  by (auto simp: kept_parts_def dest: split_char_pieces)

lemma sanitize_path_Some:
  assumes "sanitize_path D path = Some clean"
  obtains current where "decode_loop D 10 path = Some current" "NUL \<notin> set current" "\<not> contains_str current ''..''"
    "clean = join_char (CHR ''/'') (kept_parts current)"
  using assms by (auto simp: sanitize_path_def kept_parts_def split: option.splits if_splits)

lemma kept_parts_keep:
  shows "\<not> sublist ''..'' current \<Longrightarrow> \<not> sublist ''..'' (join_char (CHR ''/'') (kept_parts current))"
    and "\<not> has_escape current \<Longrightarrow> \<not> has_escape (join_char (CHR ''/'') (kept_parts current))"
proof -
  have sub: "set (kept_parts current) \<subseteq> set (split_char (CHR ''/'') current)" by (auto simp: kept_parts_def)
  have "\<not> sublist ''..'' x" if "\<not> sublist ''..'' current" "x \<in> set (kept_parts current)" for x
    using sublist_join [of "CHR ''/''" "''..''" "split_char (CHR ''/'') current"] that sub by auto
  then show "\<not> sublist ''..'' current \<Longrightarrow> \<not> sublist ''..'' (join_char (CHR ''/'') (kept_parts current))"
    using sublist_join [of "CHR ''/''" "''..''" "kept_parts current"] by auto
  have "\<not> has_escape x" if "\<not> has_escape current" "x \<in> set (kept_parts current)" for x
    using has_escape_join [of "split_char (CHR ''/'') current"] that sub by (auto dest: split_char_pieces)
  then show "\<not> has_escape current \<Longrightarrow> \<not> has_escape (join_char (CHR ''/'') (kept_parts current))"
    using has_escape_join [OF kept_parts_no_slash] by auto
qed

lemma strip_in_prefix: "st_prefix config = Some p \<Longrightarrow> strip_prefix config (in_prefix p key) = key"
  by (simp add: strip_prefix_def in_prefix_def strip_prefix_str_def starts_with_def)

section \<open>Dots that stay hidden\<close>

lemma unescape_other: "c \<noteq> CHR ''%'' \<Longrightarrow> unescape (c # s) = c # unescape s"
  by (cases s; cases "tl s") auto

lemma escaped_chars: "(char_of (37 :: nat) :: char) = CHR ''%''" "(char_of (46 :: nat) :: char) = CHR ''.''"
  by code_simp+

text \<open>Two dots, each encoded once and then \<open>n\<close> times more.\<close>

definition hidden_dots :: "nat \<Rightarrow> string" where
  "hidden_dots n = (let dot = ''%'' @ concat (replicate n ''25'') @ ''2e'' in dot @ dot)"

lemma unescape_digits: "unescape (concat (replicate n ''25'') @ ''2e'' @ r) = concat (replicate n ''25'') @ ''2e'' @ unescape r"
  by (induction n) (simp_all add: unescape_other)

lemma unescape_hidden_dots: "unescape (hidden_dots (Suc n) @ ''/x'') = hidden_dots n @ ''/x''"
proof -
  have layer: "unescape (CHR ''%'' # concat (replicate (Suc n) ''25'') @ ''2e'' @ r)
      = CHR ''%'' # concat (replicate n ''25'') @ ''2e'' @ unescape r" for r
    using unescape_digits [of n r] by (simp add: is_hex_def hex_value_def escaped_chars)
  show ?thesis using layer [of "''/x''"] layer [of "CHR ''%'' # concat (replicate (Suc n) ''25'') @ ''2e'' @ ''/x''"]
    by (simp add: hidden_dots_def unescape_other)
qed

lemma ascii_hidden_dots: "ascii (hidden_dots n @ ''/x'')"
  by (auto simp: ascii_def hidden_dots_def list_all_iff)

context percent_decoder
begin

lemma decode_hidden_dots: "decode_loop D n (hidden_dots n @ ''/x'') = Some (hidden_dots 0 @ ''/x'')"
proof (induction n)
  case (Suc n)
  have "D (hidden_dots (Suc n) @ ''/x'') = Some (hidden_dots n @ ''/x'')"
    using decode_ascii [of "hidden_dots (Suc n) @ ''/x''"] by (simp only: unescape_hidden_dots ascii_hidden_dots)
  moreover have "hidden_dots n \<noteq> hidden_dots (Suc n)"
    by (rule notI, drule arg_cong [where f = length]) (simp add: hidden_dots_def)
  ultimately show ?case using Suc by simp
qed simp

end

section \<open>Properties\<close>

text \<open>
  C36. A key of a storage binding stays under the prefix of the binding: the full key is the prefix and the
  components of the decoded key, none empty, a dot, with a NUL or with two dots in it, and listing takes the
  prefix off again. Where ten rounds of decoding leave no escape, decoding the key again changes nothing.
\<close>

theorem storage_key_confined:
  assumes D: "percent_decoder (sc_decode C)" and key: "build_full_key C config key = Ok full_key"
  shows "\<exists>current. decode_loop (sc_decode C) 10 key = Some current
    \<and> (let clean = join_char (CHR ''/'') (kept_parts current) in
        full_key = (case st_prefix config of Some p \<Rightarrow> in_prefix p clean | None \<Rightarrow> clean)
        \<and> strip_prefix config full_key = clean
        \<and> list_all (\<lambda>x. x \<noteq> [] \<and> x \<noteq> ''.'' \<and> CHR ''/'' \<notin> set x \<and> NUL \<notin> set x) (kept_parts current)
        \<and> \<not> contains_str clean ''..''
        \<and> (has_escape current \<or> sc_decode C clean = Some clean))"
proof -
  obtain clean where clean: "sanitize_path (sc_decode C) key = Some clean"
    using key by (auto simp: build_full_key_def split: option.splits)
  then obtain current where current: "decode_loop (sc_decode C) 10 key = Some current" "NUL \<notin> set current"
      "\<not> contains_str current ''..''" "clean = join_char (CHR ''/'') (kept_parts current)"
    by (rule sanitize_path_Some)
  have full_key: "full_key = (case st_prefix config of Some p \<Rightarrow> in_prefix p clean | None \<Rightarrow> clean)"
    using key clean by (simp add: build_full_key_def split: option.splits)
  have "set x \<subseteq> set current" if "x \<in> set (kept_parts current)" for x
  proof -
    have "sublist x current" if "x \<noteq> []"
      using sublist_join [of "CHR ''/''" x "split_char (CHR ''/'') current"] split_char_pieces [of x "CHR ''/''" current]
        \<open>x \<in> set (kept_parts current)\<close> that by (auto simp: kept_parts_def)
    then show ?thesis by (cases "x = []") (auto dest: set_mono_sublist)
  qed
  then have "list_all (\<lambda>x. x \<noteq> [] \<and> x \<noteq> ''.'' \<and> CHR ''/'' \<notin> set x \<and> NUL \<notin> set x) (kept_parts current)"
    using current(2) kept_parts_no_slash by (fastforce simp: list_all_iff kept_parts_def)
  moreover have "strip_prefix config full_key = clean"
    using strip_in_prefix by (cases "st_prefix config") (simp_all add: full_key strip_prefix_def)
  moreover have "has_escape current \<or> sc_decode C clean = Some clean"
    using kept_parts_keep(2) percent_decoder.decode_plain [OF D] current(4) by blast
  ultimately show ?thesis
    using current kept_parts_keep(1) full_key by (auto simp: Let_def contains_str_iff)
qed

definition demo_storage :: storage_config where
  "demo_storage = \<lparr> st_id = ''s'', st_bucket = ''b'', st_prefix = Some ''tenant1'', st_access_key_id = [], st_secret_access_key = [],
     st_endpoint = ''https://s3.test'', st_region = None, st_public_url = None \<rparr>"

definition demo_storage_crates :: storage_crates where
  "demo_storage_crates = \<lparr> sc_decode = ascii_decoder, sc_url = (\<lambda>u. Ok \<lparr> pu_host = Some ''s3.test'', pu_path = u, pu_query = None \<rparr>),
     sc_sha256_hex = (\<lambda>_. []), sc_sign = (\<lambda>_ _ _ _ _ _. Ok []),
     sc_send = (\<lambda>_ _ _ _. Err ''offline''), sc_body = (\<lambda>r. Ok (cs_body r)), sc_to_str = Some \<rparr>"

lemma trim_tenant: "trim_end_matches ''/'' ''tenant1'' = ''tenant1''"
  by (simp add: trim_end_matches_def strip_all.simps starts_with_def)

theorem storage_key_confined_witness:
  "\<exists>full_key. build_full_key demo_storage_crates demo_storage ''/a/./b'' = Ok full_key
     \<and> strip_prefix demo_storage full_key = ''a/b''"
proof -
  have D: "percent_decoder (sc_decode demo_storage_crates)"
    using ascii_decoding.percent_decoder_axioms by (simp add: demo_storage_crates_def)
  have "sc_decode demo_storage_crates ''/a/./b'' = Some ''/a/./b''" by (rule percent_decoder.decode_plain [OF D]) simp
  then have loop: "decode_loop (sc_decode demo_storage_crates) 10 ''/a/./b'' = Some ''/a/./b''" by (simp add: eval_nat_numeral)
  have parts: "kept_parts ''/a/./b'' = [''a'', ''b'']" by (simp add: kept_parts_def)
  have "\<exists>full_key. build_full_key demo_storage_crates demo_storage ''/a/./b'' = Ok full_key"
    unfolding build_full_key_def sanitize_path_def loop by (simp add: NUL_def demo_storage_def starts_with_def)
  then obtain full_key where "build_full_key demo_storage_crates demo_storage ''/a/./b'' = Ok full_key" by blast
  with storage_key_confined [OF D this] loop parts show ?thesis by (auto simp: Let_def)
qed

text \<open>
  C37. The check of a path misses two spellings of a climb. A tab between two dots passes it, and a URL parser
  takes tabs out. Dots that are encoded eleven times pass it, because it decodes ten times, and come out as
  an escape that a URL parser reads as two dots.
\<close>

theorem sanitize_path_bypass:
  assumes D: "percent_decoder D"
  shows "(\<exists>clean. sanitize_path D (''.'' @ [CHR 0x09] @ ''./x'') = Some clean
      \<and> filter (\<lambda>c. c \<noteq> CHR 0x09) clean = ''../x'')
    \<and> sanitize_path D (hidden_dots 10 @ ''/x'') = Some ''%2e%2e/x'' \<and> D ''%2e%2e/x'' = Some ''../x''"
proof -
  have plain: "D (''.'' @ [CHR 0x09] @ ''./x'') = Some (''.'' @ [CHR 0x09] @ ''./x'')"
    by (rule percent_decoder.decode_plain [OF D]) simp
  have loop: "decode_loop D 10 (''.'' @ [CHR 0x09] @ ''./x'') = Some (''.'' @ [CHR 0x09] @ ''./x'')"
    using plain by (simp add: eval_nat_numeral)
  have tab: "sanitize_path D (''.'' @ [CHR 0x09] @ ''./x'') = Some (''.'' @ [CHR 0x09] @ ''./x'')"
    unfolding sanitize_path_def loop by (simp add: NUL_def starts_with_def)
  have zero: "hidden_dots 0 @ ''/x'' = ''%2e%2e/x''" by (simp add: hidden_dots_def)
  have deep: "sanitize_path D (hidden_dots 10 @ ''/x'') = Some ''%2e%2e/x''"
    unfolding sanitize_path_def percent_decoder.decode_hidden_dots [OF D] zero by (simp add: NUL_def starts_with_def)
  have "unescape ''%2e%2e/x'' = ''../x''" by (simp add: is_hex_def hex_value_def escaped_chars)
  then have "D ''%2e%2e/x'' = Some ''../x''"
    using percent_decoder.decode_ascii [OF D, of "''%2e%2e/x''"] by (simp add: ascii_def)
  then show ?thesis using tab deep by simp
qed

theorem sanitize_path_bypass_witness:
  "sanitize_path ascii_decoder (hidden_dots 10 @ ''/x'') = Some ''%2e%2e/x''"
  using sanitize_path_bypass [OF ascii_decoding.percent_decoder_axioms] by blast

text \<open>
  C38. Listing is not confined to the prefix of the binding: without a prefix of its own, or with an empty one, a
  list asks for the configured prefix with no slash behind it, so it returns the keys of every other prefix
  that begins with it, and returns them whole.
\<close>

theorem list_leaves_prefix:
  assumes "st_prefix config = Some p" and "p \<noteq> []" and "last p \<noteq> CHR ''/''"
  shows "list_prefix config None = p \<and> list_prefix config (Some []) = p
    \<and> starts_with (p @ ''0/k'') (list_prefix config None)
    \<and> \<not> starts_with (p @ ''0/k'') (in_prefix p [])
    \<and> strip_prefix config (p @ ''0/k'') = p @ ''0/k''"
proof -
  have "\<not> starts_with (rev p) ''/''" using assms(2,3) by (cases p rule: rev_cases) (simp_all add: starts_with_def)
  then have trim: "trim_end_matches ''/'' p = p" by (simp add: trim_end_matches_def strip_all.simps)
  have "\<not> starts_with (p @ ''0/k'') (p @ ''/'')" by (simp add: starts_with_def)
  then show ?thesis using assms(1) trim by (simp add: list_prefix_def in_prefix_def strip_prefix_def strip_prefix_str_def)
qed

theorem list_leaves_prefix_witness:
  "starts_with ''tenant10/k'' (list_prefix demo_storage None) \<and> strip_prefix demo_storage ''tenant10/k'' = ''tenant10/k''"
proof -
  have "st_prefix demo_storage = Some ''tenant1''" by (simp add: demo_storage_def)
  from list_leaves_prefix [OF this] show ?thesis by (simp add: starts_with_def)
qed

end
