(* ===== verification/Worker_Ops.thy ===== *)
theory Worker_Ops
  imports Fetch_Route Storage_Service Limiter Durable_Id
begin

text \<open>
  \<open>src/ops.rs\<close>: what worker code can make the runner do. The operations of a worker hold its bindings by
  name, the depth of the request it serves, and the Durable Object they serve, if any; every outgoing request
  goes through the route, the guard and the clients of \<open>fetch.rs\<close>. A permit of a limiter is the answer of
  \<^const>\<open>acquire\<close>, with the error as text.
\<close>

section \<open>Operations of a worker\<close>

record binding_configs =
  bc_assets :: "string \<Rightarrow> storage_config option"
  bc_storage :: "string \<Rightarrow> storage_config option"
  bc_kv :: "string \<Rightarrow> kv_config option"
  bc_database :: "string \<Rightarrow> database_config option"
  bc_d1 :: "string \<Rightarrow> string option"
  bc_worker :: "string \<Rightarrow> worker_binding_config option"
  bc_durable_object :: "string \<Rightarrow> namespace_config option"

definition configs_new :: binding_configs where
  "configs_new = \<lparr> bc_assets = Map.empty, bc_storage = Map.empty, bc_kv = Map.empty, bc_database = Map.empty,
     bc_d1 = Map.empty, bc_worker = Map.empty, bc_durable_object = Map.empty \<rparr>"

fun add_binding :: "binding_configs \<Rightarrow> binding \<Rightarrow> binding_configs" where
  "add_binding c (BAssets key config) = c\<lparr> bc_assets := (bc_assets c)(key \<mapsto> config) \<rparr>"
| "add_binding c (BStorage key config) = c\<lparr> bc_storage := (bc_storage c)(key \<mapsto> config) \<rparr>"
| "add_binding c (BKv key config) = c\<lparr> bc_kv := (bc_kv c)(key \<mapsto> config) \<rparr>"
| "add_binding c (BDatabase key config) = c\<lparr> bc_database := (bc_database c)(key \<mapsto> config) \<rparr>"
| "add_binding c (BD1 key database_id) = c\<lparr> bc_d1 := (bc_d1 c)(key \<mapsto> database_id) \<rparr>"
| "add_binding c (BWorker key config) = c\<lparr> bc_worker := (bc_worker c)(key \<mapsto> config) \<rparr>"
| "add_binding c (BDurableObject key ns) = c\<lparr> bc_durable_object := (bc_durable_object c)(key \<mapsto> ns) \<rparr>"
| "add_binding c (BVar key v) = c"
| "add_binding c (BSecret key v) = c"

definition from_bindings :: "binding list \<Rightarrow> binding_configs" where
  "from_bindings bindings = foldl add_binding configs_new bindings"

record served_object =
  so_namespace :: namespace_config
  so_id :: string
  so_depths :: call_depths

record 's runner_operations =
  op_user_id :: "string option"
  op_worker_id :: "string option"
  op_limiters :: "'s binding_limiters"
  op_depth :: u32
  op_bindings :: binding_configs
  op_object :: "served_object option"

definition operations_new :: "'s semaphore_ops \<Rightarrow> runtime_limits \<Rightarrow> 's runner_operations" where
  "operations_new S limits = \<lparr> op_user_id = None, op_worker_id = None, op_limiters = limiters_new S limits, op_depth = 0,
     op_bindings = configs_new, op_object = None \<rparr>"

definition with_bindings :: "binding list \<Rightarrow> 's runner_operations \<Rightarrow> 's runner_operations" where
  "with_bindings bindings ops = ops\<lparr> op_bindings := from_bindings bindings \<rparr>"

definition with_depth :: "u32 \<Rightarrow> 's runner_operations \<Rightarrow> 's runner_operations" where
  "with_depth depth ops = ops\<lparr> op_depth := depth \<rparr>"

definition for_object ::
  "'s semaphore_ops \<Rightarrow> runtime_limits \<Rightarrow> namespace_config \<Rightarrow> string \<Rightarrow> call_depths \<Rightarrow> 's runner_operations \<Rightarrow> 's runner_operations" where
  "for_object S limits ns object_id depths ops =
     ops\<lparr> op_limiters := limiters_for_object S limits,
          op_object := Some \<lparr> so_namespace = ns, so_id = object_id, so_depths = depths \<rparr> \<rparr>"

definition update_request :: "'s semaphore_ops \<Rightarrow> runtime_limits \<Rightarrow> u32 \<Rightarrow> 's runner_operations \<Rightarrow> 's runner_operations" where
  "update_request S limits depth ops = ops\<lparr> op_limiters := limiters_new S limits, op_depth := depth \<rparr>"

definition next_depth :: "'s runner_operations \<Rightarrow> u32" where
  "next_depth ops = (case op_object ops of Some object \<Rightarrow> deepest (so_depths object) | None \<Rightarrow> op_depth ops) + 1"

text \<open>The operations of a task: a fetch carries the depth of its request, every other event starts at zero.\<close>

definition task_operations ::
  "'s semaphore_ops \<Rightarrow> runtime_limits \<Rightarrow> worker_with_bindings \<Rightarrow> (string \<times> string) list option \<Rightarrow> 's runner_operations" where
  "task_operations S limits worker fetch_headers =
     (let depth = (case fetch_headers of Some headers \<Rightarrow> call_depth headers | None \<Rightarrow> 0) in
      with_depth depth (with_bindings (wm_bindings worker) ((operations_new S limits)\<lparr> op_worker_id := Some (wm_id worker) \<rparr>)))"

section \<open>Fetches\<close>

record ops_env =
  oe_route :: route_env
  oe_guard :: "string \<Rightarrow> (unit, string) result"
  oe_to_str :: "string \<Rightarrow> string option"
  oe_send :: "wire_request \<Rightarrow> (fetch_response, string) result"
  oe_reads :: nat
  oe_storage :: storage_crates
  oe_ids :: id_crates
  oe_object :: "namespace_config \<Rightarrow> string \<Rightarrow> u32 \<Rightarrow> core_request \<Rightarrow> (fetch_response, string) result"

definition ops_context :: "'s runner_operations \<Rightarrow> fetch_context" where
  "ops_context ops = \<lparr> fc_worker_id = op_worker_id ops, fc_user_id = op_user_id ops \<rparr>"

definition handle_fetch ::
  "ops_env \<Rightarrow> 's runner_operations \<Rightarrow> (unit, string) result \<Rightarrow> core_request \<Rightarrow> (fetch_response, string) result" where
  "handle_fetch E ops permit request =
     (case permit of
        Err e \<Rightarrow> Err e
      | Ok _ \<Rightarrow>
          (let go = (\<lambda>r policy. do_fetch (oe_guard E) (oe_to_str E) (oe_send E) r None (Some (ops_context ops)) policy (oe_reads E)) in
           case try_internal_worker_route (oe_route E) request (next_depth ops) of
             Some internal_request \<Rightarrow> go internal_request Unrestricted
           | None \<Rightarrow> go request PublicOnly))"

definition do_binding_fetch ::
  "ops_env \<Rightarrow> 's runner_operations \<Rightarrow> (unit, string) result \<Rightarrow> storage_config \<Rightarrow> core_request \<Rightarrow> (fetch_response, string) result" where
  "do_binding_fetch E ops permit config request =
     (case permit of
        Err e \<Rightarrow> Err e
      | Ok _ \<Rightarrow>
          (case build_s3_url (oe_storage E) config (cr_url request) of
             Err e \<Rightarrow> Err e
           | Ok url \<Rightarrow>
               let headers = AList.delete ''Host'' (AList.delete ''host'' (cr_headers request));
                   auth_request = request\<lparr> cr_url := url, cr_headers := headers \<rparr>
               in case sign_s3_request (oe_storage E) auth_request (st_access_key_id config) (st_secret_access_key config) of
                    Err e \<Rightarrow> Err e
                  | Ok signed_headers \<Rightarrow>
                      do_fetch (oe_guard E) (oe_to_str E) (oe_send E) auth_request (Some signed_headers)
                        (Some (ops_context ops)) Unrestricted (oe_reads E)))"

definition handle_binding_fetch ::
  "ops_env \<Rightarrow> 's runner_operations \<Rightarrow> (unit, string) result \<Rightarrow> string \<Rightarrow> core_request \<Rightarrow> (fetch_response, string) result" where
  "handle_binding_fetch E ops permit binding_name request =
     (case bc_assets (op_bindings ops) binding_name of
        Some config \<Rightarrow> do_binding_fetch E ops permit config request
      | None \<Rightarrow>
          if bc_kv (op_bindings ops) binding_name \<noteq> None
          then Err (''KV binding '' @ [CHR 0x27] @ binding_name @ [CHR 0x27] @ '' does not support fetch - use kv.get/put/delete'')
          else Err (''Binding '' @ [CHR 0x27] @ binding_name @ [CHR 0x27] @ '' not configured''))"

datatype binding_storage_result = StorageAnswer storage_result | StorageStream fetch_response

definition handle_binding_storage ::
  "ops_env \<Rightarrow> 's runner_operations \<Rightarrow> (unit, string) result \<Rightarrow> (unit, string) result \<Rightarrow> string \<Rightarrow> storage_op \<Rightarrow> binding_storage_result" where
  "handle_binding_storage E ops permit fetch_permit binding_name op =
     (case bc_storage (op_bindings ops) binding_name of
        None \<Rightarrow> StorageAnswer (SError (''Storage binding '' @ [CHR 0x27] @ binding_name @ [CHR 0x27] @ '' not configured''))
      | Some config \<Rightarrow>
          (case permit of
             Err e \<Rightarrow> StorageAnswer (SError e)
           | Ok _ \<Rightarrow>
               (case op of
                  SFetch key \<Rightarrow>
                    (case do_binding_fetch E ops fetch_permit config
                            \<lparr> cr_url = key, cr_method = http_method.Get, cr_headers = [], cr_body = NoBody \<rparr> of
                       Ok response \<Rightarrow> StorageStream response
                     | Err e \<Rightarrow> StorageAnswer (SError e))
                | other \<Rightarrow> StorageAnswer (execute_s3_operation (oe_storage E) config other))))"

definition handle_binding_worker ::
  "ops_env \<Rightarrow> 's runner_operations \<Rightarrow> (unit, string) result \<Rightarrow> string \<Rightarrow> core_request \<Rightarrow> (fetch_response, string) result" where
  "handle_binding_worker E ops permit binding_name request =
     (case bc_worker (op_bindings ops) binding_name of
        None \<Rightarrow> Err (''Worker binding '' @ [CHR 0x27] @ binding_name @ [CHR 0x27] @ '' not configured'')
      | Some config \<Rightarrow>
          (case permit of
             Err e \<Rightarrow> Err e
           | Ok _ \<Rightarrow>
               do_fetch (oe_guard E) (oe_to_str E) (oe_send E) (binding_request (oe_route E) (wb_id config) request (next_depth ops))
                 None None Unrestricted (oe_reads E)))"

section \<open>Durable Objects\<close>

datatype object_id_source = IdName string | IdText string | IdUnique "u8 list"

definition durable_object_id :: "ops_env \<Rightarrow> 's runner_operations \<Rightarrow> string \<Rightarrow> object_id_source \<Rightarrow> (string, string) result" where
  "durable_object_id E ops binding_name source =
     (case bc_durable_object (op_bindings ops) binding_name of
        None \<Rightarrow> Err (''Durable Object binding '' @ [CHR 0x27] @ binding_name @ [CHR 0x27] @ '' not configured'')
      | Some ns \<Rightarrow>
          (case source of
             IdName name \<Rightarrow> Ok (from_name (oe_ids E) (nc_key ns) name)
           | IdText id_text \<Rightarrow>
               (case id_parse (oe_ids E) (nc_key ns) id_text of Some i \<Rightarrow> Ok i | None \<Rightarrow> Err ''Invalid Durable Object ID'')
           | IdUnique uuid \<Rightarrow> Ok (unique (oe_ids E) uuid (nc_key ns))))"

definition handle_binding_durable_object ::
  "ops_env \<Rightarrow> 's runner_operations \<Rightarrow> (unit, string) result \<Rightarrow> string \<Rightarrow> string \<Rightarrow> core_request \<Rightarrow> (fetch_response, string) result" where
  "handle_binding_durable_object E ops permit binding_name id_text request =
     (case bc_durable_object (op_bindings ops) binding_name of
        None \<Rightarrow> Err (''Durable Object binding '' @ [CHR 0x27] @ binding_name @ [CHR 0x27] @ '' not configured'')
      | Some ns \<Rightarrow>
          (case id_parse (oe_ids E) (nc_key ns) id_text of
             None \<Rightarrow> Err ''Invalid Durable Object ID''
           | Some i \<Rightarrow>
               let depth = next_depth ops in
               if depth > MAX_CALL_DEPTH then Err ''Too many nested Durable Object calls''
               else case permit of Err e \<Rightarrow> Err e | Ok _ \<Rightarrow> oe_object E ns i depth request))"

section \<open>Outgoing WebSockets\<close>

definition http_url :: "string \<Rightarrow> string" where
  "http_url url =
     (case strip_prefix_str url ''ws://'' of
        Some rest \<Rightarrow> ''http://'' @ rest
      | None \<Rightarrow> (case strip_prefix_str url ''wss://'' of Some rest \<Rightarrow> ''https://'' @ rest | None \<Rightarrow> url))"

definition handshake_owned :: "string list" where
  "handshake_owned = [''upgrade'', ''connection'', ''sec-websocket-key'', ''sec-websocket-version'', ''host'']"

text \<open>
  The handshake: the request the filtered client sends, and whether its answer opens a socket. \<open>lower\<close> is the
  lower case of all of Unicode, \<open>accept_key\<close> the hash of the key.
\<close>

definition websocket_request ::
  "(string \<Rightarrow> (unit, string) result) \<Rightarrow> (string \<Rightarrow> string) \<Rightarrow> string \<Rightarrow> string \<Rightarrow> (string \<times> string) list \<Rightarrow> (wire_request, string) result" where
  "websocket_request guard lower key url headers =
     (case guard (http_url url) of
        Err e \<Rightarrow> Err e
      | Ok _ \<Rightarrow>
          Ok \<lparr> wr_filtered = True, wr_method = http_method.Get, wr_url = http_url url,
               wr_headers = [(''Connection'', ''Upgrade''), (''Upgrade'', ''websocket''), (''Sec-WebSocket-Version'', ''13''), (''Sec-WebSocket-Key'', key)]
                 @ filter (\<lambda>(name, _). lower name \<notin> set handshake_owned) headers,
               wr_body = None \<rparr>)"

definition websocket_answer ::
  "(string \<Rightarrow> string) \<Rightarrow> (string \<Rightarrow> string option) \<Rightarrow> string \<Rightarrow> nat \<Rightarrow> (string \<times> string) list \<Rightarrow> (unit, string) result" where
  "websocket_answer accept_key to_str key status headers =
     (if status \<noteq> 101 then Err (''WebSocket upgrade rejected: status '' @ show_nat status)
      else if Option.bind (map_of headers ''sec-websocket-accept'') to_str = Some (accept_key key) then Ok ()
      else Err ''WebSocket handshake failed: invalid Sec-WebSocket-Accept'')"

section \<open>What leaves the runner\<close>

lemma map_of_append_Some: "map_of xs k = Some v \<Longrightarrow> map_of (xs @ ys) k = Some v"
  by (simp add: map_of_append map_add_def split: option.splits)

text \<open>A wire request that the runner marks as routed to itself at a depth.\<close>

definition routed_at :: "route_env \<Rightarrow> u32 \<Rightarrow> wire_request \<Rightarrow> bool" where
  "routed_at R depth wire \<longleftrightarrow> starts_with (wr_url wire) (runner_url (re_port R))
     \<and> map_of (wr_headers wire) INTERNAL_ROUTE_HEADER = Some ''1'' \<and> call_depth (wr_headers wire) = depth"

lemma wire_of_routed:
  assumes "wire_of guard \<lparr> cr_url = runner_url (re_port R) @ target, cr_method = meth,
      cr_headers = routed_headers header name request_id depth headers, cr_body = body \<rparr> None ctx Unrestricted = Ok wire"
    and header: "header \<notin> {CALL_DEPTH_HEADER, INTERNAL_ROUTE_HEADER, ''x-request-id''}"
  shows "routed_at R depth wire \<and> \<not> wr_filtered wire"
proof -
  let ?h = "routed_headers header name request_id depth headers"
  have wire: "wr_headers wire = ?h @ context_headers ctx" "wr_url wire = runner_url (re_port R) @ target" "\<not> wr_filtered wire"
    using assms(1) by (auto simp: wire_of_def split: if_splits)
  have internal: "map_of ?h INTERNAL_ROUTE_HEADER = Some ''1''" "map_of ?h CALL_DEPTH_HEADER = Some (show_nat (unat depth))"
    by (simp_all add: map_of_routed_headers [OF header] INTERNAL_ROUTE_HEADER_def CALL_DEPTH_HEADER_def)
  have "call_depth (?h @ context_headers ctx) = call_depth ?h"
    by (simp add: call_depth_def internal map_of_append_Some [OF internal(1)] map_of_append_Some [OF internal(2)] del: map_of_append)
  then show ?thesis
    using wire internal(1) call_depth_routed [OF header] by (simp add: routed_at_def map_of_append_Some del: map_of_append)
qed

lemma do_fetch_Ok:
  assumes "do_fetch guard to_str send request extra ctx policy reads = Ok response"
  obtains wire raw where "wire_of guard request extra ctx policy = Ok wire" "send wire = Ok raw"
  using assms by (auto simp: do_fetch_def split: result.splits)

lemma try_internal_worker_route_Some:
  assumes "try_internal_worker_route R request depth = Some r"
  obtains target name where "r = \<lparr> cr_url = runner_url (re_port R) @ target, cr_method = cr_method request,
      cr_headers = routed_headers ''x-worker-name'' name (generate_request_id ''internal'' (re_uuid R)) depth (cr_headers request),
      cr_body = cr_body request \<rparr>"
  using assms by (auto simp: try_internal_worker_route_def split: option.splits if_splits)

lemma worker_header_names:
  "''x-worker-name'' \<notin> {CALL_DEPTH_HEADER, INTERNAL_ROUTE_HEADER, ''x-request-id''}"
  "''x-worker-id'' \<notin> {CALL_DEPTH_HEADER, INTERNAL_ROUTE_HEADER, ''x-request-id''}"
  by (simp_all add: CALL_DEPTH_HEADER_def INTERNAL_ROUTE_HEADER_def)

lemma handle_fetch_wire:
  assumes "handle_fetch E ops permit request = Ok response"
  obtains wire raw where "oe_send E wire = Ok raw"
    "wr_filtered wire \<and> oe_guard E (wr_url wire) = Ok () \<and> wr_url wire = cr_url request
     \<or> \<not> wr_filtered wire \<and> routed_at (oe_route E) (next_depth ops) wire"
proof (cases "try_internal_worker_route (oe_route E) request (next_depth ops)")
  case None
  then have "do_fetch (oe_guard E) (oe_to_str E) (oe_send E) request None (Some (ops_context ops)) PublicOnly (oe_reads E) = Ok response"
    using assms by (auto simp: handle_fetch_def Let_def split: result.splits)
  then show ?thesis by (rule do_fetch_Ok) (rule that, auto simp: wire_of_def split: result.splits if_splits)
next
  case (Some r)
  then have "do_fetch (oe_guard E) (oe_to_str E) (oe_send E) r None (Some (ops_context ops)) Unrestricted (oe_reads E) = Ok response"
    using assms by (auto simp: handle_fetch_def Let_def split: result.splits)
  then obtain wire raw where wire: "wire_of (oe_guard E) r None (Some (ops_context ops)) Unrestricted = Ok wire" "oe_send E wire = Ok raw"
    by (rule do_fetch_Ok)
  obtain target name where r: "r = \<lparr> cr_url = runner_url (re_port (oe_route E)) @ target, cr_method = cr_method request,
      cr_headers = routed_headers ''x-worker-name'' name (generate_request_id ''internal'' (re_uuid (oe_route E))) (next_depth ops) (cr_headers request),
      cr_body = cr_body request \<rparr>"
    using try_internal_worker_route_Some [OF Some] by blast
  show ?thesis using that [OF wire(2)] wire_of_routed [OF wire(1) [unfolded r] worker_header_names(1)] by blast
qed

lemma handle_binding_worker_wire:
  assumes "handle_binding_worker E ops permit binding_name request = Ok response"
  obtains wire raw where "oe_send E wire = Ok raw" "\<not> wr_filtered wire" "routed_at (oe_route E) (next_depth ops) wire"
proof -
  obtain config :: worker_binding_config where "do_fetch (oe_guard E) (oe_to_str E) (oe_send E)
      (binding_request (oe_route E) (wb_id config) request (next_depth ops)) None None Unrestricted (oe_reads E) = Ok response"
    using assms by (auto simp: handle_binding_worker_def split: option.splits result.splits)
  then obtain wire raw where wire: "wire_of (oe_guard E) (binding_request (oe_route E) (wb_id config) request (next_depth ops)) None None Unrestricted = Ok wire"
      "oe_send E wire = Ok raw"
    by (rule do_fetch_Ok)
  show ?thesis
    using that [OF wire(2)] wire_of_routed [OF wire(1) [unfolded binding_request_def Let_def] worker_header_names(2)] by blast
qed

end
