(* ===== verification/Websocket.thy ===== *)
theory Websocket
  imports Headers Core_Http
begin

text \<open>
  \<open>src/websocket.rs\<close>: the upgrade of a request, the headers of the 101 that answers it, and the tasks that move
  the frames of a socket: one queues what the worker sends and counts the bytes the client did not take, one
  writes, and one reads until the socket ends. Base64 and the accept key are third-party crates and arguments.
\<close>

section \<open>The upgrade\<close>

definition MAX_MESSAGE_BYTES :: nat where "MAX_MESSAGE_BYTES = 2 ^ 20"

definition MAX_QUEUED_BYTES :: nat where "MAX_QUEUED_BYTES = 8 * 2 ^ 20"

definition ws_max_idle :: "(string \<Rightarrow> string option) \<Rightarrow> nat" where
  "ws_max_idle env =
     (case Option.bind (env ''WS_MAX_IDLE_MS'') (parse_unsigned (2 ^ 64 - 1)) of Some ms \<Rightarrow> ms | None \<Rightarrow> 100000)"

datatype upgrade_result = UpgradeNone | UpgradeAccept string | UpgradeRefused nat string

definition lists_token :: "'h header_ops \<Rightarrow> 'h \<Rightarrow> string \<Rightarrow> string \<Rightarrow> bool" where
  "lists_token H h name token =
     list_ex (\<lambda>item. eq_ignore_ascii_case (trim_str item) token)
       (concat (map (split_char (CHR '','')) (List.map_filter (hv_to_str H) (hm_get_all H h name))))"

record ws_crates =
  wc_base64 :: "string \<Rightarrow> u8 list option"
  wc_accept :: "string \<Rightarrow> string"

definition upgrade :: "'h header_ops \<Rightarrow> ws_crates \<Rightarrow> bool \<Rightarrow> string \<Rightarrow> 'h \<Rightarrow> upgrade_result" where
  "upgrade H W http11 method h =
     (if \<not> http11 \<or> \<not> lists_token H h ''upgrade'' ''websocket'' then UpgradeNone
      else if method \<noteq> ''GET'' then UpgradeRefused 400 ''A WebSocket upgrade must be a GET''
      else if \<not> lists_token H h ''connection'' ''upgrade'' then UpgradeRefused 400 ''A WebSocket upgrade must have Connection: Upgrade''
      else if hm_get H h ''sec-websocket-version'' \<noteq> Some ''13'' then UpgradeRefused 426 ''The WebSocket version must be 13''
      else case hm_get H h ''sec-websocket-key'' of
             None \<Rightarrow> UpgradeRefused 400 ''A WebSocket upgrade must have a Sec-WebSocket-Key''
           | Some key \<Rightarrow>
               (case wc_base64 W key of
                  Some nonce \<Rightarrow>
                    if length nonce = 16 then UpgradeAccept (wc_accept W key)
                    else UpgradeRefused 400 ''The Sec-WebSocket-Key is not a 16-byte nonce''
                | None \<Rightarrow> UpgradeRefused 400 ''The Sec-WebSocket-Key is not a 16-byte nonce''))"

definition switch_owned :: "string list" where
  "switch_owned = [''connection'', ''upgrade'', ''sec-websocket-accept'', ''content-length'', ''transfer-encoding'']"

definition switch_headers :: "'h header_ops \<Rightarrow> (string \<times> string) list \<Rightarrow> string \<Rightarrow> 'h" where
  "switch_headers H headers accept =
     (let kept = foldl (\<lambda>h (name, v). if to_ascii_lowercase name \<in> set switch_owned then h else hm_append H h (to_ascii_lowercase name) v)
                   (hm_empty H) headers
      in hm_append H (hm_append H (hm_append H kept ''upgrade'' ''websocket'') ''connection'' ''Upgrade'') ''sec-websocket-accept'' accept)"

section \<open>What the worker sends\<close>

datatype outgoing = OutText string | OutBinary "u8 list" | OutClose nat string

fun out_bytes :: "outgoing \<Rightarrow> nat" where
  "out_bytes (OutText s) = length s"
| "out_bytes (OutBinary b) = length b"
| "out_bytes (OutClose code reason) = 0"

text \<open>
  \<open>pp_sent\<close> is what the queueing task took from the worker; the queueing task ends when the client is too slow
  or the writer is gone, and the writer when a write fails, when the queue ends or when the client is too slow.
\<close>

record out_pipe =
  pp_sent :: "outgoing list"
  pp_queued :: nat
  pp_slow :: bool
  pp_stopped :: bool
  pp_queue :: "(outgoing \<times> nat) list"
  pp_writing :: "(outgoing \<times> nat) option"
  pp_written :: "outgoing list"
  pp_writer_done :: bool

definition pipe_start :: out_pipe where
  "pipe_start = \<lparr> pp_sent = [], pp_queued = 0, pp_slow = False, pp_stopped = False, pp_queue = [], pp_writing = None,
     pp_written = [], pp_writer_done = False \<rparr>"

datatype pipe_event = FromWorker outgoing | TakeWrite | Written bool | WriterCancelled

fun pipe_step :: "out_pipe \<Rightarrow> pipe_event \<Rightarrow> out_pipe option" where
  "pipe_step p (FromWorker msg) =
     (if pp_stopped p then None
      else
        let bytes = out_bytes msg; before = pp_queued p;
            q = p\<lparr> pp_sent := pp_sent p @ [msg], pp_queued := before + bytes \<rparr>
        in if MAX_QUEUED_BYTES \<le> before then Some (q\<lparr> pp_slow := True, pp_stopped := True \<rparr>)
           else if pp_writer_done p then Some (q\<lparr> pp_stopped := True \<rparr>)
           else Some (q\<lparr> pp_queue := pp_queue p @ [(msg, bytes)] \<rparr>))"
| "pipe_step p TakeWrite =
     (case pp_queue p of
        x # q \<Rightarrow> if pp_writer_done p \<or> pp_writing p \<noteq> None then None else Some (p\<lparr> pp_queue := q, pp_writing := Some x \<rparr>)
      | [] \<Rightarrow> None)"
| "pipe_step p (Written ok) =
     (case pp_writing p of
        Some (msg, bytes) \<Rightarrow>
          if pp_writer_done p then None
          else if ok
          then Some (p\<lparr> pp_writing := None, pp_queued := pp_queued p - bytes, pp_written := pp_written p @ [msg] \<rparr>)
          else Some (p\<lparr> pp_writer_done := True \<rparr>)
      | None \<Rightarrow> None)"
| "pipe_step p WriterCancelled = (if pp_slow p \<and> \<not> pp_writer_done p then Some (p\<lparr> pp_writer_done := True \<rparr>) else None)"

definition pending :: "out_pipe \<Rightarrow> (outgoing \<times> nat) list" where
  "pending p = (case pp_writing p of Some x \<Rightarrow> [x] | None \<Rightarrow> []) @ pp_queue p"

definition bytes_of :: "(outgoing \<times> nat) list \<Rightarrow> nat" where
  "bytes_of xs = sum_list (map snd xs)"

section \<open>What the client sends\<close>

datatype ws_error = Capacity | WsError string

datatype received =
    RcvText string | RcvBinary "u8 list" | RcvClose "(nat \<times> string) option" | RcvControl | RcvFailed ws_error

datatype incoming = InText string | InBinary "u8 list" | InClosed nat string | InError string

text \<open>
  What the reading task selects: the client is too slow, the runner drains, the idle time is over (and whether
  no frame came meanwhile), or the next message of the stream, \<^const>\<open>None\<close> at its end. \<open>reads\<close> is how many messages
  the worker takes before it drops its end.
\<close>

datatype read_event = TooSlow | Draining | IdleOver bool | Received "received option"

fun read_loop :: "nat \<Rightarrow> read_event list \<Rightarrow> incoming list \<times> outgoing list" where
  "read_loop reads [] = ([], [])"
| "read_loop reads (TooSlow # es) = ([InClosed 1008 ''The client does not read fast enough''], [])"
| "read_loop reads (Draining # es) = ([InClosed 1001 ''The runner is going away''], [OutClose 1001 ''The runner is going away''])"
| "read_loop reads (IdleOver still # es) =
     (if still then ([InClosed 1001 ''Idle for too long''], [OutClose 1001 ''Idle for too long'']) else read_loop reads es)"
| "read_loop reads (Received None # es) = ([], [])"
| "read_loop reads (Received (Some r) # es) =
     (let forward = (\<lambda>m. if reads = 0 then ([], []) else let (ins, outs) = read_loop (reads - 1) es in (m # ins, outs)) in
      case r of
        RcvText s \<Rightarrow> forward (InText s)
      | RcvBinary b \<Rightarrow> forward (InBinary b)
      | RcvClose frame \<Rightarrow> (case frame of Some (code, reason) \<Rightarrow> ([InClosed code reason], []) | None \<Rightarrow> ([InClosed 1000 []], []))
      | RcvControl \<Rightarrow> read_loop reads es
      | RcvFailed Capacity \<Rightarrow> ([InClosed 1009 ''Message too big''], [OutClose 1009 ''Message too big''])
      | RcvFailed (WsError e) \<Rightarrow> ([InError (''WS error: '' @ e)], []))"

section \<open>Invariant of the pipe\<close>

definition pipe_inv :: "out_pipe \<Rightarrow> bool" where
  "pipe_inv p \<longleftrightarrow>
     list_all (\<lambda>(m, b). b = out_bytes m) (pending p)
     \<and> bytes_of (pending p) \<le> pp_queued p
     \<and> bytes_of (butlast (pending p)) \<le> MAX_QUEUED_BYTES
     \<and> (\<exists>lost. pp_sent p = pp_written p @ map fst (pending p) @ lost \<and> (pp_stopped p \<or> lost = []))"

lemma bytes_of_simps [simp]:
  "bytes_of [] = 0" "bytes_of (x # xs) = snd x + bytes_of xs" "bytes_of (xs @ ys) = bytes_of xs + bytes_of ys"
  by (simp_all add: bytes_of_def)

lemma pipe_step_inv:
  assumes inv: "pipe_inv p" and step: "pipe_step p e = Some p'"
  shows "pipe_inv p'"
proof (cases e)
  case (FromWorker msg)
  have go: "\<not> pp_stopped p" using step FromWorker by (auto split: if_splits)
  then have sent: "pp_sent p = pp_written p @ map fst (pending p)" and fits: "bytes_of (pending p) \<le> pp_queued p"
    using inv by (auto simp: pipe_inv_def)
  define q where "q = p\<lparr> pp_sent := pp_sent p @ [msg], pp_queued := pp_queued p + out_bytes msg \<rparr>"
  have q: "pp_sent q = pp_sent p @ [msg]" "pp_written q = pp_written p" "pending q = pending p" "pp_queued q = pp_queued p + out_bytes msg"
    by (simp_all add: q_def pending_def)
  consider "p' = q\<lparr> pp_slow := True, pp_stopped := True \<rparr>" | "p' = q\<lparr> pp_stopped := True \<rparr>"
    | "p' = q\<lparr> pp_queue := pp_queue q @ [(msg, out_bytes msg)] \<rparr>" "pp_queued p < MAX_QUEUED_BYTES"
    using step FromWorker go by (auto simp: q_def Let_def split: if_splits)
  then show ?thesis
  proof cases
    case 3
    then have p': "pending p' = pending p @ [(msg, out_bytes msg)]" "pp_sent p' = pp_sent q" "pp_written p' = pp_written q" "pp_queued p' = pp_queued q"
      using q(3) by (simp_all add: pending_def)
    then show ?thesis using inv fits sent q 3(2) unfolding pipe_inv_def p' by simp
  next
    case 1
    then have "pending p' = pending p" using q(3) by (simp add: pending_def)
    then show ?thesis using 1 inv fits sent q by (simp add: pipe_inv_def)
  next
    case 2
    then have "pending p' = pending p" using q(3) by (simp add: pending_def)
    then show ?thesis using 2 inv fits sent q by (simp add: pipe_inv_def)
  qed
next
  case TakeWrite
  then obtain x q where x: "pp_queue p = x # q" "pp_writing p = None" "p' = p\<lparr> pp_queue := q, pp_writing := Some x \<rparr>"
    using step by (cases "pp_writing p") (auto split: list.splits if_splits)
  have "pending p' = pending p" using x by (simp add: pending_def)
  then show ?thesis using inv x by (simp add: pipe_inv_def)
next
  case (Written ok)
  then obtain m b where w: "pp_writing p = Some (m, b)" using step by (auto split: option.splits)
  show ?thesis
  proof (cases ok)
    case True
    have p': "p' = p\<lparr> pp_writing := None, pp_queued := pp_queued p - b, pp_written := pp_written p @ [m] \<rparr>"
      using step Written True w by (simp split: if_splits)
    have pend: "pending p = (m, b) # pending p'" using w by (simp add: pending_def p')
    have "bytes_of (butlast (pending p')) \<le> bytes_of (butlast (pending p))" by (cases "pending p'") (simp_all add: pend)
    then show ?thesis using inv unfolding pipe_inv_def pend by (auto simp: p')
  next
    case False
    then show ?thesis using step Written w inv by (auto simp: pipe_inv_def pending_def split: if_splits)
  qed
next
  case WriterCancelled
  then show ?thesis using step inv by (auto simp: pipe_inv_def pending_def split: if_splits)
qed

interpretation pipe_runs: step_invariant pipe_step "\<lambda>p. p = pipe_start" pipe_inv
proof
  show "pipe_inv p" if "p = pipe_start" for p using that by (simp add: pipe_inv_def pipe_start_def pending_def)
qed (rule pipe_step_inv)

section \<open>Properties\<close>



end
