(* ===== verification/Worker_Pool.thy ===== *)
theory Worker_Pool
  imports Semaphore Rust_Str "HOL-Library.AList"
begin

text \<open>
  \<open>src/worker_pool.rs\<close>: the threads tasks go to, the slots of running workers and of open WebSockets with the
  count of active tasks the drain reads, and the semaphores that bound the requests of one worker, which
  the map of them forgets when nobody else holds them.
\<close>

section \<open>Settings and threads\<close>

definition DEFAULT_WORKER_POOL_SIZE :: nat where "DEFAULT_WORKER_POOL_SIZE = 1"

definition DEFAULT_WORKER_WAIT_TIMEOUT_MS :: nat where "DEFAULT_WORKER_WAIT_TIMEOUT_MS = 10000"

definition U64_MAX :: nat where "U64_MAX = 2 ^ 64 - 1"

definition get_pool_size :: "(string \<Rightarrow> string option) \<Rightarrow> nat option \<Rightarrow> nat" where
  "get_pool_size env parallelism =
     (case Option.bind (env ''WORKER_POOL_SIZE'') (parse_unsigned USIZE_MAX) of
        Some n \<Rightarrow> n
      | None \<Rightarrow> (case parallelism of Some n \<Rightarrow> n | None \<Rightarrow> DEFAULT_WORKER_POOL_SIZE))"

definition max_queued_workers :: "(string \<Rightarrow> string option) \<Rightarrow> nat option \<Rightarrow> nat" where
  "max_queued_workers env parallelism =
     (case Option.bind (env ''MAX_QUEUED_WORKERS'') (parse_unsigned USIZE_MAX) of
        Some n \<Rightarrow> n | None \<Rightarrow> get_pool_size env parallelism * 10)"

definition max_ws_connections :: "(string \<Rightarrow> string option) \<Rightarrow> nat option \<Rightarrow> nat" where
  "max_ws_connections env parallelism =
     (case Option.bind (env ''MAX_WS_CONNECTIONS'') (parse_unsigned USIZE_MAX) of
        Some n \<Rightarrow> n | None \<Rightarrow> max_queued_workers env parallelism)"

definition get_worker_wait_timeout :: "(string \<Rightarrow> string option) \<Rightarrow> nat" where
  "get_worker_wait_timeout env =
     (case Option.bind (env ''WORKER_WAIT_TIMEOUT_MS'') (parse_unsigned U64_MAX) of
        Some n \<Rightarrow> n | None \<Rightarrow> DEFAULT_WORKER_WAIT_TIMEOUT_MS)"

definition max_concurrent_per_worker :: "(string \<Rightarrow> string option) \<Rightarrow> nat" where
  "max_concurrent_per_worker env =
     (case Option.bind (env ''MAX_CONCURRENT_PER_WORKER'') (parse_unsigned USIZE_MAX) of Some n \<Rightarrow> n | None \<Rightarrow> 10)"

text \<open>
  The pool as the queues of its threads and the counter of the round robin, which wraps; no thread is a
  division by zero, a panic (\<^const>\<open>None\<close>).
\<close>

record 't sequential_worker_pool =
  wp_senders :: "'t list list"
  wp_next_thread :: u64

definition pool_new :: "nat \<Rightarrow> 't sequential_worker_pool" where
  "pool_new pool_size = \<lparr> wp_senders = replicate pool_size [], wp_next_thread = 0 \<rparr>"

definition send_to :: "nat \<Rightarrow> 't \<Rightarrow> 't sequential_worker_pool \<Rightarrow> 't sequential_worker_pool" where
  "send_to thread_idx task p = p\<lparr> wp_senders := (wp_senders p)[thread_idx := wp_senders p ! thread_idx @ [task]] \<rparr>"

definition spawn :: "'t \<Rightarrow> 't sequential_worker_pool \<Rightarrow> 't sequential_worker_pool option" where
  "spawn task p =
     (let n = wp_next_thread p; p' = p\<lparr> wp_next_thread := n + 1 \<rparr> in
      if wp_senders p = [] then None else Some (send_to (unat n mod length (wp_senders p)) task p'))"

definition spawn_on :: "u64 \<Rightarrow> 't \<Rightarrow> 't sequential_worker_pool \<Rightarrow> 't sequential_worker_pool option" where
  "spawn_on key task p =
     (if wp_senders p = [] then None else Some (send_to (unat key mod length (wp_senders p)) task p))"

section \<open>The semaphore of a worker\<close>

definition MIN_PRUNE_AT :: nat where "MIN_PRUNE_AT = 1024"

text \<open>
  The semaphores are shared pointers: a list of all that were made, in which an index is the pointer. A
  request holds one while it waits for a permit and while it holds the permit, and the map holds one.
\<close>

record worker_limiters =
  wl_semaphores :: "(string \<times> nat) list"
  wl_prune_at :: nat

datatype holder = Waiting nat | Permit nat | Gone

fun held_arc :: "holder \<Rightarrow> nat option" where
  "held_arc (Waiting a) = Some a"
| "held_arc (Permit a) = Some a"
| "held_arc Gone = None"

record 's wlimit_state =
  ls_limiters :: worker_limiters
  ls_arcs :: "'s list"
  ls_requests :: "(string \<times> holder) list"

definition strong_count :: "'s wlimit_state \<Rightarrow> nat \<Rightarrow> nat" where
  "strong_count s a =
     tally (\<lambda>(_, b). b = a) (wl_semaphores (ls_limiters s)) + tally (\<lambda>(_, h). held_arc h = Some a) (ls_requests s)"

definition prune_limiters :: "'s wlimit_state \<Rightarrow> 's wlimit_state" where
  "prune_limiters s =
     (let l = ls_limiters s in
      if wl_prune_at l \<le> length (wl_semaphores l)
      then let kept = filter (\<lambda>(_, a). 1 < strong_count s a) (wl_semaphores l)
           in s\<lparr> ls_limiters := \<lparr> wl_semaphores = kept, wl_prune_at = max (length kept * 2) MIN_PRUNE_AT \<rparr> \<rparr>
      else s)"

definition get_worker_semaphore :: "'s semaphore_ops \<Rightarrow> nat \<Rightarrow> string \<Rightarrow> 's wlimit_state \<Rightarrow> 's wlimit_state \<times> nat" where
  "get_worker_semaphore S max_concurrent worker_id s0 =
     (let s = prune_limiters s0; l = ls_limiters s in
      case map_of (wl_semaphores l) worker_id of
        Some a \<Rightarrow> (s, a)
      | None \<Rightarrow>
          let a = length (ls_arcs s) in
          (s\<lparr> ls_limiters := l\<lparr> wl_semaphores := (worker_id, a) # wl_semaphores l \<rparr>,
              ls_arcs := ls_arcs s @ [sem_new S max_concurrent] \<rparr>, a))"

text \<open>
  A request of a worker: it takes the worker's semaphore, waits for a permit, and gives up or goes on; the
  permit goes back with its pointer.
\<close>

datatype wlimit_event = Arrive string | Acquire nat | TimedOut nat | Leave nat

fun wlimit_step :: "'s semaphore_ops \<Rightarrow> nat \<Rightarrow> 's wlimit_state \<Rightarrow> wlimit_event \<Rightarrow> 's wlimit_state option" where
  "wlimit_step S m s (Arrive w) =
     (let (s', a) = get_worker_semaphore S m w s in Some (s'\<lparr> ls_requests := ls_requests s' @ [(w, Waiting a)] \<rparr>))"
| "wlimit_step S m s (Acquire i) =
     (if i < length (ls_requests s)
      then case ls_requests s ! i of
             (w, Waiting a) \<Rightarrow>
               (case sem_take S (ls_arcs s ! a) of
                  Some c \<Rightarrow> Some (s\<lparr> ls_arcs := (ls_arcs s)[a := c], ls_requests := (ls_requests s)[i := (w, Permit a)] \<rparr>)
                | None \<Rightarrow> None)
           | _ \<Rightarrow> None
      else None)"
| "wlimit_step S m s (TimedOut i) =
     (if i < length (ls_requests s)
      then case ls_requests s ! i of (w, Waiting a) \<Rightarrow> Some (s\<lparr> ls_requests := (ls_requests s)[i := (w, Gone)] \<rparr>) | _ \<Rightarrow> None
      else None)"
| "wlimit_step S m s (Leave i) =
     (if i < length (ls_requests s)
      then case ls_requests s ! i of
             (w, Permit a) \<Rightarrow>
               Some (s\<lparr> ls_arcs := (ls_arcs s)[a := sem_release S (ls_arcs s ! a)], ls_requests := (ls_requests s)[i := (w, Gone)] \<rparr>)
           | _ \<Rightarrow> None
      else None)"

definition wlimit_start :: "'s wlimit_state" where
  "wlimit_start = \<lparr> ls_limiters = \<lparr> wl_semaphores = [], wl_prune_at = MIN_PRUNE_AT \<rparr>, ls_arcs = [], ls_requests = [] \<rparr>"

definition holds_permit :: "nat \<Rightarrow> string \<times> holder \<Rightarrow> bool" where
  "holds_permit a r \<longleftrightarrow> snd r = Permit a"

definition permits_of :: "string \<Rightarrow> string \<times> holder \<Rightarrow> bool" where
  "permits_of w r \<longleftrightarrow> fst r = w \<and> (\<exists>a. snd r = Permit a)"

definition wlimit_inv :: "'s semaphore_ops \<Rightarrow> nat \<Rightarrow> 's wlimit_state \<Rightarrow> bool" where
  "wlimit_inv S m s \<longleftrightarrow>
     distinct (map snd (wl_semaphores (ls_limiters s)))
     \<and> distinct (map fst (wl_semaphores (ls_limiters s)))
     \<and> (\<forall>(w, a) \<in> set (wl_semaphores (ls_limiters s)). a < length (ls_arcs s))
     \<and> (\<forall>(w, h) \<in> set (ls_requests s). \<forall>a. held_arc h = Some a \<longrightarrow> (w, a) \<in> set (wl_semaphores (ls_limiters s)))
     \<and> (\<forall>a < length (ls_arcs s). sem_available S (ls_arcs s ! a) + tally (holds_permit a) (ls_requests s) = m
          \<and> \<not> sem_closed S (ls_arcs s ! a))
     \<and> length (wl_semaphores (ls_limiters s)) \<le> wl_prune_at (ls_limiters s)"

lemma wlimit_invD:
  assumes "wlimit_inv S m s"
  shows "distinct (map snd (wl_semaphores (ls_limiters s)))" and "distinct (map fst (wl_semaphores (ls_limiters s)))"
    and "(w, a) \<in> set (wl_semaphores (ls_limiters s)) \<Longrightarrow> a < length (ls_arcs s)"
    and "(w, h) \<in> set (ls_requests s) \<Longrightarrow> held_arc h = Some a \<Longrightarrow> (w, a) \<in> set (wl_semaphores (ls_limiters s))"
    and "a < length (ls_arcs s) \<Longrightarrow> sem_available S (ls_arcs s ! a) + tally (holds_permit a) (ls_requests s) = m"
    and "a < length (ls_arcs s) \<Longrightarrow> \<not> sem_closed S (ls_arcs s ! a)"
    and "length (wl_semaphores (ls_limiters s)) \<le> wl_prune_at (ls_limiters s)"
  using assms by (auto simp: wlimit_inv_def)

text \<open>A pointer of the map that a request also holds is counted at least twice, so no prune drops it.\<close>

lemma held_is_shared:
  assumes "(v, a) \<in> set (wl_semaphores (ls_limiters s))" "(w, h) \<in> set (ls_requests s)" "held_arc h = Some a"
  shows "1 < strong_count s a"
proof -
  have "tally (\<lambda>(_, b). b = a) (wl_semaphores (ls_limiters s)) \<noteq> 0" "tally (\<lambda>(_, h). held_arc h = Some a) (ls_requests s) \<noteq> 0"
    using assms by (auto simp: tally_zero_iff)
  then show ?thesis by (simp add: strong_count_def)
qed

lemma prune_inv:
  assumes "wlimit_inv S m s"
  shows "wlimit_inv S m (prune_limiters s)" and "ls_arcs (prune_limiters s) = ls_arcs s"
    and "ls_requests (prune_limiters s) = ls_requests s"
    and "length (wl_semaphores (ls_limiters (prune_limiters s))) < wl_prune_at (ls_limiters (prune_limiters s))"
proof -
  note I = wlimit_invD [OF assms]
  let ?kept = "filter (\<lambda>(_, a). 1 < strong_count s a) (wl_semaphores (ls_limiters s))"
  have kept: "(w, a) \<in> set ?kept" if "(w, h) \<in> set (ls_requests s)" "held_arc h = Some a" for w h a
    using I(4) [OF that] held_is_shared [OF I(4) [OF that] that] by simp
  have map: "distinct (map snd ?kept)" "distinct (map fst ?kept)" "\<forall>(w, a) \<in> set ?kept. a < length (ls_arcs s)"
    using I(1,2,3) by (auto simp: distinct_map_filter)
  show "wlimit_inv S m (prune_limiters s)"
    using assms map kept by (auto simp: wlimit_inv_def prune_limiters_def Let_def)
  show "ls_arcs (prune_limiters s) = ls_arcs s" "ls_requests (prune_limiters s) = ls_requests s"
    "length (wl_semaphores (ls_limiters (prune_limiters s))) < wl_prune_at (ls_limiters (prune_limiters s))"
    by (auto simp: prune_limiters_def Let_def MIN_PRUNE_AT_def)
qed

locale worker_limits = semaphore S for S :: "'s semaphore_ops"
begin

lemma get_worker_semaphore_inv:
  assumes inv: "wlimit_inv S m s" and get: "get_worker_semaphore S m w s = (s', a)"
  shows "wlimit_inv S m s'" and "(w, a) \<in> set (wl_semaphores (ls_limiters s'))" and "ls_requests s' = ls_requests s"
proof -
  define p where "p = prune_limiters s"
  have p: "wlimit_inv S m p" "ls_requests p = ls_requests s" "length (wl_semaphores (ls_limiters p)) < wl_prune_at (ls_limiters p)"
    using prune_inv [OF inv] by (simp_all add: p_def)
  have "wlimit_inv S m s' \<and> (w, a) \<in> set (wl_semaphores (ls_limiters s')) \<and> ls_requests s' = ls_requests s"
  proof (cases "map_of (wl_semaphores (ls_limiters p)) w")
    case (Some b)
    then show ?thesis using get p by (auto simp: get_worker_semaphore_def p_def Let_def dest: map_of_SomeD)
  next
    case None
    have s': "s' = p\<lparr> ls_limiters := (ls_limiters p)\<lparr> wl_semaphores := (w, length (ls_arcs p)) # wl_semaphores (ls_limiters p) \<rparr>,
        ls_arcs := ls_arcs p @ [sem_new S m] \<rparr>" "a = length (ls_arcs p)"
      using get None by (auto simp: get_worker_semaphore_def p_def Let_def)
    note I = wlimit_invD [OF p(1)]
    have none: "tally (holds_permit (length (ls_arcs p))) (ls_requests p) = 0"
    proof (rule ccontr)
      assume "tally (holds_permit (length (ls_arcs p))) (ls_requests p) \<noteq> 0"
      then obtain v where "(v, Permit (length (ls_arcs p))) \<in> set (ls_requests p)" by (auto simp: tally_zero_iff holds_permit_def)
      then show False using I(3) [OF I(4)] by fastforce
    qed
    have "wlimit_inv S m s'"
      unfolding wlimit_inv_def
    proof (intro conjI)
      show "distinct (map snd (wl_semaphores (ls_limiters s')))" using I(1,3) by (fastforce simp: s')
      show "distinct (map fst (wl_semaphores (ls_limiters s')))" using I(2) None by (auto simp: s' map_of_eq_None_iff)
      show "\<forall>(w, a)\<in>set (wl_semaphores (ls_limiters s')). a < length (ls_arcs s')" using I(3) by (fastforce simp: s')
      show "\<forall>(w, h)\<in>set (ls_requests s'). \<forall>a. held_arc h = Some a \<longrightarrow> (w, a) \<in> set (wl_semaphores (ls_limiters s'))"
        using I(4) by (auto simp: s')
      show "\<forall>a<length (ls_arcs s'). sem_available S (ls_arcs s' ! a) + tally (holds_permit a) (ls_requests s') = m
          \<and> \<not> sem_closed S (ls_arcs s' ! a)"
        using I(5,6) none new_available new_open by (auto simp: s' less_Suc_eq nth_append)
      show "length (wl_semaphores (ls_limiters s')) \<le> wl_prune_at (ls_limiters s')" using p(3) by (simp add: s')
    qed
    then show ?thesis using p(2) by (simp add: s')
  qed
  then show "wlimit_inv S m s'" "(w, a) \<in> set (wl_semaphores (ls_limiters s'))" "ls_requests s' = ls_requests s" by blast+
qed

text \<open>Request \<open>i\<close> changes its hold on its own semaphore, which counts the change.\<close>

lemma holder_moves:
  assumes inv: "wlimit_inv S m s" and i: "i < length (ls_requests s)" "ls_requests s ! i = (w, h)" "held_arc h = Some a"
    and h': "held_arc h' = Some a \<or> h' = Gone"
    and c: "sem_available S c + of_bool (h' = Permit a) = sem_available S (ls_arcs s ! a) + of_bool (h = Permit a)"
      "sem_closed S c = sem_closed S (ls_arcs s ! a)"
  shows "wlimit_inv S m (s\<lparr> ls_arcs := (ls_arcs s)[a := c], ls_requests := (ls_requests s)[i := (w, h')] \<rparr>)"
proof -
  note I = wlimit_invD [OF inv]
  have mem: "(w, h) \<in> set (ls_requests s)" using i nth_mem by metis
  have a: "a < length (ls_arcs s)" by (rule I(3) [OF I(4) [OF mem i(3)]])
  have t: "tally (holds_permit b) ((ls_requests s)[i := (w, h')]) + of_bool (h = Permit b)
      = tally (holds_permit b) (ls_requests s) + of_bool (h' = Permit b)" for b
    using tally_update [OF i(1), of "holds_permit b" "(w, h')"] i(2) by (simp add: holds_permit_def)
  have other: "h \<noteq> Permit b" "h' \<noteq> Permit b" if "b \<noteq> a" for b
    using that i(3) h' by (cases h; cases h'; auto)+
  have counts: "sem_available S ((ls_arcs s)[a := c] ! b) + tally (holds_permit b) ((ls_requests s)[i := (w, h')]) = m
      \<and> \<not> sem_closed S ((ls_arcs s)[a := c] ! b)" if "b < length (ls_arcs s)" for b
    using I(5,6) [OF that] t [of b] c other [of b] a by (cases "b = a") auto
  have reqs: "(v, d) \<in> set (wl_semaphores (ls_limiters s))"
    if "(v, k) \<in> set ((ls_requests s)[i := (w, h')])" "held_arc k = Some d" for v k d
    using that set_update_subset_insert [of "ls_requests s" i "(w, h')"] I(4) [of v k d] I(4) [OF mem i(3)] h' by auto
  show ?thesis using inv counts reqs unfolding wlimit_inv_def by auto
qed

lemma wlimit_step_inv:
  assumes inv: "wlimit_inv S m s" and step: "wlimit_step S m s e = Some s'"
  shows "wlimit_inv S m s'"
proof (cases e)
  case (Arrive w)
  obtain t a where get: "get_worker_semaphore S m w s = (t, a)" by fastforce
  have s': "s' = t\<lparr> ls_requests := ls_requests t @ [(w, Waiting a)] \<rparr>" using step Arrive get by simp
  show ?thesis
    using get_worker_semaphore_inv [OF inv get] by (auto simp: s' wlimit_inv_def holds_permit_def)
next
  case (Acquire i)
  then obtain w a c where r: "i < length (ls_requests s)" "ls_requests s ! i = (w, Waiting a)" "sem_take S (ls_arcs s ! a) = Some c"
    and s': "s' = s\<lparr> ls_arcs := (ls_arcs s)[a := c], ls_requests := (ls_requests s)[i := (w, Permit a)] \<rparr>"
    using step by (auto split: if_splits prod.splits holder.splits option.splits)
  show ?thesis unfolding s'
    by (rule holder_moves [OF inv r(1,2)]) (use take_available [OF r(3)] take_closed [OF r(3)] in simp_all)
next
  case (TimedOut i)
  then obtain w a where r: "i < length (ls_requests s)" "ls_requests s ! i = (w, Waiting a)"
    and s': "s' = s\<lparr> ls_requests := (ls_requests s)[i := (w, Gone)] \<rparr>"
    using step by (auto split: if_splits prod.splits holder.splits)
  have "wlimit_inv S m (s\<lparr> ls_arcs := (ls_arcs s)[a := ls_arcs s ! a], ls_requests := (ls_requests s)[i := (w, Gone)] \<rparr>)"
    by (rule holder_moves [OF inv r]) simp_all
  then show ?thesis by (simp add: s')
next
  case (Leave i)
  then obtain w a where r: "i < length (ls_requests s)" "ls_requests s ! i = (w, Permit a)"
    and s': "s' = s\<lparr> ls_arcs := (ls_arcs s)[a := sem_release S (ls_arcs s ! a)], ls_requests := (ls_requests s)[i := (w, Gone)] \<rparr>"
    using step by (auto split: if_splits prod.splits holder.splits)
  show ?thesis unfolding s'
    by (rule holder_moves [OF inv r]) (simp_all add: release_available release_closed)
qed

text \<open>The permits of a worker are those of the one semaphore the map has for it.\<close>

lemma permits_bounded:
  assumes inv: "wlimit_inv S m s"
  shows "tally (permits_of w) (ls_requests s) \<le> m"
proof (cases "map_of (wl_semaphores (ls_limiters s)) w")
  case None
  have "\<not> permits_of w r" if "r \<in> set (ls_requests s)" for r
    using wlimit_invD(4) [OF inv, of w "snd r"] that None
    by (cases r) (force simp: permits_of_def map_of_eq_None_iff image_iff)
  then have "tally (permits_of w) (ls_requests s) = 0" by (auto simp: tally_zero_iff)
  then show ?thesis by simp
next
  case (Some a)
  have a: "a < length (ls_arcs s)" by (rule wlimit_invD(3) [OF inv map_of_SomeD [OF Some]])
  have "tally (permits_of w) (ls_requests s) \<le> tally (holds_permit a) (ls_requests s)"
  proof (rule tally_mono)
    fix r assume r: "r \<in> set (ls_requests s)" "permits_of w r"
    then obtain b where b: "r = (w, Permit b)" by (metis permits_of_def prod.collapse)
    have "(w, b) \<in> set (wl_semaphores (ls_limiters s))" using wlimit_invD(4) [OF inv, of w "Permit b"] r(1) b by simp
    then have "b = a" using Some wlimit_invD(2) [OF inv] by (metis map_of_eq_Some_iff option.inject)
    then show "holds_permit a r" by (simp add: b holds_permit_def)
  qed
  then show ?thesis using wlimit_invD(5) [OF inv a] by linarith
qed

lemma blocked_by_own_worker:
  assumes inv: "wlimit_inv S m s" and i: "i < length (ls_requests s)" "ls_requests s ! i = (w, Waiting a)"
    and blocked: "sem_take S (ls_arcs s ! a) = None"
  shows "tally (permits_of w) (ls_requests s) = m"
proof -
  have "(w, Waiting a) \<in> set (ls_requests s)" using i nth_mem by metis
  then have mem: "(w, a) \<in> set (wl_semaphores (ls_limiters s))" using wlimit_invD(4) [OF inv] by fastforce
  have a: "a < length (ls_arcs s)" by (rule wlimit_invD(3) [OF inv mem])
  have "sem_available S (ls_arcs s ! a) = 0" using blocked take_None_iff wlimit_invD(6) [OF inv a] by blast
  then have full: "tally (holds_permit a) (ls_requests s) = m" using wlimit_invD(5) [OF inv a] by simp
  have "tally (holds_permit a) (ls_requests s) \<le> tally (permits_of w) (ls_requests s)"
  proof (rule tally_mono)
    fix r assume r: "r \<in> set (ls_requests s)" "holds_permit a r"
    then have "(fst r, Permit a) \<in> set (ls_requests s)" by (metis prod.collapse holds_permit_def)
    then have "(fst r, a) \<in> set (wl_semaphores (ls_limiters s))" using wlimit_invD(4) [OF inv] by fastforce
    then have "fst r = w" using mem wlimit_invD(1) [OF inv] by (metis distinct_map inj_onD prod.inject snd_conv)
    then show "permits_of w r" using r(2) by (simp add: permits_of_def holds_permit_def)
  qed
  then show ?thesis using full permits_bounded [OF inv, of w] by simp
qed

end

sublocale worker_limits \<subseteq> wlimit_runs: step_invariant "wlimit_step S m" "\<lambda>s. s = wlimit_start" "wlimit_inv S m" for m
proof
  show "wlimit_inv S m s" if "s = wlimit_start" for s using that by (simp add: wlimit_inv_def wlimit_start_def)
qed (rule wlimit_step_inv)

context worker_limits
begin

lemma reachable_limits:
  assumes "runs (wlimit_step S m) wlimit_start es = Some s"
  shows "wlimit_inv S m s"
  by (rule wlimit_runs.runs_inv [OF refl assms])

end

interpretation counted_limits: worker_limits count_sem
  by unfold_locales

section \<open>The slots of tasks and sockets\<close>

text \<open>
  A task has a slot that holds a permit of the workers or of the sockets until its JavaScript ends; a handler
  that accepted an upgrade holds a permit of the sockets outside any slot until it trades or drops it.
\<close>

datatype permit_kind = WorkerPermit | SocketPermit

record 's pool_slots =
  ps_workers :: 's
  ps_sockets :: 's
  ps_slots :: "permit_kind option list"
  ps_offers :: nat

definition slots_start :: "'s semaphore_ops \<Rightarrow> nat \<Rightarrow> nat \<Rightarrow> 's pool_slots" where
  "slots_start S max_workers max_sockets =
     \<lparr> ps_workers = sem_new S max_workers, ps_sockets = sem_new S max_sockets, ps_slots = [], ps_offers = 0 \<rparr>"

definition drop_permit :: "'s semaphore_ops \<Rightarrow> permit_kind \<Rightarrow> 's pool_slots \<Rightarrow> 's pool_slots" where
  "drop_permit S k p =
     (case k of
        WorkerPermit \<Rightarrow> p\<lparr> ps_workers := sem_release S (ps_workers p) \<rparr>
      | SocketPermit \<Rightarrow> p\<lparr> ps_sockets := sem_release S (ps_sockets p) \<rparr>)"

definition slot_new :: "'s semaphore_ops \<Rightarrow> 's pool_slots \<Rightarrow> 's pool_slots option" where
  "slot_new S p =
     (case sem_take S (ps_workers p) of
        Some c \<Rightarrow> Some (p\<lparr> ps_workers := c, ps_slots := ps_slots p @ [Some WorkerPermit] \<rparr>)
      | None \<Rightarrow> None)"

definition offer_socket :: "'s semaphore_ops \<Rightarrow> 's pool_slots \<Rightarrow> 's pool_slots option" where
  "offer_socket S p =
     (case sem_take S (ps_sockets p) of
        Some c \<Rightarrow> Some (p\<lparr> ps_sockets := c, ps_offers := ps_offers p + 1 \<rparr>)
      | None \<Rightarrow> None)"

definition withdraw_offer :: "'s semaphore_ops \<Rightarrow> 's pool_slots \<Rightarrow> 's pool_slots option" where
  "withdraw_offer S p =
     (if 0 < ps_offers p then Some (drop_permit S SocketPermit (p\<lparr> ps_offers := ps_offers p - 1 \<rparr>)) else None)"

definition slot_trade :: "'s semaphore_ops \<Rightarrow> nat \<Rightarrow> 's pool_slots \<Rightarrow> 's pool_slots option" where
  "slot_trade S i p =
     (if 0 < ps_offers p \<and> i < length (ps_slots p)
      then let q = p\<lparr> ps_offers := ps_offers p - 1 \<rparr> in
           case ps_slots p ! i of
             Some old \<Rightarrow> Some (drop_permit S old (q\<lparr> ps_slots := (ps_slots q)[i := Some SocketPermit] \<rparr>))
           | None \<Rightarrow> Some (drop_permit S SocketPermit q)
      else None)"

definition task_drop :: "'s semaphore_ops \<Rightarrow> nat \<Rightarrow> 's pool_slots \<Rightarrow> 's pool_slots option" where
  "task_drop S i p =
     (if i < length (ps_slots p)
      then case ps_slots p ! i of
             Some old \<Rightarrow> Some (drop_permit S old (p\<lparr> ps_slots := (ps_slots p)[i := None] \<rparr>))
           | None \<Rightarrow> Some p
      else None)"

definition get_active_tasks :: "'s semaphore_ops \<Rightarrow> nat \<Rightarrow> nat \<Rightarrow> 's pool_slots \<Rightarrow> nat option" where
  "get_active_tasks S max_workers max_sockets p =
     (let w = sem_available S (ps_workers p); k = sem_available S (ps_sockets p) in
      if w \<le> max_workers \<and> k \<le> max_sockets then Some ((max_workers - w) + (max_sockets - k)) else None)"

datatype slot_event = StartTask | OfferSocket | WithdrawOffer | Trade nat | EndTask nat

fun slot_step :: "'s semaphore_ops \<Rightarrow> 's pool_slots \<Rightarrow> slot_event \<Rightarrow> 's pool_slots option" where
  "slot_step S p StartTask = slot_new S p"
| "slot_step S p OfferSocket = offer_socket S p"
| "slot_step S p WithdrawOffer = withdraw_offer S p"
| "slot_step S p (Trade i) = slot_trade S i p"
| "slot_step S p (EndTask i) = task_drop S i p"

definition pslots_inv :: "'s semaphore_ops \<Rightarrow> nat \<Rightarrow> nat \<Rightarrow> 's pool_slots \<Rightarrow> bool" where
  "pslots_inv S mw ms p \<longleftrightarrow>
     sem_available S (ps_workers p) + tally (\<lambda>k. k = Some WorkerPermit) (ps_slots p) = mw
     \<and> sem_available S (ps_sockets p) + tally (\<lambda>k. k = Some SocketPermit) (ps_slots p) + ps_offers p = ms"

lemma tally_held:
  "tally (\<lambda>k. k \<noteq> None) ks = tally (\<lambda>k. k = Some WorkerPermit) ks + tally (\<lambda>k. k = Some SocketPermit) ks"
proof (induction ks)
  case (Cons k ks)
  then show ?case by (cases k) (auto simp: permit_kind.exhaust intro: permit_kind.exhaust)
qed simp

context worker_limits
begin

lemma pslots_inv_step:
  assumes inv: "pslots_inv S mw ms p" and step: "slot_step S p e = Some p'"
  shows "pslots_inv S mw ms p'"
proof (cases e)
  case StartTask
  then show ?thesis using step inv take_available [of "ps_workers p"]
    by (auto simp: slot_new_def pslots_inv_def split: option.splits)
next
  case OfferSocket
  then show ?thesis using step inv take_available [of "ps_sockets p"]
    by (auto simp: offer_socket_def pslots_inv_def split: option.splits)
next
  case WithdrawOffer
  then show ?thesis using step inv
    by (auto simp: withdraw_offer_def pslots_inv_def drop_permit_def release_available split: if_splits)
next
  case (Trade i)
  have i: "i < length (ps_slots p)" "0 < ps_offers p" using step Trade by (auto simp: slot_trade_def split: if_splits)
  show ?thesis
    using step Trade inv i(2) tally_update [OF i(1), of "\<lambda>k. k = Some WorkerPermit" "Some SocketPermit"]
      tally_update [OF i(1), of "\<lambda>k. k = Some SocketPermit" "Some SocketPermit"]
    by (auto simp: slot_trade_def pslots_inv_def drop_permit_def release_available Let_def
        split: if_splits option.splits permit_kind.splits)
next
  case (EndTask i)
  have i: "i < length (ps_slots p)" using step EndTask by (auto simp: task_drop_def split: if_splits)
  show ?thesis
    using step EndTask inv tally_update [OF i, of "\<lambda>k. k = Some WorkerPermit" None] tally_update [OF i, of "\<lambda>k. k = Some SocketPermit" None]
    by (auto simp: task_drop_def pslots_inv_def drop_permit_def release_available
        split: if_splits option.splits permit_kind.splits)
qed

end

sublocale worker_limits \<subseteq> slot_runs: step_invariant "slot_step S" "\<lambda>p. p = slots_start S mw ms" "pslots_inv S mw ms" for mw ms
proof
  show "pslots_inv S mw ms p" if "p = slots_start S mw ms" for p
    using that by (simp add: pslots_inv_def slots_start_def new_available)
qed (rule pslots_inv_step)

context worker_limits
begin

lemma reachable_slots:
  assumes "runs (slot_step S) (slots_start S mw ms) es = Some p"
  shows "pslots_inv S mw ms p"
  by (rule slot_runs.runs_inv [OF refl assms])

end

section \<open>Properties\<close>

text \<open>
  C25. However requests come, wait, give up and end, and whenever the map forgets the semaphores nobody else
  holds, at most the configured number of requests of one worker hold a permit at once; a request that cannot
  take one finds them all taken by its own worker, and the map never outgrows the size of its next prune.
\<close>

theorem worker_concurrency_bound:
  assumes sem: "semaphore S" and run: "runs (wlimit_step S m) wlimit_start es = Some s"
  shows "tally (permits_of w) (ls_requests s) \<le> m
    \<and> length (wl_semaphores (ls_limiters s)) \<le> wl_prune_at (ls_limiters s)
    \<and> (i < length (ls_requests s) \<and> ls_requests s ! i = (w, Waiting a) \<and> wlimit_step S m s (Acquire i) = None
        \<longrightarrow> tally (permits_of w) (ls_requests s) = m)"
proof -
  have W: "worker_limits S" by (simp add: worker_limits_def sem)
  have inv: "wlimit_inv S m s" by (rule worker_limits.reachable_limits [OF W run])
  have "tally (permits_of w) (ls_requests s) = m"
    if "i < length (ls_requests s)" "ls_requests s ! i = (w, Waiting a)" "wlimit_step S m s (Acquire i) = None"
    using worker_limits.blocked_by_own_worker [OF W inv that(1,2)] that by (auto split: option.splits)
  then show ?thesis using worker_limits.permits_bounded [OF W inv] wlimit_invD(7) [OF inv] by blast
qed

definition demo_limits :: "wlimit_event list" where
  "demo_limits = [Arrive ''a'', Arrive ''a'', Arrive ''b'', Acquire 0, Acquire 2]"

theorem worker_concurrency_bound_witness:
  "\<exists>s. runs (wlimit_step count_sem 1) wlimit_start demo_limits = Some s \<and> tally (permits_of ''a'') (ls_requests s) = 1
     \<and> wlimit_step count_sem 1 s (Acquire 1) = None"
proof -
  have "\<exists>s. runs (wlimit_step count_sem 1) wlimit_start demo_limits = Some s \<and> 1 < length (ls_requests s)
      \<and> ls_requests s ! 1 = (''a'', Waiting 0) \<and> wlimit_step count_sem 1 s (Acquire 1) = None"
    by (simp add: demo_limits_def wlimit_start_def get_worker_semaphore_def prune_limiters_def MIN_PRUNE_AT_def count_sem_def)
  then obtain s where s: "runs (wlimit_step count_sem 1) wlimit_start demo_limits = Some s" "1 < length (ls_requests s)"
      "ls_requests s ! 1 = (''a'', Waiting 0)" "wlimit_step count_sem 1 s (Acquire 1) = None" by blast
  from worker_concurrency_bound [OF counting.semaphore_axioms s(1), of "''a''" 1 0] s show ?thesis by blast
qed

text \<open>
  C35. The count of active tasks the drain reads never underflows and is exact: the tasks that hold a slot and
  the upgrades that hold a permit outside one. It is zero only when no task and no upgrade is left.
\<close>

theorem active_tasks_exact:
  assumes sem: "semaphore S" and run: "runs (slot_step S) (slots_start S mw ms) es = Some p"
  shows "get_active_tasks S mw ms p = Some (tally (\<lambda>k. k \<noteq> None) (ps_slots p) + ps_offers p)
    \<and> tally (\<lambda>k. k \<noteq> None) (ps_slots p) + ps_offers p \<le> mw + ms"
proof -
  have W: "worker_limits S" by (simp add: worker_limits_def sem)
  have "pslots_inv S mw ms p" by (rule worker_limits.reachable_slots [OF W run])
  then show ?thesis unfolding pslots_inv_def get_active_tasks_def tally_held by (auto simp: Let_def)
qed

theorem active_tasks_exact_witness:
  "\<exists>p. runs (slot_step count_sem) (slots_start count_sem 2 1) [StartTask, StartTask, OfferSocket, Trade 0, EndTask 1] = Some p
     \<and> get_active_tasks count_sem 2 1 p = Some 1"
proof -
  have "\<exists>p. runs (slot_step count_sem) (slots_start count_sem 2 1) [StartTask, StartTask, OfferSocket, Trade 0, EndTask 1] = Some p
      \<and> ps_slots p = [Some SocketPermit, None] \<and> ps_offers p = 0"
    by (simp add: slots_start_def slot_new_def offer_socket_def slot_trade_def task_drop_def drop_permit_def count_sem_def)
  then obtain p where p: "runs (slot_step count_sem) (slots_start count_sem 2 1) [StartTask, StartTask, OfferSocket, Trade 0, EndTask 1] = Some p"
      "ps_slots p = [Some SocketPermit, None]" "ps_offers p = 0" by blast
  from active_tasks_exact [OF counting.semaphore_axioms p(1)] p show ?thesis by auto
qed

end
