(* ===== verification/Request_Handler.thy ===== *)
theory Request_Handler
  imports Worker_Ops Websocket Ingress_Props Resolve_Cache Worker_Pool
begin

text \<open>
  \<open>bin/main.rs\<close>: what the runner does with a request of each listener: the administration of the internal one,
  the preparation of the public ones, and the way of a request to its worker, with every refusal on it. What
  the request finds on that way (the caches, the semaphores, the body, the worker's run) is an environment.
\<close>

section \<open>Responses\<close>

type_synonym 'h answer = "('h, string) http_response"

definition error_response :: "'h header_ops \<Rightarrow> nat \<Rightarrow> string \<Rightarrow> 'h answer" where
  "error_response H status message =
     \<lparr> rs_status = status, rs_headers = hm_append H (hm_empty H) ''content-type'' ''text/plain'', rs_body = message \<rparr>"

definition json_response :: "'h header_ops \<Rightarrow> string \<Rightarrow> 'h answer" where
  "json_response H body =
     \<lparr> rs_status = 200, rs_headers = hm_append H (hm_empty H) ''content-type'' ''application/json'', rs_body = body \<rparr>"

definition plain_response :: "'h header_ops \<Rightarrow> string \<Rightarrow> 'h answer" where
  "plain_response H body = \<lparr> rs_status = 200, rs_headers = hm_empty H, rs_body = body \<rparr>"

definition forwarded_scheme :: "'h header_ops \<Rightarrow> 'h \<Rightarrow> string" where
  "forwarded_scheme H h =
     (case hm_get_str H h ''x-forwarded-proto'' of
        Some v \<Rightarrow>
          let scheme = trim_str (hd (split_char (CHR '','') v)) in
          if scheme = ''https'' \<or> scheme = ''http'' then scheme else ''http''
      | None \<Rightarrow> ''http'')"

text \<open>A termination reason of the runtime: its status, its text and its debug form.\<close>

record termination_reason =
  tr_status :: nat
  tr_text :: string
  tr_debug :: string

definition terminated_response :: "'h header_ops \<Rightarrow> (unit, termination_reason) result \<Rightarrow> 'h answer" where
  "terminated_response H result =
     (case result of
        Ok _ \<Rightarrow> error_response H 500 ''Worker completed but did not send a response (missing fetch event listener?)''
      | Err reason \<Rightarrow>
          let r = error_response H (tr_status reason) (tr_text reason) in
          r\<lparr> rs_headers := hm_insert H (rs_headers r) ''x-termination-reason'' (tr_debug reason) \<rparr>)"

section \<open>Administration\<close>

datatype listener_kind = Internal | Public

fun ip_is_loopback :: "ip_addr \<Rightarrow> bool" where
  "ip_is_loopback (V4 ip) = is_loopback ip"
| "ip_is_loopback (V6 ip) = is_loopback6 ip"

definition admin_allowed :: "'h header_ops \<Rightarrow> listener_kind \<Rightarrow> peer \<Rightarrow> 'h \<Rightarrow> bool" where
  "admin_allowed H listener p h \<longleftrightarrow>
     listener = Internal \<and> (case peer_ip p of Some ip \<Rightarrow> ip_is_loopback ip | None \<Rightarrow> False)
     \<and> hm_get H h INTERNAL_ROUTE_HEADER = None"

record server_state =
  sv_draining :: bool
  sv_shutdowns :: nat

definition bool_text :: "bool \<Rightarrow> string" where
  "bool_text b = (if b then ''true'' else ''false'')"

definition quoted :: "string \<Rightarrow> string" where
  "quoted s = [CHR 0x22] @ s @ [CHR 0x22]"

text \<open>
  The endpoints of the administration; \<open>active\<close> is the count of active tasks and \<open>pool_stats\<close> what the engine
  reports of its isolates, as JSON. \<^const>\<open>None\<close> is a path that is none of them.
\<close>

definition admin_endpoint ::
  "'h header_ops \<Rightarrow> nat \<Rightarrow> string \<Rightarrow> 'h http_request \<Rightarrow> server_state \<Rightarrow> (server_state \<times> 'h answer) option" where
  "admin_endpoint H active pool_stats req s =
     (let path = uri_path (rq_uri req); meth = rq_method req in
      if path = ''/health'' then Some (s, plain_response H ''OK'')
      else if path = ''/admin/drain'' \<and> meth = ''POST''
      then Some (s\<lparr> sv_draining := True, sv_shutdowns := sv_shutdowns s + (if active = 0 then 1 else 0) \<rparr>,
                 json_response H (''{'' @ quoted ''draining'' @ '':true}''))
      else if path = ''/admin/tasks'' \<and> meth = ''GET''
      then Some (s, json_response H (''{'' @ quoted ''active_tasks'' @ '':'' @ show_nat active @ ''}''))
      else if path = ''/admin/stats'' \<and> meth = ''GET''
      then Some (s, json_response H (''{'' @ quoted ''active_tasks'' @ '':'' @ show_nat active @ '','' @ quoted ''draining'' @ '':'' @ bool_text (sv_draining s) @ ''}''))
      else if path = ''/admin/pool'' \<and> meth = ''GET'' then Some (s, json_response H pool_stats)
      else None)"

section \<open>The way to a worker\<close>

datatype permit_wait = Acquired | Closed | WaitedTooLong

datatype run_end =
    Responded nat "(string \<times> string) list" string
  | NoResponse "(unit, termination_reason) result"
  | DeadlinePassed

record 'h handler_env =
  he_resolve :: "request_key \<Rightarrow> (request_resolution option, string) result"
  he_worker :: "string \<Rightarrow> (worker_with_bindings option, string) result"
  he_connection :: "(unit, string) result"
  he_storage_config :: "string \<Rightarrow> storage_config option"
  he_ops :: ops_env
  he_asset_answer :: "fetch_response \<Rightarrow> 'h answer"
  he_worker_permit :: "string \<Rightarrow> permit_wait"
  he_max_body :: nat
  he_ws :: ws_crates
  he_http11 :: bool
  he_socket_slot :: bool
  he_body :: "nat \<Rightarrow> (u8 list, body_error) result"
  he_core_headers :: "'h \<Rightarrow> (string \<times> string) list"
  he_wait_timeout :: nat
  he_permit :: "nat \<Rightarrow> permit_wait"
  he_core_answer :: "nat \<Rightarrow> (string \<times> string) list \<Rightarrow> string \<Rightarrow> 'h answer"
  he_run :: "worker_with_bindings \<Rightarrow> (string \<times> string) list \<Rightarrow> bool \<Rightarrow> run_end"
  he_timeout_reason :: termination_reason

text \<open>
  How a request ends: refused under a reason the metrics count, served from the assets of its project, or given
  to its worker with the headers the worker sees, the accept key of an upgrade and the answer.
\<close>

datatype 'h handled =
    Refused string "'h answer"
  | AssetServed "'h answer"
  | WorkerRan worker_with_bindings "(string \<times> string) list" "string option" "'h answer"

fun handled_answer :: "'h handled \<Rightarrow> 'h answer" where
  "handled_answer (Refused reason a) = a"
| "handled_answer (AssetServed a) = a"
| "handled_answer (WorkerRan w hs accept a) = a"

definition refuse :: "'h header_ops \<Rightarrow> nat \<Rightarrow> string \<Rightarrow> string \<Rightarrow> 'h handled" where
  "refuse H status reason message = Refused reason (error_response H status message)"

definition load_worker :: "'h header_ops \<Rightarrow> 'h handler_env \<Rightarrow> string \<Rightarrow> string \<Rightarrow> (worker_with_bindings, 'h handled) result" where
  "load_worker H E worker_id missing =
     (case he_worker E worker_id of
        Ok (Some w) \<Rightarrow> Ok w
      | Err _ \<Rightarrow> Err (refuse H 500 ''db_unavailable'' ''Failed to load worker'')
      | Ok None \<Rightarrow> Err (refuse H 500 ''worker_not_found'' missing))"

definition serve_asset ::
  "'h header_ops \<Rightarrow> 's semaphore_ops \<Rightarrow> runtime_limits \<Rightarrow> 'h handler_env \<Rightarrow> string \<Rightarrow> request_resolution \<Rightarrow> 'h handled" where
  "serve_asset H S limits E path res =
     (case rr_assets_storage_id res of
        None \<Rightarrow> refuse H 500 ''assets_not_configured'' ''ASSETS storage config not found''
      | Some storage_config_id \<Rightarrow>
          (case he_connection E of
             Err _ \<Rightarrow> refuse H 500 ''db_unavailable'' ''Failed to acquire database connection''
           | Ok _ \<Rightarrow>
               (case he_storage_config E storage_config_id of
                  None \<Rightarrow> refuse H 500 ''assets_not_configured'' ''Storage config not found''
                | Some config \<Rightarrow>
                    let ops = with_bindings [BAssets ''ASSETS'' config] (operations_new S limits);
                        request_path = (case rr_asset_type res of Some ty \<Rightarrow> storage_path ty path | None \<Rightarrow> path);
                        request = \<lparr> cr_url = request_path, cr_method = http_method.Get, cr_headers = [], cr_body = NoBody \<rparr>
                    in case handle_binding_fetch (he_ops E) ops (Ok ()) ''ASSETS'' request of
                         Err _ \<Rightarrow> refuse H 500 ''assets_fetch_failed'' ''Failed to fetch from storage''
                       | Ok response \<Rightarrow>
                           let a = he_asset_answer E response in
                           AssetServed (case rr_asset_type res of
                               Some ty \<Rightarrow> a\<lparr> rs_headers := set_cache_control H ty (rs_status a) (rs_headers a) \<rparr>
                             | None \<Rightarrow> a))))"

definition find_worker ::
  "'h header_ops \<Rightarrow> 's semaphore_ops \<Rightarrow> runtime_limits \<Rightarrow> 'u ingress_env \<Rightarrow> 'h handler_env \<Rightarrow> 'h http_request
   \<Rightarrow> (worker_with_bindings, 'h handled) result" where
  "find_worker H S limits I E req =
     (let h = rq_headers req; path = uri_path (rq_uri req);
          key = \<lparr> rk_host = host_of H I h, rk_worker_id = hm_get_str H h ''x-worker-id'',
                  rk_worker_name = hm_get_str H h ''x-worker-name'', rk_path = Some path \<rparr>
      in case he_resolve E key of
           Err _ \<Rightarrow> Err (refuse H 500 ''db_unavailable'' ''Failed to resolve request'')
         | Ok None \<Rightarrow> Err (refuse H 502 ''no_worker'' ''No worker or project found for request'')
         | Ok (Some res) \<Rightarrow>
             (case rr_backend_type res of
                None \<Rightarrow>
                  if rr_worker_id res = None \<and> rr_project_id res = None
                  then Err (refuse H 502 ''no_worker'' ''No worker or project found for request'')
                  else Err (refuse H 404 ''route_not_found'' ''Not Found'')
              | Some backend_type \<Rightarrow>
                  if rr_project_id res \<noteq> None
                  then case backend_type of
                         BackendWorker \<Rightarrow>
                           (case rr_worker_id res of
                              Some worker_id \<Rightarrow> load_worker H E worker_id ''Route has worker backend but worker not found''
                            | None \<Rightarrow> Err (refuse H 500 ''route_without_worker'' ''Route has worker backend but no worker_id''))
                       | BackendStorage \<Rightarrow> Err (serve_asset H S limits E path res)
                  else case rr_worker_id res of
                         Some worker_id \<Rightarrow> load_worker H E worker_id ''Route has worker_id but worker not found''
                       | None \<Rightarrow> Err (refuse H 500 ''unresolvable'' ''Invalid resolution: no worker_id or project_id'')))"

text \<open>The upgrade a request asks for, with its slot.\<close>

definition take_upgrade :: "'h header_ops \<Rightarrow> 'h handler_env \<Rightarrow> 'h http_request \<Rightarrow> (string option, 'h handled) result" where
  "take_upgrade H E req =
     (case upgrade H (he_ws E) (he_http11 E) (rq_method req) (rq_headers req) of
        UpgradeNone \<Rightarrow> Ok None
      | UpgradeAccept accept \<Rightarrow>
          if he_socket_slot E then Ok (Some accept)
          else Err (refuse H 503 ''websocket_limit'' ''Too many open WebSockets'')
      | UpgradeRefused status message \<Rightarrow>
          let a = error_response H status message in
          Err (Refused ''bad_upgrade''
            (if status = 426 then a\<lparr> rs_headers := hm_insert H (rs_headers a) ''sec-websocket-version'' ''13'' \<rparr> else a)))"

text \<open>The body: a request that streams it hands it on as it comes, every other is read first.\<close>

definition take_body :: "'h header_ops \<Rightarrow> 'h handler_env \<Rightarrow> nat \<Rightarrow> bool \<Rightarrow> (unit, 'h handled) result" where
  "take_body H E max_body is_streaming =
     (if is_streaming then Ok ()
      else case he_body E max_body of
             Ok _ \<Rightarrow> Ok ()
           | Err TooLarge \<Rightarrow> Err (refuse H 413 ''body_too_large'' ''Request body too large'')
           | Err (ReadError _) \<Rightarrow> Err (refuse H 400 ''bad_request_body'' ''Failed to read request body''))"

definition worker_headers :: "worker_with_bindings \<Rightarrow> (string \<times> string) list \<Rightarrow> (string \<times> string) list" where
  "worker_headers w headers =
     (let h1 = (if map_of headers ''x-worker-id'' = None then AList.update ''x-worker-id'' (wm_id w) headers else headers)
      in if map_of h1 ''x-worker-name'' = None
         then (case wm_name w of Some name \<Rightarrow> AList.update ''x-worker-name'' name h1 | None \<Rightarrow> h1)
         else h1)"

definition run_answer :: "'h header_ops \<Rightarrow> 'h handler_env \<Rightarrow> string option \<Rightarrow> run_end \<Rightarrow> 'h answer" where
  "run_answer H E accept e =
     (case e of
        Responded status headers body \<Rightarrow>
          (case accept of
             Some a \<Rightarrow>
               if status = 101 then \<lparr> rs_status = 101, rs_headers = switch_headers H headers a, rs_body = [] \<rparr>
               else he_core_answer E status headers body
           | None \<Rightarrow> he_core_answer E status headers body)
      | NoResponse result \<Rightarrow> terminated_response H result
      | DeadlinePassed \<Rightarrow> terminated_response H (Err (he_timeout_reason E)))"

definition run_worker ::
  "'h header_ops \<Rightarrow> 'h handler_env \<Rightarrow> worker_with_bindings \<Rightarrow> 'h http_request \<Rightarrow> string option \<Rightarrow> 'h handled" where
  "run_worker H E w req accept =
     (let headers = worker_headers w (he_core_headers E (rq_headers req)); depth = call_depth headers in
      if depth > MAX_CALL_DEPTH then refuse H 508 ''call_depth'' ''Too many nested worker-to-worker calls''
      else case he_permit E (if depth > 0 then 0 else he_wait_timeout E) of
             Closed \<Rightarrow> refuse H 500 ''semaphore_closed'' ''Internal server error''
           | WaitedTooLong \<Rightarrow> refuse H 503 ''overloaded'' ''Server is overloaded, please try again later''
           | Acquired \<Rightarrow> WorkerRan w headers accept (run_answer H E accept (he_run E w headers (accept \<noteq> None))))"

definition handle_worker_request ::
  "'h header_ops \<Rightarrow> 's semaphore_ops \<Rightarrow> runtime_limits \<Rightarrow> 'u ingress_env \<Rightarrow> 'h handler_env \<Rightarrow> 'h http_request \<Rightarrow> 'h handled" where
  "handle_worker_request H S limits I E req =
     (case find_worker H S limits I E req of
        Err handled \<Rightarrow> handled
      | Ok w \<Rightarrow>
          (case he_worker_permit E (wm_id w) of
             Closed \<Rightarrow> refuse H 500 ''semaphore_closed'' ''Internal server error''
           | WaitedTooLong \<Rightarrow> refuse H 429 ''worker_concurrency_limit'' ''Too many concurrent requests for this worker''
           | Acquired \<Rightarrow>
               let max_body = (case rq_body_limit req of Some limit \<Rightarrow> max limit (he_max_body E) | None \<Rightarrow> he_max_body E) in
               if announces_more_than H (rq_headers req) max_body
               then refuse H 413 ''body_too_large'' ''Request body too large''
               else case take_upgrade H E req of
                      Err handled \<Rightarrow> handled
                    | Ok accept \<Rightarrow>
                        let is_streaming = (hm_get H (rq_headers req) ''x-request-body-stream'' \<noteq> None \<and> accept = None) in
                        (case take_body H E max_body is_streaming of
                           Err handled \<Rightarrow> handled
                         | Ok _ \<Rightarrow> run_worker H E w req accept)))"

text \<open>
  The pump of a streamed body: chunks go to the worker until the body ends, a frame takes too long or fails, the
  worker stops reading, or the size passes the limit. \<open>reads\<close> is how many chunks the worker takes.
\<close>

datatype body_frame = DataFrame "u8 list" | OtherFrame | FrameError string | FrameTimeout

fun stream_pump :: "nat \<Rightarrow> nat \<Rightarrow> nat \<Rightarrow> body_frame list \<Rightarrow> (u8 list, string) result list" where
  "stream_pump max_body seen reads [] = []"
| "stream_pump max_body seen reads (FrameTimeout # fs) = []"
| "stream_pump max_body seen reads (FrameError e # fs) = [Err e]"
| "stream_pump max_body seen reads (OtherFrame # fs) = stream_pump max_body seen reads fs"
| "stream_pump max_body seen reads (DataFrame d # fs) =
     (let seen' = seen + length d in
      if max_body < seen' then [Err ''Request body too large'']
      else if reads = 0 then [] else Ok d # stream_pump max_body seen' (reads - 1) fs)"

section \<open>The listeners\<close>

definition handle_request ::
  "'h header_ops \<Rightarrow> 's semaphore_ops \<Rightarrow> runtime_limits \<Rightarrow> 'u ingress_env \<Rightarrow> 'h handler_env \<Rightarrow> nat \<Rightarrow> string \<Rightarrow> peer \<Rightarrow> listener_kind
   \<Rightarrow> 'h http_request \<Rightarrow> server_state \<Rightarrow> server_state \<times> 'h answer" where
  "handle_request H S limits I E active pool_stats p listener req s =
     (case (if admin_allowed H listener p (rq_headers req) then admin_endpoint H active pool_stats req s else None) of
        Some answered \<Rightarrow> answered
      | None \<Rightarrow>
          if sv_draining s then (s, error_response H 503 ''503 - Runner is draining - not accepting new requests'')
          else case hm_get H (rq_headers req) ''x-request-id'' of
                 None \<Rightarrow> (s, error_response H 400 ''Missing request id'')
               | Some v \<Rightarrow>
                   (case hv_to_str H v of
                      None \<Rightarrow> (s, error_response H 400 ''Invalid x-request-id header encoding'')
                    | Some _ \<Rightarrow> (s, handled_answer (handle_worker_request H S limits I E req))))"

definition internal_request ::
  "'h header_ops \<Rightarrow> 's semaphore_ops \<Rightarrow> runtime_limits \<Rightarrow> 'u ingress_env \<Rightarrow> 'h handler_env \<Rightarrow> nat \<Rightarrow> string \<Rightarrow> string \<Rightarrow> peer
   \<Rightarrow> 'h http_request \<Rightarrow> server_state \<Rightarrow> server_state \<times> 'h answer" where
  "internal_request H S limits I E active pool_stats uuid p req s =
     (let req' = (if hm_get H (rq_headers req) ''x-request-id'' = None
                  then req\<lparr> rq_headers := hm_insert H (rq_headers req) ''x-request-id'' uuid \<rparr> else req)
      in handle_request H S limits I E active pool_stats p Internal req' s)"

definition public_request ::
  "'h header_ops \<Rightarrow> 'n address_parsers \<Rightarrow> 's semaphore_ops \<Rightarrow> runtime_limits \<Rightarrow> 'u ingress_env \<Rightarrow> ('n, 'c, 'k) ingress_config
   \<Rightarrow> 'h handler_env \<Rightarrow> (('u \<times> log_stream) \<Rightarrow> 'h http_request \<Rightarrow> 'h answer) \<Rightarrow> nat \<Rightarrow> string \<Rightarrow> string \<Rightarrow> string \<Rightarrow> peer \<Rightarrow> bool
   \<Rightarrow> 'h http_request \<Rightarrow> server_state \<Rightarrow> (server_state \<times> 'h answer) option" where
  "public_request H A S limits I config E logs active pool_stats server request_id p tls req s =
     (case prepare H A I config request_id req p tls of
        None \<Rightarrow> None
      | Some (route, req') \<Rightarrow>
          (case hm_get H (rq_headers req') ''x-request-id'' of
             None \<Rightarrow> None
           | Some rid \<Rightarrow>
               let (s', a) = (case route of
                     RWorker \<Rightarrow> handle_request H S limits I E active pool_stats p Public req' s
                   | RLogs worker_id stream \<Rightarrow> (s, logs (worker_id, stream) req')
                   | RLatency \<Rightarrow> (s, plain_response H ''OK'')
                   | RProbe \<Rightarrow> (s, error_response H 404 ''Not Found'')
                   | RBadHost \<Rightarrow> (s, error_response H 400 ''Invalid Host''))
               in Some (s', a\<lparr> rs_headers := hm_insert H (hm_insert H (rs_headers a) ''x-request-id'' rid) ''server'' server \<rparr>)))"

section \<open>What a request meets\<close>

text \<open>A request that ends before it has a worker: refused with one of three statuses, or served from the assets.\<close>

definition turned_away :: "'h header_ops \<Rightarrow> 'h handled \<Rightarrow> bool" where
  "turned_away H handled \<longleftrightarrow> (\<exists>a. handled = AssetServed a)
     \<or> (\<exists>status reason message. handled = refuse H status reason message \<and> status \<in> {404, 500, 502})"

lemma refuse_away [simp]: "status \<in> {404, 500, 502} \<Longrightarrow> turned_away H (refuse H status reason message)"
  unfolding turned_away_def by blast

lemma asset_away [simp]: "turned_away H (AssetServed a)"
  unfolding turned_away_def by blast

lemma serve_asset_away [simp]: "turned_away H (serve_asset H S limits E path res)"
  by (simp add: serve_asset_def Let_def split: option.splits result.splits)

lemma load_worker_away: "load_worker H E worker_id missing = Err handled \<Longrightarrow> turned_away H handled"
  by (auto simp: load_worker_def split: result.splits option.splits)

lemma find_worker_away: "find_worker H S limits I E req = Err handled \<Longrightarrow> turned_away H handled"
  by (auto simp: find_worker_def Let_def split: result.splits option.splits if_splits backend_type.splits
      dest: load_worker_away)

lemma turned_away_not_run: "\<not> turned_away H (WorkerRan w headers accept a)"
  by (simp add: turned_away_def refuse_def)

definition error_status :: "nat \<Rightarrow> bool" where
  "error_status status \<longleftrightarrow> status \<in> {400, 404, 413, 426, 429, 500, 502, 503, 508}"

definition refused_well :: "'h handled \<Rightarrow> bool" where
  "refused_well handled = (case handled of Refused reason a \<Rightarrow> error_status (rs_status a) | _ \<Rightarrow> True)"

lemma refused_well_simps [simp]:
  "refused_well (refuse H status reason message) = error_status status" "refused_well (AssetServed a)"
  "refused_well (WorkerRan w headers accept a)"
  by (simp_all add: refused_well_def refuse_def error_response_def)

lemma error_status_numerals [simp]:
  "error_status 400" "error_status 404" "error_status 413" "error_status 426" "error_status 429" "error_status 500"
  "error_status 502" "error_status 503" "error_status 508"
  by (simp_all add: error_status_def)

lemma away_refused_well: "turned_away H handled \<Longrightarrow> refused_well handled"
  by (auto simp: turned_away_def)

lemma upgrade_status: "upgrade H W http11 meth h = UpgradeRefused status message \<Longrightarrow> status = 400 \<or> status = 426"
  by (auto simp: upgrade_def split: if_splits option.splits)

lemma take_upgrade_refused: "take_upgrade H E req = Err handled \<Longrightarrow> refused_well handled \<and> (\<forall>w hs k a. handled \<noteq> WorkerRan w hs k a)"
  by (auto simp: take_upgrade_def Let_def refused_well_def refuse_def error_response_def
      split: upgrade_result.splits if_splits dest!: upgrade_status)

lemma take_body_refused: "take_body H E max_body streaming = Err handled \<Longrightarrow> refused_well handled \<and> (\<forall>w hs k a. handled \<noteq> WorkerRan w hs k a)"
  by (auto simp: take_body_def refuse_def refused_well_def error_response_def split: if_splits result.splits body_error.splits)

lemma run_worker_refused: "refused_well (run_worker H E w req accept)"
  by (simp add: run_worker_def Let_def split: permit_wait.splits)

lemma handled_refused_well: "refused_well (handle_worker_request H S limits I E req)"
  by (simp add: handle_worker_request_def Let_def run_worker_refused split: result.splits permit_wait.splits)
    (auto dest: find_worker_away away_refused_well take_upgrade_refused take_body_refused)

lemma run_worker_ran:
  "run_worker H E w0 req accept0 = WorkerRan w headers accept a \<longleftrightarrow>
     w = w0 \<and> accept = accept0 \<and> headers = worker_headers w (he_core_headers E (rq_headers req))
     \<and> call_depth headers \<le> MAX_CALL_DEPTH
     \<and> he_permit E (if call_depth headers = 0 then he_wait_timeout E else 0) = Acquired
     \<and> a = run_answer H E accept (he_run E w headers (accept \<noteq> None))"
proof -
  have "0 < call_depth h \<longleftrightarrow> call_depth h \<noteq> 0" for h by (simp add: word_neq_0_conv)
  then show ?thesis
    by (auto simp: run_worker_def Let_def refuse_def not_less split: permit_wait.splits if_splits)
qed

text \<open>The bytes a streamed body hands on never pass the limit.\<close>

lemma stream_pump_bounded:
  "seen + sum_list (map length (List.map_filter ok_of (stream_pump max_body seen reads fs))) \<le> max seen max_body"
proof (induction max_body seen reads fs rule: stream_pump.induct)
  case (5 max_body seen reads d fs)
  show ?case
  proof (cases "max_body < seen + length d \<or> reads = 0")
    case True
    then show ?thesis by (auto simp: Let_def List.map_filter_def)
  next
    case False
    then show ?thesis using 5 [OF refl] by (auto simp: Let_def map_filter_simps)
  qed
qed (simp_all add: List.map_filter_def)

section \<open>Properties\<close>


end
