(* ===== verification/Call_Chain.thy ===== *)
theory Call_Chain
  imports Request_Handler
begin

text \<open>
  Worker code, its operations, the route inside the runner and the request handler together: what a request of a
  worker can reach, and how long a chain of workers that call each other can get.
\<close>

section \<open>What a worker sends to the runner\<close>

text \<open>A header map that carries the headers a wire request has under their names in lower case.\<close>

definition carries :: "'h header_ops \<Rightarrow> 'h \<Rightarrow> wire_request \<Rightarrow> bool" where
  "carries H h wire \<longleftrightarrow> (\<forall>n. map_of (wr_headers wire) n \<noteq> None \<and> to_ascii_lowercase n = n \<longrightarrow> hm_get H h n \<noteq> None)"

lemma internal_route_header_lower: "to_ascii_lowercase INTERNAL_ROUTE_HEADER = INTERNAL_ROUTE_HEADER"
  by (simp add: INTERNAL_ROUTE_HEADER_def to_ascii_lowercase_def ascii_lower_def)

lemma routed_not_admin:
  assumes H: "header_map H" and wire: "routed_at R depth wire" "carries H (rq_headers req) wire"
  shows "fst (internal_request H S limits I E active pool_stats uuid p req s) = s"
proof -
  have "hm_get H (rq_headers req) INTERNAL_ROUTE_HEADER \<noteq> None"
    using wire internal_route_header_lower by (simp add: carries_def routed_at_def)
  then have "\<not> admin_allowed H Internal p (rq_headers req)"
    "\<not> admin_allowed H Internal p (hm_insert H (rq_headers req) ''x-request-id'' uuid)"
    using header_map.get_insert [OF H] by (simp_all add: admin_allowed_def INTERNAL_ROUTE_HEADER_def)
  then show ?thesis by (simp add: internal_request_def handle_request_def Let_def split: option.splits)
qed

text \<open>
  C9. No request of worker code reaches the administration of the runner. A fetch, or a call of a service binding,
  that succeeds was sent once: either through the client that only reaches public addresses and past the
  guard on its host, or to the runner itself with the mark of an internal route, which the internal listener
  never lets change the state of the server, whatever headers the guest set.
\<close>

theorem worker_cannot_administer:
  assumes H: "header_map H"
    and call: "handle_fetch E ops permit request = Ok response \<or> handle_binding_worker E ops permit binding_name request = Ok response"
  shows "\<exists>wire raw. oe_send E wire = Ok raw
    \<and> (wr_filtered wire \<and> oe_guard E (wr_url wire) = Ok ()
       \<or> routed_at (oe_route E) (next_depth ops) wire
         \<and> (\<forall>req. carries H (rq_headers req) wire \<longrightarrow>
              fst (internal_request H S limits I E' active pool_stats uuid p req s) = s))"
proof -
  obtain wire raw where "oe_send E wire = Ok raw"
      "wr_filtered wire \<and> oe_guard E (wr_url wire) = Ok () \<or> routed_at (oe_route E) (next_depth ops) wire"
    using call by (elim disjE handle_fetch_wire handle_binding_worker_wire) blast+
  then show ?thesis using routed_not_admin [OF H] by blast
qed

section \<open>Chains of calls\<close>

text \<open>
  The depth and the mark arrive with the request: the worker's headers have the values the wire request had.
\<close>

definition delivered :: "wire_request \<Rightarrow> (string \<times> string) list \<Rightarrow> bool" where
  "delivered wire headers \<longleftrightarrow> map_of headers INTERNAL_ROUTE_HEADER = map_of (wr_headers wire) INTERNAL_ROUTE_HEADER
     \<and> map_of headers CALL_DEPTH_HEADER = map_of (wr_headers wire) CALL_DEPTH_HEADER"

text \<open>
  A worker that runs with \<open>headers\<close> calls a worker that runs with \<open>headers'\<close>: a fetch or a service binding of its
  operations sends the one wire request that the client takes, to the runner, and the handler runs the callee.
\<close>

definition nested_call ::
  "'h header_ops \<Rightarrow> 's semaphore_ops \<Rightarrow> runtime_limits \<Rightarrow> (string \<times> string) list \<Rightarrow> (string \<times> string) list \<Rightarrow> bool" where
  "nested_call H S limits headers headers' \<longleftrightarrow>
     (\<exists>E w permit request response wire raw binding_name.
        oe_send E = (\<lambda>x. if x = wire then Ok raw else Err []) \<and> \<not> wr_filtered wire
        \<and> (handle_fetch E (task_operations S limits w (Some headers)) permit request = Ok response
           \<or> handle_binding_worker E (task_operations S limits w (Some headers)) permit binding_name request = Ok response)
        \<and> delivered wire headers'
        \<and> (\<exists>E' w' req accept a. run_worker H E' w' req accept = WorkerRan w' headers' accept a))"

lemma call_depth_delivered: "delivered wire headers \<Longrightarrow> call_depth headers = call_depth (wr_headers wire)"
  by (simp add: delivered_def call_depth_def)

lemma next_depth_task: "next_depth (task_operations S limits w (Some headers)) = call_depth headers + 1"
  by (simp add: next_depth_def task_operations_def Let_def with_depth_def with_bindings_def operations_new_def)

lemma nested_call_depth:
  assumes "nested_call H S limits headers headers'"
  shows "call_depth headers' = call_depth headers + 1" and "call_depth headers' \<le> MAX_CALL_DEPTH"
proof -
  obtain E w permit request response wire raw binding_name E' w' req accept a where
    send: "oe_send E = (\<lambda>x. if x = wire then Ok raw else Err [])" and plain: "\<not> wr_filtered wire"
    and call: "handle_fetch E (task_operations S limits w (Some headers)) permit request = Ok response
      \<or> handle_binding_worker E (task_operations S limits w (Some headers)) permit binding_name request = Ok response"
    and got: "delivered wire headers'" and ran: "run_worker H E' w' req accept = WorkerRan w' headers' accept a"
    using assms unfolding nested_call_def by blast
  have sent: "x = wire" if "oe_send E x = Ok y" for x y using that send by (simp split: if_splits)
  have "routed_at (oe_route E) (next_depth (task_operations S limits w (Some headers))) wire"
    using call
  proof
    assume "handle_fetch E (task_operations S limits w (Some headers)) permit request = Ok response"
    then show ?thesis by (rule handle_fetch_wire) (use sent plain in blast)
  next
    assume "handle_binding_worker E (task_operations S limits w (Some headers)) permit binding_name request = Ok response"
    then show ?thesis by (rule handle_binding_worker_wire) (use sent in blast)
  qed
  then show "call_depth headers' = call_depth headers + 1"
    using call_depth_delivered [OF got] by (simp add: routed_at_def next_depth_task)
  show "call_depth headers' \<le> MAX_CALL_DEPTH" using ran run_worker_ran by metis
qed

text \<open>Below the limit the depth of a call is one more, with no wrap.\<close>

lemma nested_call_counts:
  assumes "nested_call H S limits headers headers'" "call_depth headers \<le> MAX_CALL_DEPTH"
  shows "unat (call_depth headers') = unat (call_depth headers) + 1" "unat (call_depth headers') \<le> 16"
proof -
  have "unat (call_depth headers) \<le> 16" using assms(2) by (simp add: MAX_CALL_DEPTH_def word_le_nat_alt)
  then have "unat (call_depth headers) + 1 < 2 ^ LENGTH(32)" by simp
  then show "unat (call_depth headers') = unat (call_depth headers) + 1"
    using unat_plus_one [of "call_depth headers"] nested_call_depth(1) [OF assms(1)] by simp
  show "unat (call_depth headers') \<le> 16" using nested_call_depth(2) [OF assms(1)] by (simp add: MAX_CALL_DEPTH_def word_le_nat_alt)
qed

lemma nested_chain:
  assumes "(nested_call H S limits ^^ n) headers headers'" "call_depth headers \<le> MAX_CALL_DEPTH"
  shows "unat (call_depth headers') = unat (call_depth headers) + n \<and> call_depth headers' \<le> MAX_CALL_DEPTH"
  using assms
proof (induction n arbitrary: headers')
  case (Suc n)
  then obtain mid where mid: "(nested_call H S limits ^^ n) headers mid" "nested_call H S limits mid headers'" by auto
  then show ?case using Suc.IH [OF mid(1) Suc.prems(2)] nested_call_counts(1) [OF mid(2)] nested_call_depth(2) [OF mid(2)] by simp
qed simp

lemma nested_call_wf: "wf {(b, a). nested_call H S limits a b}"
proof -
  define m where "m = (\<lambda>h. if call_depth h \<le> MAX_CALL_DEPTH then 16 - unat (call_depth h) else 17)"
  have "m b < m a" if "nested_call H S limits a b" for a b
  proof (cases "call_depth a \<le> MAX_CALL_DEPTH")
    case True
    then show ?thesis
      using nested_call_counts [OF that True] nested_call_depth(2) [OF that] by (simp add: m_def)
  next
    case False
    then show ?thesis using nested_call_depth(2) [OF that] by (simp add: m_def)
  qed
  then show ?thesis by (intro wf_subset [OF wf_measure [of m]]) auto
qed


section \<open>A call of one worker by another\<close>

definition demo_ops_env :: "(wire_request \<Rightarrow> (fetch_response, string) result) \<Rightarrow> ops_env" where
  "demo_ops_env send = \<lparr> oe_route = \<lparr> re_parse = (\<lambda>_. None), re_domains = [], re_port = None, re_uuid = replicate 32 (CHR ''0'') \<rparr>,
     oe_guard = (\<lambda>_. Err ''blocked''), oe_to_str = Some, oe_send = send, oe_reads = 0, oe_storage = demo_storage_crates,
     oe_ids = demo_crates, oe_object = (\<lambda>_ _ _ _. Err ''none'') \<rparr>"

definition demo_caller :: worker_with_bindings where
  "demo_caller = \<lparr> wm_id = ''a'', wm_name = None, wm_user_id = ''u'', wm_code_type = Javascript, wm_version = 1,
     wm_env = Map.empty, wm_bindings = [BWorker ''B'' \<lparr> wb_id = ''b'', wb_name = None \<rparr>], wm_env_updated_at = None, wm_code = SourceBytes [] \<rparr>"

definition demo_call :: core_request where
  "demo_call = \<lparr> cr_url = ''/x'', cr_method = http_method.Get, cr_headers = [], cr_body = NoBody \<rparr>"

definition demo_wire :: wire_request where
  "demo_wire = \<lparr> wr_filtered = False, wr_method = http_method.Get, wr_url = runner_url None @ ''/x'',
     wr_headers = routed_headers ''x-worker-id'' ''b'' (generate_request_id ''binding'' (replicate 32 (CHR ''0''))) 1 [],
     wr_body = None \<rparr>"

definition demo_reply :: fetch_response where
  "demo_reply = \<lparr> fr_status = 200, fr_headers = [], fr_chunks = [] \<rparr>"

definition demo_handler_env :: "(string \<times> string) list handler_env" where
  "demo_handler_env = \<lparr> he_resolve = (\<lambda>_. Ok None), he_worker = (\<lambda>_. Ok None), he_connection = Ok (),
     he_storage_config = (\<lambda>_. None), he_ops = demo_ops_env (\<lambda>_. Err ''offline''),
     he_asset_answer = (\<lambda>_. plain_response list_headers []), he_worker_permit = (\<lambda>_. Acquired), he_max_body = 10,
     he_ws = \<lparr> wc_base64 = (\<lambda>_. None), wc_accept = id \<rparr>, he_http11 = True, he_socket_slot = True, he_body = (\<lambda>_. Ok []),
     he_core_headers = id, he_wait_timeout = 10, he_permit = (\<lambda>_. Acquired),
     he_core_answer = (\<lambda>_ _ body. plain_response list_headers body), he_run = (\<lambda>_ _ _. Responded 200 [] ''ok''),
     he_timeout_reason = \<lparr> tr_status = 504, tr_text = ''timeout'', tr_debug = ''WallClockTimeout'' \<rparr> \<rparr>"

definition demo_runtime_limits :: runtime_limits where
  "demo_runtime_limits = \<lparr> fetch_limit = demo_limit, kv_limit = demo_limit, database_limit = demo_limit, storage_limit = demo_limit \<rparr>"

lemma demo_caller_binding:
  "bc_worker (op_bindings (task_operations S limits demo_caller (Some []))) ''B'' = Some \<lparr> wb_id = ''b'', wb_name = None \<rparr>"
  "next_depth (task_operations S limits demo_caller (Some [])) = 1"
  by (simp_all add: task_operations_def with_depth_def with_bindings_def from_bindings_def demo_caller_def
      Let_def next_depth_def operations_new_def call_depth_def)

lemma demo_called:
  "handle_binding_worker (demo_ops_env (\<lambda>x. if x = demo_wire then Ok demo_reply else Err []))
     (task_operations S limits demo_caller (Some [])) (Ok ()) ''B'' demo_call = Ok demo_reply"
proof -
  have "wire_of (\<lambda>_. Err ''blocked'') (binding_request (oe_route (demo_ops_env send)) ''b'' demo_call 1) None None Unrestricted = Ok demo_wire" for send
    by (simp add: wire_of_def binding_request_def demo_ops_env_def demo_call_def demo_wire_def context_headers_def starts_with_def Let_def)
  then show ?thesis
    by (simp add: handle_binding_worker_def demo_caller_binding do_fetch_def)
      (simp add: demo_ops_env_def demo_reply_def List.map_filter_def)
qed

theorem worker_cannot_administer_witness:
  "\<exists>wire raw. oe_send (demo_ops_env (\<lambda>x. if x = demo_wire then Ok demo_reply else Err [])) wire = Ok raw
     \<and> \<not> wr_filtered wire \<and> routed_at (oe_route (demo_ops_env (\<lambda>x. Err []))) 1 wire"
proof -
  let ?E = "demo_ops_env (\<lambda>x. if x = demo_wire then Ok demo_reply else Err [])"
  let ?ops = "task_operations count_sem demo_runtime_limits demo_caller (Some [])"
  obtain wire raw where w: "oe_send ?E wire = Ok raw"
      "wr_filtered wire \<and> oe_guard ?E (wr_url wire) = Ok () \<or> routed_at (oe_route ?E) (next_depth ?ops) wire"
    using worker_cannot_administer [OF listed.header_map_axioms disjI2 [OF demo_called]] by blast
  have "wire = demo_wire" using w(1) by (simp add: demo_ops_env_def split: if_splits)
  then show ?thesis using w by (auto simp: demo_caller_binding demo_wire_def demo_ops_env_def)
qed


end
