(* ===== verification/Object_Storage.thy ===== *)
theory Object_Storage
  imports Rust_Str "HOL-Library.List_Lexorder" "HOL-Library.Char_ord"
begin

text \<open>
  \<open>src/d1/sqlite/object.rs\<close>: the storage of a Durable Object, a table of keys and values and one row for
  its alarm in the SQLite file of the object. SQLite is not part of the repository: the statements on
  the table are an argument, with their documented effect as the laws of the locale \<open>kv_laws\<close>, and any
  statement may fail. A contract, one operation on a map, is at the end, with the lemmas that the code
  keeps it.
\<close>

type_synonym blob = "u8 list"

section \<open>Statements\<close>

datatype stmt =
    Create_Kv
  | Create_Alarm
  | Select_Alarm
  | Upsert_Alarm
  | Delete_Alarm
  | Prepare_Get
  | Select_Value nat
  | Prepare_List
  | Query_List
  | Next_Row nat
  | Row_Key nat
  | Row_Value nat
  | Begin_Txn
  | Delete_All
  | Delete_Key nat
  | Upsert_Key nat
  | Commit_Txn

type_synonym failures = "stmt \<Rightarrow> string option"

definition no_failure :: failures where
  "no_failure = (\<lambda>_. None)"

record 't kv_engine =
  sel_value :: "'t \<Rightarrow> string \<Rightarrow> blob option"
  del_key :: "'t \<Rightarrow> string \<Rightarrow> 't \<times> nat"
  del_all :: "'t \<Rightarrow> 't"
  ups_key :: "'t \<Rightarrow> string \<Rightarrow> blob \<Rightarrow> 't"
  sel_rows :: "'t \<Rightarrow> (string \<Rightarrow> bool) \<Rightarrow> bool \<Rightarrow> nat option \<Rightarrow> (string \<times> blob) list"
  sql_starts :: "string \<Rightarrow> string \<Rightarrow> bool"

definition ordered_keys :: "bool \<Rightarrow> string list \<Rightarrow> bool" where
  "ordered_keys rv ks = sorted_wrt (<) (if rv then rev ks else ks)"

definition take_limit :: "nat option \<Rightarrow> 'a list \<Rightarrow> 'a list" where
  "take_limit lim xs = (case lim of None \<Rightarrow> xs | Some n \<Rightarrow> take n xs)"

definition nul_free :: "string \<Rightarrow> bool" where
  "nul_free s = (CHR 0x00 \<notin> set s)"

locale kv_laws =
  fixes E :: "'t kv_engine"
  assumes sel_del_key: "sel_value E (fst (del_key E t k)) = (sel_value E t)(k := None)"
    and del_key_count: "snd (del_key E t k) = (if sel_value E t k = None then 0 else 1)"
    and sel_del_all: "sel_value E (del_all E t) = Map.empty"
    and sel_ups_key: "sel_value E (ups_key E t k v) = (sel_value E t)(k \<mapsto> v)"
    and set_sel_rows: "set (sel_rows E t P rv None) = {(k, v). sel_value E t k = Some v \<and> P k}"
    and order_sel_rows: "ordered_keys rv (map fst (sel_rows E t P rv None))"
    and limit_sel_rows: "sel_rows E t P rv lim = take_limit lim (sel_rows E t P rv None)"
    and sql_starts_law: "nul_free p \<Longrightarrow> nul_free k \<Longrightarrow> sql_starts E p k = starts_with k p"

section \<open>The database of an object\<close>

record 't object_db =
  kv_rows :: 't
  alarm_row :: "int option"
  guest_rules :: bool
  result_limit :: nat
  writes_paused :: "string option"
  storage_full :: "string option"

record key_range =
  kr_start :: "string option"
  kr_start_after :: "string option"
  kr_end :: "string option"
  kr_prefix :: "string option"
  kr_reverse :: bool
  kr_limit :: "u64 option"

datatype object_storage_op =
    GetAlarm
  | SetAlarm "int option"
  | GetKeys "string list"
  | ListKeys key_range
  | Write_Keys "(string \<times> blob) list" "string list" bool

datatype object_storage_result =
    AlarmIs "int option"
  | Values_Are "blob option list"
  | Entries "(string \<times> blob) list"
  | Written nat
  | Storage_Error string

definition MAX_KEY_BYTES :: nat where "MAX_KEY_BYTES = 2048"
definition MAX_VALUE_BYTES :: nat where "MAX_VALUE_BYTES = 128 * 1024"
definition MAX_KEYS :: nat where "MAX_KEYS = 128"

definition check_key :: "string \<Rightarrow> (unit, string) result" where
  "check_key k =
     (if length k > MAX_KEY_BYTES then Err (''a key is at most '' @ show_radix 10 MAX_KEY_BYTES @ '' bytes'') else Ok ())"

fun try_each :: "('a \<Rightarrow> (unit, 'e) result) \<Rightarrow> 'a list \<Rightarrow> (unit, 'e) result" where
  "try_each f [] = Ok ()"
| "try_each f (x # xs) = and_then (f x) (\<lambda>_. try_each f xs)"

definition check_keys :: "string list \<Rightarrow> (unit, string) result" where
  "check_keys ks =
     (if length ks > MAX_KEYS then Err (''a call takes at most '' @ show_radix 10 MAX_KEYS @ '' keys'')
      else try_each check_key ks)"

definition check_put :: "string \<times> blob \<Rightarrow> (unit, string) result" where
  "check_put kv =
     and_then (check_key (fst kv))
       (\<lambda>_. if length (snd kv) > MAX_VALUE_BYTES
            then Err (''the value of '' @ [CHR 0x27] @ fst kv @ [CHR 0x27] @ '' is over '' @ show_radix 10 MAX_VALUE_BYTES @ '' bytes'')
            else Ok ())"

definition check_writes :: "'t object_db \<Rightarrow> (unit, string) result" where
  "check_writes db =
     (case writes_paused db of Some reason \<Rightarrow> Err (''writes are paused: '' @ reason) | None \<Rightarrow> Ok ())"

definition exec :: "failures \<Rightarrow> stmt \<Rightarrow> (unit, string) result" where
  "exec fl st = (case fl st of Some m \<Rightarrow> Err m | None \<Rightarrow> Ok ())"

section \<open>Reads\<close>

fun get_values :: "'t kv_engine \<Rightarrow> failures \<Rightarrow> 't \<Rightarrow> nat \<Rightarrow> string list \<Rightarrow> (blob option list, string) result" where
  "get_values E fl t i [] = Ok []"
| "get_values E fl t i (k # ks) =
     and_then (exec fl (Select_Value i))
       (\<lambda>_. and_then (get_values E fl t (Suc i) ks) (\<lambda>vs. Ok (sel_value E t k # vs)))"

definition in_range :: "'t kv_engine \<Rightarrow> key_range \<Rightarrow> string \<Rightarrow> bool" where
  "in_range E r k =
     ((case kr_start r of Some s \<Rightarrow> s \<le> k | None \<Rightarrow> True)
      \<and> (case kr_start_after r of Some s \<Rightarrow> s < k | None \<Rightarrow> True)
      \<and> (case kr_end r of Some e \<Rightarrow> k < e | None \<Rightarrow> True)
      \<and> (case kr_prefix r of Some p \<Rightarrow> sql_starts E p k | None \<Rightarrow> True))"

definition sql_limit :: "u64 option \<Rightarrow> nat option" where
  "sql_limit l = map_option (\<lambda>n. min (unat n) (2 ^ 63 - 1)) l"

fun read_rows ::
  "failures \<Rightarrow> nat \<Rightarrow> nat \<Rightarrow> nat \<Rightarrow> (string \<times> blob) list \<Rightarrow> ((string \<times> blob) list, string) result" where
  "read_rows fl lim i bytes [] = and_then (exec fl (Next_Row i)) (\<lambda>_. Ok [])"
| "read_rows fl lim i bytes ((k, v) # rows) =
     and_then (exec fl (Next_Row i)) (\<lambda>_.
     and_then (exec fl (Row_Key i)) (\<lambda>_.
     and_then (exec fl (Row_Value i)) (\<lambda>_.
       let bytes' = bytes + (length k + length v) in
       if bytes' > lim then Err ''the list is too large; list with a limit''
       else and_then (read_rows fl lim (Suc i) bytes' rows) (\<lambda>es. Ok ((k, v) # es)))))"

section \<open>Writes\<close>

fun txn_deletes ::
  "'t kv_engine \<Rightarrow> failures \<Rightarrow> nat \<Rightarrow> string list \<Rightarrow> 't \<Rightarrow> nat \<Rightarrow> ('t \<times> nat, string) result" where
  "txn_deletes E fl i [] t deleted = Ok (t, deleted)"
| "txn_deletes E fl i (k # ks) t deleted =
     and_then (exec fl (Delete_Key i))
       (\<lambda>_. txn_deletes E fl (Suc i) ks (fst (del_key E t k)) (deleted + snd (del_key E t k)))"

fun txn_puts ::
  "'t kv_engine \<Rightarrow> failures \<Rightarrow> nat \<Rightarrow> (string \<times> blob) list \<Rightarrow> 't \<Rightarrow> ('t, string) result" where
  "txn_puts E fl i [] t = Ok t"
| "txn_puts E fl i ((k, v) # kvs) t =
     and_then (exec fl (Upsert_Key i)) (\<lambda>_. txn_puts E fl (Suc i) kvs (ups_key E t k v))"

definition txn ::
  "'t kv_engine \<Rightarrow> failures \<Rightarrow> (string \<times> blob) list \<Rightarrow> string list \<Rightarrow> bool \<Rightarrow> 't \<Rightarrow> ('t \<times> nat, string) result" where
  "txn E fl puts deletes delete_all t =
     and_then (exec fl Begin_Txn) (\<lambda>_.
     and_then (if delete_all then and_then (exec fl Delete_All) (\<lambda>_. Ok (del_all E t)) else Ok t) (\<lambda>t1.
     and_then (txn_deletes E fl 0 deletes t1 0) (\<lambda>(t2, deleted).
     and_then (txn_puts E fl 0 puts t2) (\<lambda>t3.
     and_then (exec fl Commit_Txn) (\<lambda>_. Ok (t3, deleted))))))"

definition write_checks ::
  "'t object_db \<Rightarrow> (string \<times> blob) list \<Rightarrow> string list \<Rightarrow> (unit, string) result" where
  "write_checks db puts deletes =
     and_then (check_keys deletes) (\<lambda>_.
     if length puts > MAX_KEYS then Err (''a put takes at most '' @ show_radix 10 MAX_KEYS @ '' keys'')
     else and_then (try_each check_put puts) (\<lambda>_.
     and_then (check_writes db) (\<lambda>_.
     case storage_full db of
       Some reason \<Rightarrow> if puts \<noteq> [] then Err (''the storage is full: '' @ reason) else Ok ()
     | None \<Rightarrow> Ok ())))"

section \<open>Operations\<close>

definition alarm :: "failures \<Rightarrow> 't object_db \<Rightarrow> (int option, string) result" where
  "alarm fl db = and_then (exec fl Select_Alarm) (\<lambda>_. Ok (alarm_row db))"

text \<open>The state after an operation, and its answer: a failure before the commit leaves the rows as they were.\<close>

definition object_op ::
  "'t kv_engine \<Rightarrow> failures \<Rightarrow> 't object_db \<Rightarrow> object_storage_op \<Rightarrow> ('t object_db \<times> object_storage_result, string) result" where
  "object_op E fl db op =
     and_then (exec fl Create_Kv) (\<lambda>_.
     and_then (exec fl Create_Alarm) (\<lambda>_.
     case op of
       GetAlarm \<Rightarrow> and_then (alarm fl db) (\<lambda>a. Ok (db, AlarmIs a))
     | SetAlarm at \<Rightarrow>
         and_then (check_writes db) (\<lambda>_.
         and_then (exec fl (if at = None then Delete_Alarm else Upsert_Alarm)) (\<lambda>_.
           Ok (db\<lparr>alarm_row := at\<rparr>, AlarmIs at)))
     | GetKeys keys \<Rightarrow>
         and_then (check_keys keys) (\<lambda>_.
         and_then (exec fl Prepare_Get) (\<lambda>_.
         and_then (get_values E fl (kv_rows db) 0 keys) (\<lambda>vs. Ok (db, Values_Are vs))))
     | ListKeys r \<Rightarrow>
         and_then (exec fl Prepare_List) (\<lambda>_.
         and_then (exec fl Query_List) (\<lambda>_.
         and_then (read_rows fl (result_limit db) 0 0
                     (sel_rows E (kv_rows db) (in_range E r) (kr_reverse r) (sql_limit (kr_limit r))))
           (\<lambda>es. Ok (db, Entries es))))
     | Write_Keys puts deletes delete_all \<Rightarrow>
         and_then (write_checks db puts deletes) (\<lambda>_.
         and_then (txn E fl puts deletes delete_all (kv_rows db)) (\<lambda>(t, deleted).
           Ok (db\<lparr>kv_rows := t\<rparr>, Written deleted)))))"

definition unwrap_storage ::
  "'t object_db \<Rightarrow> ('t object_db \<times> object_storage_result, string) result \<Rightarrow> 't object_db \<times> object_storage_result" where
  "unwrap_storage db r =
     (case r of Ok (db', a) \<Rightarrow> (db'\<lparr>guest_rules := True\<rparr>, a) | Err m \<Rightarrow> (db\<lparr>guest_rules := True\<rparr>, Storage_Error m))"

definition object_run ::
  "'t kv_engine \<Rightarrow> failures \<Rightarrow> 't object_db \<Rightarrow> object_storage_op \<Rightarrow> 't object_db \<times> object_storage_result" where
  "object_run E fl db op =
     (let db' = db\<lparr>guest_rules := False\<rparr> in unwrap_storage db' (object_op E fl db' op))"

text \<open>The delete commits on its own: when the read after it fails, the alarm is gone and the answer an error.\<close>

definition clear_alarm :: "failures \<Rightarrow> 't object_db \<Rightarrow> int \<Rightarrow> 't object_db \<times> object_storage_result" where
  "clear_alarm fl db at =
     (case and_then (check_writes db) (\<lambda>_. and_then (exec fl Create_Alarm) (\<lambda>_. exec fl Delete_Alarm)) of
        Err m \<Rightarrow> (db\<lparr>guest_rules := True\<rparr>, Storage_Error m)
      | Ok _ \<Rightarrow>
          (let db' = db\<lparr>alarm_row := (if alarm_row db = Some at then None else alarm_row db), guest_rules := True\<rparr> in
           (db', case alarm fl db' of Ok a \<Rightarrow> AlarmIs a | Err m \<Rightarrow> Storage_Error m)))"

datatype object_job = Job_Object object_storage_op | Job_ClearAlarm int

definition database_run ::
  "'t kv_engine \<Rightarrow> failures \<Rightarrow> 't object_db \<Rightarrow> object_job \<Rightarrow> string option \<Rightarrow> string option \<Rightarrow> 't object_db \<times> object_storage_result" where
  "database_run E fl db job paused full =
     (let db' = db\<lparr>writes_paused := paused, storage_full := full\<rparr> in
      case job of Job_Object op \<Rightarrow> object_run E fl db' op | Job_ClearAlarm at \<Rightarrow> clear_alarm fl db' at)"

section \<open>The contract\<close>

text \<open>What the storage of an object promises: a map of keys and an alarm, one operation at a time.\<close>

type_synonym storage_state = "(string \<rightharpoonup> blob) \<times> int option"

definition storage_view :: "'t kv_engine \<Rightarrow> 't object_db \<Rightarrow> storage_state" where
  "storage_view E db = (sel_value E (kv_rows db), alarm_row db)"

definition spec_range :: "key_range \<Rightarrow> string \<Rightarrow> bool" where
  "spec_range r k =
     ((case kr_start r of Some s \<Rightarrow> s \<le> k | None \<Rightarrow> True)
      \<and> (case kr_start_after r of Some s \<Rightarrow> s < k | None \<Rightarrow> True)
      \<and> (case kr_end r of Some e \<Rightarrow> k < e | None \<Rightarrow> True)
      \<and> (case kr_prefix r of Some p \<Rightarrow> starts_with k p | None \<Rightarrow> True))"

definition kept_map :: "bool \<Rightarrow> (string \<rightharpoonup> blob) \<Rightarrow> (string \<rightharpoonup> blob)" where
  "kept_map delete_all m = (if delete_all then Map.empty else m)"

fun storage_spec :: "storage_state \<Rightarrow> object_storage_op \<Rightarrow> storage_state \<Rightarrow> object_storage_result \<Rightarrow> bool" where
  "storage_spec (m, a) GetAlarm s r \<longleftrightarrow> s = (m, a) \<and> r = AlarmIs a"
| "storage_spec (m, a) (SetAlarm at) s r \<longleftrightarrow> s = (m, at) \<and> r = AlarmIs at"
| "storage_spec (m, a) (GetKeys ks) s r \<longleftrightarrow> s = (m, a) \<and> r = Values_Are (map m ks)"
| "storage_spec (m, a) (ListKeys q) s r \<longleftrightarrow>
     s = (m, a)
     \<and> (\<exists>rows. ordered_keys (kr_reverse q) (map fst rows)
           \<and> set rows = {(k, v). m k = Some v \<and> spec_range q k}
           \<and> r = Entries (take_limit (sql_limit (kr_limit q)) rows))"
| "storage_spec (m, a) (Write_Keys puts deletes delete_all) s r \<longleftrightarrow>
     s = ((kept_map delete_all m |` (- set deletes)) ++ map_of (rev puts), a)
     \<and> r = Written (card {k \<in> set deletes. kept_map delete_all m k \<noteq> None})"

fun plain_texts :: "(string \<rightharpoonup> blob) \<Rightarrow> object_storage_op \<Rightarrow> bool" where
  "plain_texts m (ListKeys q) \<longleftrightarrow>
     kr_prefix q = None \<or> nul_free (the (kr_prefix q)) \<and> (\<forall>k \<in> dom m. nul_free k)"
| "plain_texts m _ \<longleftrightarrow> True"

definition rows_bytes :: "(string \<times> blob) list \<Rightarrow> nat" where
  "rows_bytes rows = sum_list (map (\<lambda>(k, v). length k + length v) rows)"

fun accepted :: "'t kv_engine \<Rightarrow> 't object_db \<Rightarrow> object_storage_op \<Rightarrow> bool" where
  "accepted E db GetAlarm \<longleftrightarrow> True"
| "accepted E db (SetAlarm at) \<longleftrightarrow> writes_paused db = None"
| "accepted E db (GetKeys ks) \<longleftrightarrow> length ks \<le> MAX_KEYS \<and> (\<forall>k \<in> set ks. length k \<le> MAX_KEY_BYTES)"
| "accepted E db (ListKeys r) \<longleftrightarrow>
     rows_bytes (sel_rows E (kv_rows db) (in_range E r) (kr_reverse r) (sql_limit (kr_limit r))) \<le> result_limit db"
| "accepted E db (Write_Keys puts deletes delete_all) \<longleftrightarrow>
     length deletes \<le> MAX_KEYS \<and> (\<forall>k \<in> set deletes. length k \<le> MAX_KEY_BYTES)
     \<and> length puts \<le> MAX_KEYS \<and> (\<forall>(k, v) \<in> set puts. length k \<le> MAX_KEY_BYTES \<and> length v \<le> MAX_VALUE_BYTES)
     \<and> writes_paused db = None \<and> (storage_full db = None \<or> puts = [])"

definition is_error :: "object_storage_result \<Rightarrow> bool" where
  "is_error r = (case r of Storage_Error _ \<Rightarrow> True | _ \<Rightarrow> False)"

section \<open>Lemmas\<close>

lemma exec_Ok [simp]: "exec fl st = Ok u \<longleftrightarrow> fl st = None"
  by (simp add: exec_def split: option.splits)

lemma is_ok_and_then: "is_ok (and_then r f) \<longleftrightarrow> (\<exists>a. r = Ok a \<and> is_ok (f a))"
  by (cases r) auto

lemma is_ok_try_each: "is_ok (try_each f xs) \<longleftrightarrow> (\<forall>x \<in> set xs. is_ok (f x))"
  by (induction xs) (auto simp: is_ok_and_then is_ok_iff)

lemma is_ok_check_key: "is_ok (check_key k) \<longleftrightarrow> length k \<le> MAX_KEY_BYTES"
  by (simp add: check_key_def)

lemma is_ok_check_keys:
  "is_ok (check_keys ks) \<longleftrightarrow> length ks \<le> MAX_KEYS \<and> (\<forall>k \<in> set ks. length k \<le> MAX_KEY_BYTES)"
  by (simp add: check_keys_def is_ok_try_each is_ok_check_key)

lemma is_ok_check_put:
  "is_ok (check_put (k, v)) \<longleftrightarrow> length k \<le> MAX_KEY_BYTES \<and> length v \<le> MAX_VALUE_BYTES"
  by (cases "check_key k") (auto simp: check_put_def is_ok_check_key [symmetric])

lemma is_ok_check_writes: "is_ok (check_writes db) \<longleftrightarrow> writes_paused db = None"
  by (simp add: check_writes_def split: option.splits)

lemma ok_unit: "r = Ok (u :: unit) \<longleftrightarrow> is_ok r"
  by (cases r) auto

lemma is_ok_write_checks:
  "is_ok (write_checks db puts deletes) \<longleftrightarrow>
     is_ok (check_keys deletes) \<and> length puts \<le> MAX_KEYS \<and> (\<forall>kv \<in> set puts. is_ok (check_put kv))
     \<and> writes_paused db = None \<and> (storage_full db = None \<or> puts = [])"
  by (auto simp: write_checks_def is_ok_and_then ok_unit is_ok_try_each is_ok_check_writes
      split: if_splits option.splits)

lemma read_rows_Ok: "read_rows fl lim i bytes rows = Ok es \<Longrightarrow> es = rows"
  by (induction fl lim i bytes rows arbitrary: es rule: read_rows.induct)
     (auto simp: Let_def split: if_splits)

lemma exec_no_failure [simp]: "exec no_failure st = Ok ()"
  by (simp add: no_failure_def)

lemma read_rows_total:
  "bytes \<le> lim \<Longrightarrow> is_ok (read_rows no_failure lim i bytes rows) \<longleftrightarrow> bytes + rows_bytes rows \<le> lim"
proof (induction rows arbitrary: i bytes)
  case Nil
  then show ?case by (simp add: rows_bytes_def)
next
  case (Cons kv rows)
  obtain k v where kv: "kv = (k, v)" by force
  show ?case
    using Cons(1) [of "bytes + (length k + length v)" "Suc i"]
    by (simp add: kv is_ok_and_then is_ok_iff Let_def rows_bytes_def add.assoc)
qed

context kv_laws
begin

lemma get_values_Ok: "get_values E fl t i ks = Ok vs \<Longrightarrow> vs = map (sel_value E t) ks"
  by (induction ks arbitrary: i vs) auto

lemma get_values_total: "is_ok (get_values E no_failure t i ks)"
  by (induction ks arbitrary: i) (auto simp: is_ok_and_then is_ok_iff)

lemma txn_deletes_Ok:
  "txn_deletes E fl i ks t n = Ok (t', n') \<Longrightarrow>
     sel_value E t' = sel_value E t |` (- set ks)
     \<and> n' = n + card {k \<in> set ks. sel_value E t k \<noteq> None}"
proof (induction ks arbitrary: i t n)
  case Nil
  then show ?case by simp
next
  case (Cons k ks)
  define t1 where "t1 = fst (del_key E t k)"
  have t1: "sel_value E t1 = (sel_value E t)(k := None)" by (simp add: t1_def sel_del_key)
  have rec: "sel_value E t' = sel_value E t1 |` (- set ks)"
    "n' = n + snd (del_key E t k) + card {j \<in> set ks. sel_value E t1 j \<noteq> None}"
    using Cons by (auto simp: t1_def)
  have "{j \<in> set (k # ks). sel_value E t j \<noteq> None} =
      {j \<in> set ks. sel_value E t1 j \<noteq> None} \<union> (if sel_value E t k = None then {} else {k})"
    by (auto simp: t1)
  moreover have "k \<notin> {j \<in> set ks. sel_value E t1 j \<noteq> None}" by (simp add: t1)
  ultimately have "card {j \<in> set (k # ks). sel_value E t j \<noteq> None} =
      card {j \<in> set ks. sel_value E t1 j \<noteq> None} + snd (del_key E t k)"
    by (simp add: del_key_count)
  moreover have "sel_value E t1 |` (- set ks) = sel_value E t |` (- set (k # ks))"
    by (rule ext) (simp add: t1 restrict_map_def)
  ultimately show ?case using rec by simp
qed

lemma txn_deletes_total: "is_ok (txn_deletes E no_failure i ks t n)"
  by (induction ks arbitrary: i t n) (auto simp: is_ok_and_then)

lemma txn_puts_Ok:
  "txn_puts E fl i kvs t = Ok t' \<Longrightarrow> sel_value E t' = sel_value E t ++ map_of (rev kvs)"
  by (induction kvs arbitrary: i t) (auto simp: sel_ups_key map_add_def fun_eq_iff split: option.splits)

lemma txn_puts_total: "is_ok (txn_puts E no_failure i kvs t)"
  by (induction kvs arbitrary: i t) (auto simp: is_ok_and_then)

lemma in_range_plain:
  assumes "plain_texts (sel_value E t) (ListKeys q)" and "sel_value E t k = Some v"
  shows "in_range E q k = spec_range q k"
  using assms sql_starts_law [of "the (kr_prefix q)" k]
  by (auto simp: in_range_def spec_range_def dom_def split: option.splits)

lemma txn_Ok:
  assumes "txn E fl puts deletes delete_all t = Ok (t', n)"
  shows "sel_value E t' = (kept_map delete_all (sel_value E t) |` (- set deletes)) ++ map_of (rev puts)"
    and "n = card {k \<in> set deletes. kept_map delete_all (sel_value E t) k \<noteq> None}"
proof -
  obtain t1 t2 where t1: "t1 = (if delete_all then del_all E t else t)"
    and t2: "txn_deletes E fl 0 deletes t1 0 = Ok (t2, n)" and t3: "txn_puts E fl 0 puts t2 = Ok t'"
    using assms by (auto simp: txn_def split: if_splits prod.splits)
  have "sel_value E t1 = kept_map delete_all (sel_value E t)"
    by (simp add: t1 kept_map_def sel_del_all)
  then show "sel_value E t' = (kept_map delete_all (sel_value E t) |` (- set deletes)) ++ map_of (rev puts)"
    and "n = card {k \<in> set deletes. kept_map delete_all (sel_value E t) k \<noteq> None}"
    using txn_deletes_Ok [OF t2] txn_puts_Ok [OF t3] by simp_all
qed

lemma is_ok_txn: "is_ok (txn E no_failure puts deletes delete_all t)"
proof -
  define t1 where "t1 = (if delete_all then del_all E t else t)"
  obtain t2 n where "txn_deletes E no_failure 0 deletes t1 0 = Ok (t2, n)"
    using txn_deletes_total by (metis is_ok_iff surj_pair)
  moreover obtain t3 where "txn_puts E no_failure 0 puts t2 = Ok t3"
    using txn_puts_total by (metis is_ok_iff)
  ultimately show ?thesis by (cases delete_all) (simp_all add: txn_def t1_def)
qed

lemma object_op_spec:
  assumes "plain_texts (sel_value E (kv_rows db)) op" and "object_op E fl db op = Ok (db', r)"
  shows "storage_spec (storage_view E db) op (storage_view E db') r \<and> \<not> is_error r"
proof (cases op)
  case (ListKeys q)
  define rows where "rows = sel_rows E (kv_rows db) (in_range E q) (kr_reverse q) None"
  have r: "db' = db" "r = Entries (take_limit (sql_limit (kr_limit q)) rows)"
    using assms(2) read_rows_Ok unfolding ListKeys rows_def
    by (auto simp: object_op_def limit_sel_rows [symmetric])
  have "set rows = {(k, v). sel_value E (kv_rows db) k = Some v \<and> spec_range q k}"
    using in_range_plain [OF assms(1) [unfolded ListKeys]] by (auto simp: rows_def set_sel_rows)
  moreover have "ordered_keys (kr_reverse q) (map fst rows)"
    unfolding rows_def by (rule order_sel_rows)
  ultimately show ?thesis using r by (auto simp: ListKeys storage_view_def is_error_def)
next
  case (Write_Keys puts deletes delete_all)
  then show ?thesis
    using assms(2) txn_Ok by (fastforce simp: object_op_def storage_view_def is_error_def)
qed (use assms(2) get_values_Ok in \<open>auto simp: object_op_def storage_view_def alarm_def is_error_def\<close>)

lemma is_ok_object_op: "is_ok (object_op E no_failure db op) \<longleftrightarrow> accepted E db op"
proof (cases op)
  case (GetKeys ks)
  obtain vs where "get_values E no_failure (kv_rows db) 0 ks = Ok vs"
    using get_values_total by (metis is_ok_iff)
  then show ?thesis by (simp add: object_op_def GetKeys is_ok_and_then ok_unit is_ok_check_keys)
next
  case (ListKeys q)
  then show ?thesis
    by (auto simp: object_op_def is_ok_and_then is_ok_iff [symmetric] read_rows_total)
next
  case (Write_Keys puts deletes delete_all)
  obtain t n where "txn E no_failure puts deletes delete_all (kv_rows db) = Ok (t, n)"
    using is_ok_txn by (metis is_ok_iff surj_pair)
  then show ?thesis
    by (auto simp: object_op_def Write_Keys is_ok_and_then ok_unit is_ok_write_checks is_ok_check_keys is_ok_check_put)
qed (simp_all add: object_op_def alarm_def is_ok_and_then ok_unit is_ok_check_writes)

end

lemma storage_view_guest [simp]: "storage_view E (db\<lparr>guest_rules := g\<rparr>) = storage_view E db"
  by (simp add: storage_view_def)

lemma accepted_guest [simp]: "accepted E (db\<lparr>guest_rules := g\<rparr>) op = accepted E db op"
  by (cases op) simp_all

section \<open>A table of rows\<close>

text \<open>The laws hold of a plain list of rows, searched from its front and sorted when it is listed.\<close>

definition list_keys :: "(string \<times> blob) list \<Rightarrow> string list" where
  "list_keys t = sort (remdups (map fst t))"

definition list_kv :: "(string \<times> blob) list kv_engine" where
  "list_kv = \<lparr>
     sel_value = map_of,
     del_key = (\<lambda>t k. (filter (\<lambda>r. fst r \<noteq> k) t, if k \<in> set (map fst t) then 1 else 0)),
     del_all = (\<lambda>t. []),
     ups_key = (\<lambda>t k v. (k, v) # t),
     sel_rows = (\<lambda>t P rv lim.
       take_limit lim (map (\<lambda>k. (k, the (map_of t k))) ((if rv then rev else id) (filter P (list_keys t))))),
     sql_starts = (\<lambda>p k. starts_with k p)\<rparr>"

lemma list_kv_simps [simp]:
  "sel_value list_kv = map_of"
  "del_key list_kv t k = (filter (\<lambda>r. fst r \<noteq> k) t, if k \<in> set (map fst t) then 1 else 0)"
  "del_all list_kv t = []"
  "ups_key list_kv t k v = (k, v) # t"
  "sel_rows list_kv t P rv lim =
     take_limit lim (map (\<lambda>k. (k, the (map_of t k))) ((if rv then rev else id) (filter P (list_keys t))))"
  "sql_starts list_kv p k = starts_with k p"
  by (simp_all add: list_kv_def)

lemma map_of_other_rows: "map_of (filter (\<lambda>r. fst r \<noteq> k) t) = (map_of t)(k := None)"
  by (induction t) (auto simp: fun_eq_iff)

lemma set_list_keys: "set (list_keys t) = dom (map_of t)"
  by (simp add: list_keys_def dom_map_of_conv_image_fst)

lemma sorted_list_keys: "sorted_wrt (<) (filter P (list_keys t))"
  by (simp add: list_keys_def strict_sorted_iff sorted_wrt_filter)

interpretation sqlite_kv: kv_laws list_kv
proof
  fix t :: "(string \<times> blob) list" and P rv
  have "map fst (sel_rows list_kv t P rv None) = (if rv then rev else id) (filter P (list_keys t))"
    by (simp add: take_limit_def comp_def)
  then show "ordered_keys rv (map fst (sel_rows list_kv t P rv None))"
    using sorted_list_keys [of P t] by (simp add: ordered_keys_def)
  show "set (sel_rows list_kv t P rv None) = {(k, v). sel_value list_kv t k = Some v \<and> P k}"
    by (auto simp: take_limit_def set_list_keys)
qed (auto simp: map_of_other_rows map_of_eq_None_iff take_limit_def)

section \<open>Properties\<close>

text \<open>C15. The storage of an object implements a map with an alarm. Whatever statement fails, an operation either
  answers an error and leaves the keys and the alarm as they were, a write of many keys included, or
  does exactly what the contract says of the map: the values of the keys, the entries of the range in the order of
  the keys and up to the limit, the puts after the deletes with the count of the keys that were deleted, the alarm.
  When no statement fails the answer is an error exactly for an operation over the limits or a write
  that is paused or that the quota refuses. Every path leaves the restrictions of guest statements on.\<close>

theorem object_storage_refines:
  assumes "kv_laws E" and "plain_texts (sel_value E (kv_rows db)) op"
  shows "guest_rules (fst (object_run E fl db op))
     \<and> (if is_error (snd (object_run E fl db op))
        then storage_view E (fst (object_run E fl db op)) = storage_view E db
        else storage_spec (storage_view E db) op
               (storage_view E (fst (object_run E fl db op))) (snd (object_run E fl db op)))
     \<and> (is_error (snd (object_run E no_failure db op)) \<longleftrightarrow> \<not> accepted E db op)"
proof -
  define db0 where "db0 = db\<lparr>guest_rules := False\<rparr>"
  have plain: "plain_texts (sel_value E (kv_rows db0)) op" using assms(2) by (simp add: db0_def)
  have view: "storage_view E db0 = storage_view E db" and acc: "accepted E db0 op = accepted E db op"
    by (simp_all add: db0_def)
  have run: "object_run E f db op = unwrap_storage db0 (object_op E f db0 op)" for f
    by (simp add: object_run_def db0_def Let_def)
  have err: "is_error (snd (unwrap_storage db0 r)) \<longleftrightarrow> \<not> is_ok r"
    if "\<And>d a. r = Ok (d, a) \<Longrightarrow> \<not> is_error a" for r :: "('a object_db \<times> object_storage_result, string) result"
    using that by (cases r) (auto simp: unwrap_storage_def is_error_def)
  have spec: "object_op E f db0 op = Ok (d, a) \<Longrightarrow>
      storage_spec (storage_view E db) op (storage_view E d) a \<and> \<not> is_error a" for f d a
    using kv_laws.object_op_spec [OF assms(1) plain] by (simp add: view)
  have "is_error (snd (object_run E no_failure db op)) \<longleftrightarrow> \<not> accepted E db op"
    unfolding run using err spec kv_laws.is_ok_object_op [OF assms(1), of db0 op] acc by metis
  moreover have "guest_rules (fst (object_run E fl db op))"
    by (auto simp: run unwrap_storage_def split: result.splits)
  moreover have "if is_error (snd (object_run E fl db op))
        then storage_view E (fst (object_run E fl db op)) = storage_view E db
        else storage_spec (storage_view E db) op
               (storage_view E (fst (object_run E fl db op))) (snd (object_run E fl db op))"
  proof (cases "object_op E fl db0 op")
    case (Ok r)
    then show ?thesis using spec by (cases r) (simp add: run unwrap_storage_def)
  next
    case (Err m)
    then show ?thesis by (simp add: run unwrap_storage_def is_error_def view)
  qed
  ultimately show ?thesis by blast
qed

definition demo_object :: "(string \<times> blob) list object_db" where
  "demo_object = \<lparr>kv_rows = [(''b'', [2]), (''a'', [1]), (''ab'', [3])], alarm_row = Some 7, guest_rules = True,
     result_limit = 100, writes_paused = None, storage_full = None\<rparr>"

definition demo_write :: object_storage_op where
  "demo_write = Write_Keys [(''c'', [4]), (''a'', [5])] [''b'', ''x'', ''b''] False"

theorem object_storage_refines_witness:
  "accepted list_kv demo_object demo_write
   \<and> \<not> is_error (snd (object_run list_kv no_failure demo_object demo_write))
   \<and> storage_spec (storage_view list_kv demo_object) demo_write
        (storage_view list_kv (fst (object_run list_kv no_failure demo_object demo_write)))
        (snd (object_run list_kv no_failure demo_object demo_write))"
proof -
  have "plain_texts (sel_value list_kv (kv_rows demo_object)) demo_write" by (simp add: demo_write_def)
  moreover have "accepted list_kv demo_object demo_write"
    by (simp add: demo_write_def demo_object_def MAX_KEYS_def MAX_KEY_BYTES_def MAX_VALUE_BYTES_def)
  ultimately show ?thesis
    using object_storage_refines [OF sqlite_kv.kv_laws_axioms, of demo_object demo_write no_failure] by presburger
qed

end
