(* ===== verification/Durable_Alarms.thy ===== *)
theory Durable_Alarms
  imports Object_Storage "HOL-Library.AList"
begin

text \<open>
  \<open>src/durable/alarms.rs\<close>: the alarms of Durable Objects. The alarm of an object is a row of its file, and
  the table \<open>durable_object_alarms\<close> is the index of due alarms. The calls of \<open>set\<close>, the deliveries and the
  loop are tasks of one machine that move one statement, one storage call or one lock operation at a
  time, in any order; any statement may fail, a call of \<open>set\<close> may be dropped at any point, and the
  runner may stop at any point. Times are milliseconds. The gaps between the index and the file that
  the module allows for are the invariant; \<open>Alarm_Props\<close> has the properties.
\<close>

type_synonym alarm_object = "string \<times> string"

section \<open>The index\<close>

record index_row =
  scheduled_at :: int
  retry_count :: nat
  delivering :: bool

type_synonym alarm_index = "(alarm_object \<times> index_row) list"

definition MAX_RETRIES :: nat where "MAX_RETRIES = 6"

definition lower :: "alarm_object \<Rightarrow> int \<Rightarrow> alarm_index \<Rightarrow> alarm_index" where
  "lower obj at idx =
     AList.update obj
       (case map_of idx obj of
          None \<Rightarrow> \<lparr>scheduled_at = at, retry_count = 0, delivering = False\<rparr>
        | Some row \<Rightarrow> row\<lparr>scheduled_at := min (scheduled_at row) at\<rparr>) idx"

datatype under_way = Keep_Mark | End_Mark

definition follow :: "alarm_object \<Rightarrow> (int \<times> nat) option \<Rightarrow> under_way \<Rightarrow> alarm_index \<Rightarrow> alarm_index" where
  "follow obj al mark idx =
     (case al of
        Some (at, failed) \<Rightarrow>
          AList.update obj
            \<lparr>scheduled_at = at, retry_count = failed,
             delivering = (case map_of idx obj of None \<Rightarrow> False | Some row \<Rightarrow> delivering row \<and> mark \<noteq> End_Mark)\<rparr> idx
      | None \<Rightarrow> AList.delete obj idx)"

record due =
  due_object :: alarm_object
  due_retries :: nat

definition is_due :: "int \<Rightarrow> alarm_object \<times> index_row \<Rightarrow> bool" where
  "is_due now row \<longleftrightarrow> \<not> delivering (snd row) \<and> scheduled_at (snd row) \<le> now"

definition due_rows :: "nat \<Rightarrow> int \<Rightarrow> alarm_index \<Rightarrow> (alarm_object \<times> index_row) list" where
  "due_rows limit now idx = take limit (sort_key (\<lambda>row. scheduled_at (snd row)) (filter (is_due now) idx))"

definition claim :: "nat \<Rightarrow> int \<Rightarrow> alarm_index \<Rightarrow> alarm_index \<times> due list" where
  "claim limit now idx =
     (let rows = due_rows limit now idx in
      (map (\<lambda>(obj, row). (obj, if obj \<in> set (map fst rows) then row\<lparr>delivering := True\<rparr> else row)) idx,
       map (\<lambda>(obj, row). \<lparr>due_object = obj, due_retries = retry_count row\<rparr>) rows))"

definition unmark_all :: "alarm_index \<Rightarrow> alarm_index" where
  "unmark_all idx = map (\<lambda>(obj, row). (obj, row\<lparr>delivering := False\<rparr>)) idx"

section \<open>What follows a run\<close>

definition retry_at :: "int \<Rightarrow> nat \<Rightarrow> int" where
  "retry_at now failed = now + 1000 * 2 ^ min failed MAX_RETRIES"

datatype next_step = Clear | Keep int nat

definition next_alarm :: "int \<Rightarrow> int option \<Rightarrow> nat option \<Rightarrow> int \<Rightarrow> next_step" where
  "next_alarm at current failed_runs now =
     (case (failed_runs, current) of
        (_, Some cur) \<Rightarrow>
          if cur \<noteq> at then Keep cur 0
          else (case failed_runs of
                  Some failed \<Rightarrow> if failed \<le> MAX_RETRIES then Keep (retry_at now failed) failed else Clear
                | None \<Rightarrow> Clear)
      | _ \<Rightarrow> Clear)"

section \<open>Tasks\<close>

text \<open>
  A task is at the statement it runs next. \<open>Set_Lower\<close> to \<open>Set_Follow\<close> are the work of \<open>set\<close>, \<open>Dlv_Settle\<close>,
  \<open>Dlv_Current\<close> and \<open>Dlv_Clear\<close> that of a delivery, under the lock of the object; \<open>Set_Wait\<close>, \<open>Dlv_Wait\<close> and
  \<open>Dlv_Ran\<close> ask for the lock. The flag of \<open>Dlv_Wait\<close> tells a delivery that read the file too early.
\<close>

datatype place =
    Set_Wait "int option"
  | Set_Lower "int option"
  | Set_File "int option"
  | Set_Follow "int option"
  | Dlv_Start nat
  | Dlv_Read nat
  | Dlv_Run nat int
  | Dlv_Wait bool "(int \<times> nat) option"
  | Dlv_Ran nat int bool
  | Dlv_Current nat int bool
  | Dlv_Clear nat int
  | Dlv_Settle "(int \<times> nat) option"
  | Ended

record alarm_task =
  task_object :: alarm_object
  task_place :: place
  task_lock :: "nat option"
  task_holds :: bool

record alarms =
  al_index :: alarm_index
  al_file :: "alarm_object \<Rightarrow> int option"
  al_locks :: "(alarm_object \<times> nat) list"
  al_next_lock :: nat
  al_tasks :: "alarm_task list"
  al_clock :: int
  al_looping :: bool
  al_left_marked :: "alarm_object list"
  al_gone :: "alarm_object list"

definition alarms_start :: "int \<Rightarrow> alarms" where
  "alarms_start now =
     \<lparr>al_index = [], al_file = (\<lambda>_. None), al_locks = [], al_next_lock = 0, al_tasks = [], al_clock = now,
      al_looping = False, al_left_marked = [], al_gone = []\<rparr>"

definition set_task :: "nat \<Rightarrow> alarm_task \<Rightarrow> alarms \<Rightarrow> alarms" where
  "set_task i t s = s\<lparr>al_tasks := (al_tasks s)[i := t]\<rparr>"

definition go :: "nat \<Rightarrow> place \<Rightarrow> alarms \<Rightarrow> alarms" where
  "go i p s = set_task i ((al_tasks s ! i)\<lparr>task_place := p\<rparr>) s"

section \<open>The lock of an object\<close>

fun locking :: "place \<Rightarrow> place option" where
  "locking (Set_Wait at) = Some (if at = None then Set_File at else Set_Lower at)"
| "locking (Dlv_Wait early al) = Some (Dlv_Settle al)"
| "locking (Dlv_Ran failed at bad) = Some (Dlv_Current failed at bad)"
| "locking _ = None"

definition enter_lock :: "nat \<Rightarrow> alarms \<Rightarrow> alarms option" where
  "enter_lock i s =
     (let t = al_tasks s ! i in
      if locking (task_place t) = None \<or> task_lock t \<noteq> None then None
      else case map_of (al_locks s) (task_object t) of
             Some l \<Rightarrow> Some (set_task i (t\<lparr>task_lock := Some l\<rparr>) s)
           | None \<Rightarrow>
               Some (set_task i (t\<lparr>task_lock := Some (al_next_lock s)\<rparr>)
                  (s\<lparr>al_locks := AList.update (task_object t) (al_next_lock s) (al_locks s),
                     al_next_lock := Suc (al_next_lock s)\<rparr>)))"

definition lock_free :: "nat \<Rightarrow> alarms \<Rightarrow> bool" where
  "lock_free l s \<longleftrightarrow> (\<forall>t \<in> set (al_tasks s). task_holds t \<longrightarrow> task_lock t \<noteq> Some l)"

definition take_lock :: "nat \<Rightarrow> alarms \<Rightarrow> alarms option" where
  "take_lock i s =
     (let t = al_tasks s ! i in
      case (locking (task_place t), task_lock t) of
        (Some p, Some l) \<Rightarrow>
          if lock_free l s then Some (set_task i (t\<lparr>task_place := p, task_holds := True\<rparr>) s) else None
      | _ \<Rightarrow> None)"

definition drop_lock :: "nat \<Rightarrow> alarms \<Rightarrow> alarms option" where
  "drop_lock i s =
     (let t = al_tasks s ! i in
      if task_place t = Ended \<and> task_holds t then Some (set_task i (t\<lparr>task_holds := False\<rparr>) s) else None)"

definition lock_holders :: "nat \<Rightarrow> alarms \<Rightarrow> nat" where
  "lock_holders l s = tally (\<lambda>t. task_lock t = Some l) (al_tasks s) + tally (\<lambda>e. snd e = l) (al_locks s)"

definition leave_lock :: "nat \<Rightarrow> alarms \<Rightarrow> alarms option" where
  "leave_lock i s =
     (let t = al_tasks s ! i in
      case task_lock t of
        Some l \<Rightarrow>
          if task_place t = Ended \<and> \<not> task_holds t
          then Some (set_task i (t\<lparr>task_lock := None\<rparr>)
                 (if lock_holders l s = 2 then s\<lparr>al_locks := AList.delete (task_object t) (al_locks s)\<rparr> else s))
          else None
      | None \<Rightarrow> None)"

section \<open>Setting an alarm\<close>

definition call_set :: "alarm_object \<Rightarrow> int option \<Rightarrow> alarms \<Rightarrow> alarms" where
  "call_set obj at s =
     s\<lparr>al_tasks := al_tasks s @ [\<lparr>task_object = obj, task_place = Set_Wait at, task_lock = None, task_holds = False\<rparr>]\<rparr>"

definition set_file :: "alarm_object \<Rightarrow> int option \<Rightarrow> alarms \<Rightarrow> alarms" where
  "set_file obj at s = s\<lparr>al_file := (al_file s)(obj := at)\<rparr>"

text \<open>Each step is told whether its statement succeeds; a storage call that fails may still have changed the file.\<close>

definition set_step :: "nat \<Rightarrow> bool \<Rightarrow> bool \<Rightarrow> alarms \<Rightarrow> alarms option" where
  "set_step i ok changed s =
     (let t = al_tasks s ! i; obj = task_object t in
      case task_place t of
        Set_Lower at \<Rightarrow>
          Some (if ok then go i (Set_File at) (s\<lparr>al_index := lower obj (the at) (al_index s)\<rparr>) else go i Ended s)
      | Set_File at \<Rightarrow>
          Some (if ok then go i (Set_Follow at) (set_file obj at s)
                else go i Ended (if changed then set_file obj at s else s))
      | Set_Follow at \<Rightarrow>
          Some (go i Ended
            (if ok then s\<lparr>al_index := follow obj (map_option (\<lambda>a. (a, 0)) at) Keep_Mark (al_index s)\<rparr> else s))
      | _ \<Rightarrow> None)"

fun set_place :: "place \<Rightarrow> bool" where
  "set_place (Set_Wait _) = True"
| "set_place (Set_Lower _) = True"
| "set_place (Set_File _) = True"
| "set_place (Set_Follow _) = True"
| "set_place _ = False"

definition drop_set :: "nat \<Rightarrow> bool \<Rightarrow> alarms \<Rightarrow> alarms option" where
  "drop_set i changed s =
     (let t = al_tasks s ! i in
      if set_place (task_place t)
      then Some (set_task i (t\<lparr>task_place := Ended, task_lock := None, task_holds := False\<rparr>)
             (case task_place t of Set_File at \<Rightarrow> if changed then set_file (task_object t) at s else s | _ \<Rightarrow> s))
      else None)"

section \<open>Delivering an alarm\<close>

definition BATCH :: nat where "BATCH = 100"

definition start_loop :: "bool \<Rightarrow> alarms \<Rightarrow> alarms" where
  "start_loop ok s =
     (if ok then s\<lparr>al_index := unmark_all (al_index s), al_left_marked := [], al_looping := True\<rparr> else s)"

definition spawn_delivery :: "due \<Rightarrow> alarm_task" where
  "spawn_delivery d =
     \<lparr>task_object = due_object d, task_place = Dlv_Start (due_retries d), task_lock = None, task_holds = False\<rparr>"

definition loop_claim :: "alarms \<Rightarrow> alarms option" where
  "loop_claim s =
     (if al_looping s
      then (let (idx, due) = claim BATCH (al_clock s) (al_index s) in
            Some (s\<lparr>al_index := idx, al_tasks := al_tasks s @ map spawn_delivery due\<rparr>))
      else None)"

datatype namespace_answer = Ns_Unknown | Ns_Deleted | Ns_Found

datatype run_outcome = Ran_Well | Ran_Failed | Ran_Refused

definition settle_later :: "alarms \<Rightarrow> nat \<Rightarrow> place" where
  "settle_later s failed = Dlv_Wait False (Some (retry_at (al_clock s) 0, failed))"

definition deliver_start :: "nat \<Rightarrow> namespace_answer \<Rightarrow> alarms \<Rightarrow> alarms option" where
  "deliver_start i ans s =
     (let t = al_tasks s ! i in
      case task_place t of
        Dlv_Start failed \<Rightarrow>
          Some (case ans of
                  Ns_Unknown \<Rightarrow> go i (settle_later s failed) s
                | Ns_Deleted \<Rightarrow> go i (Dlv_Wait False None) (s\<lparr>al_gone := task_object t # al_gone s\<rparr>)
                | Ns_Found \<Rightarrow> go i (Dlv_Read failed) s)
      | _ \<Rightarrow> None)"

definition deliver_read :: "nat \<Rightarrow> bool \<Rightarrow> alarms \<Rightarrow> alarms option" where
  "deliver_read i ok s =
     (let t = al_tasks s ! i; later = al_file s (task_object t) in
      case task_place t of
        Dlv_Read failed \<Rightarrow>
          Some (if \<not> ok then go i (settle_later s failed) s
                else case later of
                       Some at \<Rightarrow> if at \<le> al_clock s then go i (Dlv_Run failed at) s
                                  else go i (Dlv_Wait True (Some (at, failed))) s
                     | None \<Rightarrow> go i (Dlv_Wait True None) s)
      | _ \<Rightarrow> None)"

definition deliver_run :: "nat \<Rightarrow> run_outcome \<Rightarrow> alarms \<Rightarrow> alarms option" where
  "deliver_run i out s =
     (case task_place (al_tasks s ! i) of
        Dlv_Run failed at \<Rightarrow>
          Some (case out of
                  Ran_Well \<Rightarrow> go i (Dlv_Ran failed at False) s
                | Ran_Failed \<Rightarrow> go i (Dlv_Ran failed at True) s
                | Ran_Refused \<Rightarrow> go i (settle_later s failed) s)
      | _ \<Rightarrow> None)"

definition deliver_current :: "nat \<Rightarrow> bool \<Rightarrow> alarms \<Rightarrow> alarms option" where
  "deliver_current i ok s =
     (let t = al_tasks s ! i in
      case task_place t of
        Dlv_Current failed at bad \<Rightarrow>
          (let current = (if ok then al_file s (task_object t) else Some at) in
           Some (case next_alarm at current (if bad then Some (failed + 1) else None) (al_clock s) of
                   Keep a n \<Rightarrow> go i (Dlv_Settle (Some (a, n))) s
                 | Clear \<Rightarrow> go i (Dlv_Clear failed at) s))
      | _ \<Rightarrow> None)"

definition deliver_clear :: "nat \<Rightarrow> bool \<Rightarrow> bool \<Rightarrow> alarms \<Rightarrow> alarms option" where
  "deliver_clear i ok changed s =
     (let t = al_tasks s ! i; obj = task_object t in
      case task_place t of
        Dlv_Clear failed at \<Rightarrow>
          (let remaining = (if al_file s obj = Some at then None else al_file s obj) in
           Some (if ok then go i (Dlv_Settle (map_option (\<lambda>a. (a, 0)) remaining)) (set_file obj remaining s)
                 else go i (Dlv_Settle (Some (retry_at (al_clock s) failed, failed)))
                        (if changed then set_file obj remaining s else s)))
      | _ \<Rightarrow> None)"

definition deliver_settle :: "nat \<Rightarrow> bool \<Rightarrow> alarms \<Rightarrow> alarms option" where
  "deliver_settle i ok s =
     (let t = al_tasks s ! i; obj = task_object t in
      case task_place t of
        Dlv_Settle al \<Rightarrow>
          Some (go i Ended
            (if ok then s\<lparr>al_index := follow obj al End_Mark (al_index s)\<rparr>
             else s\<lparr>al_left_marked := obj # al_left_marked s\<rparr>))
      | _ \<Rightarrow> None)"

section \<open>The machine\<close>

datatype alarm_event =
    Call_Set alarm_object "int option"
  | Enter_Lock nat
  | Take_Lock nat
  | Drop_Lock nat
  | Leave_Lock nat
  | Set_Step nat bool bool
  | Drop_Set nat bool
  | Start_Loop bool
  | Loop_Claim
  | Deliver_Start nat namespace_answer
  | Deliver_Read nat bool
  | Deliver_Run nat run_outcome
  | Deliver_Current nat bool
  | Deliver_Clear nat bool bool
  | Deliver_Settle nat bool
  | Time_Passes nat
  | Runner_Stops

definition on_task :: "nat \<Rightarrow> (alarms \<Rightarrow> alarms option) \<Rightarrow> alarms \<Rightarrow> alarms option" where
  "on_task i f s = (if i < length (al_tasks s) then f s else None)"

definition runner_stops :: "alarms \<Rightarrow> alarms" where
  "runner_stops s =
     s\<lparr>al_locks := [], al_tasks := [], al_looping := False, al_left_marked := map fst (al_index s)\<rparr>"

fun alarm_step :: "alarms \<Rightarrow> alarm_event \<Rightarrow> alarms option" where
  "alarm_step s (Call_Set obj at) = Some (call_set obj at s)"
| "alarm_step s (Enter_Lock i) = on_task i (enter_lock i) s"
| "alarm_step s (Take_Lock i) = on_task i (take_lock i) s"
| "alarm_step s (Drop_Lock i) = on_task i (drop_lock i) s"
| "alarm_step s (Leave_Lock i) = on_task i (leave_lock i) s"
| "alarm_step s (Set_Step i ok changed) = on_task i (set_step i ok changed) s"
| "alarm_step s (Drop_Set i changed) = on_task i (drop_set i changed) s"
| "alarm_step s (Start_Loop ok) = (if al_looping s then None else Some (start_loop ok s))"
| "alarm_step s Loop_Claim = loop_claim s"
| "alarm_step s (Deliver_Start i ans) = on_task i (deliver_start i ans) s"
| "alarm_step s (Deliver_Read i ok) = on_task i (deliver_read i ok) s"
| "alarm_step s (Deliver_Run i out) = on_task i (deliver_run i out) s"
| "alarm_step s (Deliver_Current i ok) = on_task i (deliver_current i ok) s"
| "alarm_step s (Deliver_Clear i ok changed) = on_task i (deliver_clear i ok changed) s"
| "alarm_step s (Deliver_Settle i ok) = on_task i (deliver_settle i ok) s"
| "alarm_step s (Time_Passes n) = Some (s\<lparr>al_clock := al_clock s + int n\<rparr>)"
| "alarm_step s Runner_Stops = Some (runner_stops s)"

end
