(* ===== verification/Alarm_Inv.thy ===== *)
theory Alarm_Inv
  imports Durable_Alarms
begin

text \<open>
  The invariant of the alarms of Durable Objects: the lock of an object has one holder, the tasks under it
  know the file and the index, the index is never later than the file by more than the longest
  retry, and a row that is marked has a delivery under way or was left marked.
\<close>

section \<open>The locks\<close>

definition lock_view :: "alarm_task \<Rightarrow> alarm_object \<times> nat option \<times> bool" where
  "lock_view t = (task_object t, task_lock t, task_holds t)"

type_synonym task_view = "alarm_object \<times> nat option \<times> bool"

definition map_ok :: "(alarm_object \<times> nat) list \<Rightarrow> nat \<Rightarrow> bool" where
  "map_ok locks nxt \<longleftrightarrow>
     distinct (map fst locks) \<and> distinct (map snd locks) \<and> (\<forall>l \<in> set (map snd locks). l < nxt)"

definition view_ok :: "(alarm_object \<times> nat) list \<Rightarrow> task_view \<Rightarrow> bool" where
  "view_ok locks v \<longleftrightarrow>
     (\<forall>l. fst (snd v) = Some l \<longrightarrow> map_of locks (fst v) = Some l) \<and> (snd (snd v) \<longrightarrow> fst (snd v) \<noteq> None)"

definition holders_ok :: "task_view list \<Rightarrow> bool" where
  "holders_ok vs \<longleftrightarrow>
     (\<forall>i j. i < length vs \<longrightarrow> j < length vs \<longrightarrow> snd (snd (vs ! i)) \<longrightarrow> snd (snd (vs ! j)) \<longrightarrow>
        fst (snd (vs ! i)) = fst (snd (vs ! j)) \<longrightarrow> i = j)"

definition lock_ok :: "(alarm_object \<times> nat) list \<Rightarrow> nat \<Rightarrow> task_view list \<Rightarrow> bool" where
  "lock_ok locks nxt vs \<longleftrightarrow> map_ok locks nxt \<and> (\<forall>v \<in> set vs. view_ok locks v) \<and> holders_ok vs"

definition lock_inv :: "alarms \<Rightarrow> bool" where
  "lock_inv s = lock_ok (al_locks s) (al_next_lock s) (map lock_view (al_tasks s))"

lemma lock_inv_tasks:
  assumes "lock_inv s"
  shows "t \<in> set (al_tasks s) \<Longrightarrow> task_lock t = Some l \<Longrightarrow> map_of (al_locks s) (task_object t) = Some l"
    and "t \<in> set (al_tasks s) \<Longrightarrow> task_holds t \<Longrightarrow> task_lock t \<noteq> None"
  using assms by (auto simp: lock_inv_def lock_ok_def view_ok_def lock_view_def)

lemma lock_inv_holders:
  assumes "lock_inv s" and "i < length (al_tasks s)" and "j < length (al_tasks s)"
    and "task_holds (al_tasks s ! i)" and "task_holds (al_tasks s ! j)"
    and "task_lock (al_tasks s ! i) = task_lock (al_tasks s ! j)"
  shows "i = j"
  using assms by (simp add: lock_inv_def lock_ok_def holders_ok_def lock_view_def)

lemma one_holder:
  assumes "lock_inv s" and "i < length (al_tasks s)" and "j < length (al_tasks s)"
    and "task_holds (al_tasks s ! i)" and "task_holds (al_tasks s ! j)"
    and "task_object (al_tasks s ! i) = task_object (al_tasks s ! j)"
  shows "i = j"
proof -
  obtain k l where "task_lock (al_tasks s ! i) = Some k" "task_lock (al_tasks s ! j) = Some l"
    using lock_inv_tasks(2) [OF assms(1)] assms(2-5) by (metis nth_mem not_None_eq)
  then have "task_lock (al_tasks s ! i) = task_lock (al_tasks s ! j)"
    using lock_inv_tasks(1) [OF assms(1)] assms(2,3,6) by (metis nth_mem)
  then show ?thesis by (rule lock_inv_holders [OF assms(1-5)])
qed

lemma lock_inv_same:
  assumes "lock_inv s" and "al_locks s' = al_locks s" and "al_next_lock s' = al_next_lock s"
    and "map lock_view (al_tasks s') = map lock_view (al_tasks s)"
  shows "lock_inv s'"
  using assms by (simp add: lock_inv_def)

lemma holders_ok_append:
  assumes "holders_ok vs" and "\<forall>w \<in> set ws. \<not> snd (snd w)"
  shows "holders_ok (vs @ ws)"
proof -
  have "i < length vs" if "i < length (vs @ ws)" "snd (snd ((vs @ ws) ! i))" for i
  proof (rule ccontr)
    assume "\<not> i < length vs"
    then have "(vs @ ws) ! i = ws ! (i - length vs)" "i - length vs < length ws"
      using that(1) by (auto simp: nth_append)
    then show False using that(2) assms(2) by (metis nth_mem)
  qed
  then show ?thesis using assms(1) unfolding holders_ok_def by (metis nth_append)
qed

lemma lock_ok_append:
  assumes "lock_ok locks nxt vs" and "\<forall>w \<in> set ws. fst (snd w) = None \<and> \<not> snd (snd w)"
  shows "lock_ok locks nxt (vs @ ws)"
  using assms holders_ok_append [of vs ws] by (auto simp: lock_ok_def view_ok_def)

text \<open>A task changes its view of the lock: it drops what it held, or takes a lock that no other task holds.\<close>

lemma holders_ok_update:
  assumes "holders_ok vs" and "i < length vs"
    and "snd (snd w) \<Longrightarrow> \<forall>j < length vs. j \<noteq> i \<longrightarrow> snd (snd (vs ! j)) \<longrightarrow> fst (snd (vs ! j)) \<noteq> fst (snd w)"
  shows "holders_ok (vs[i := w])"
  unfolding holders_ok_def length_list_update
proof (intro allI impI)
  fix a b
  assume ab: "a < length vs" "b < length vs" "snd (snd (vs[i := w] ! a))" "snd (snd (vs[i := w] ! b))"
    "fst (snd (vs[i := w] ! a)) = fst (snd (vs[i := w] ! b))"
  consider "a = i" "b = i" | "a = i" "b \<noteq> i" | "a \<noteq> i" "b = i" | "a \<noteq> i" "b \<noteq> i" by blast
  then show "a = b"
  proof cases
    case 4
    then show ?thesis using ab assms(1) unfolding holders_ok_def by simp
  qed (use ab assms(2,3) in auto)
qed

lemma lock_ok_update:
  assumes "lock_ok locks nxt vs" and "i < length vs" and "view_ok locks w"
    and "snd (snd w) \<Longrightarrow> \<forall>j < length vs. j \<noteq> i \<longrightarrow> snd (snd (vs ! j)) \<longrightarrow> fst (snd (vs ! j)) \<noteq> fst (snd w)"
  shows "lock_ok locks nxt (vs[i := w])"
proof -
  have "\<forall>v \<in> set (vs[i := w]). view_ok locks v"
    using assms(1,3) set_update_subset_insert [of vs i w] unfolding lock_ok_def by blast
  moreover have "holders_ok (vs[i := w])"
    using assms(1,2,4) by (simp add: lock_ok_def holders_ok_update)
  ultimately show ?thesis using assms(1) by (simp add: lock_ok_def)
qed

lemma update_fresh: "map_of xs k = None \<Longrightarrow> AList.update k v xs = xs @ [(k, v)]"
  by (induction xs) (auto split: if_splits)

lemma lock_ok_new:
  assumes "lock_ok locks nxt vs" and "map_of locks obj = None"
  shows "lock_ok (AList.update obj nxt locks) (Suc nxt) vs"
proof -
  have "map_ok (locks @ [(obj, nxt)]) (Suc nxt)"
    using assms by (fastforce simp: lock_ok_def map_ok_def map_of_eq_None_iff less_Suc_eq)
  moreover have "view_ok (locks @ [(obj, nxt)]) v" if "view_ok locks v" for v
    using that assms(2) by (auto simp: view_ok_def map_of_append)
  ultimately show ?thesis
    using assms by (simp add: lock_ok_def update_fresh)
qed

lemma lock_ok_forget:
  assumes "lock_ok locks nxt vs" and "\<forall>v \<in> set vs. fst v = obj \<longrightarrow> fst (snd v) = None"
  shows "lock_ok (AList.delete obj locks) nxt vs"
proof -
  have "map_ok (AList.delete obj locks) nxt"
    using assms(1) by (auto simp: lock_ok_def map_ok_def AList.delete_eq distinct_map_filter)
  moreover have "view_ok (AList.delete obj locks) v" if "v \<in> set vs" for v
    using that assms unfolding lock_ok_def view_ok_def by (metis AList.delete_conv fun_upd_other option.distinct(1))
  ultimately show ?thesis using assms(1) by (simp add: lock_ok_def)
qed

lemma set_task_simps [simp]:
  "al_index (set_task i t s) = al_index s"
  "al_file (set_task i t s) = al_file s"
  "al_locks (set_task i t s) = al_locks s"
  "al_next_lock (set_task i t s) = al_next_lock s"
  "al_tasks (set_task i t s) = (al_tasks s)[i := t]"
  "al_clock (set_task i t s) = al_clock s"
  "al_looping (set_task i t s) = al_looping s"
  "al_left_marked (set_task i t s) = al_left_marked s"
  "al_gone (set_task i t s) = al_gone s"
  by (simp_all add: set_task_def)

lemma set_file_simps [simp]:
  "al_index (set_file obj at s) = al_index s"
  "al_file (set_file obj at s) = (al_file s)(obj := at)"
  "al_locks (set_file obj at s) = al_locks s"
  "al_next_lock (set_file obj at s) = al_next_lock s"
  "al_tasks (set_file obj at s) = al_tasks s"
  "al_clock (set_file obj at s) = al_clock s"
  "al_left_marked (set_file obj at s) = al_left_marked s"
  "al_gone (set_file obj at s) = al_gone s"
  by (simp_all add: set_file_def)

lemma lock_inv_update:
  assumes "lock_inv s" and "i < length (al_tasks s)" and "al_locks s' = al_locks s" and "al_next_lock s' = al_next_lock s"
    and "al_tasks s' = (al_tasks s)[i := t]" and "view_ok (al_locks s) (lock_view t)"
    and "task_holds t \<Longrightarrow> \<forall>u \<in> set (al_tasks s). task_holds u \<longrightarrow> task_lock u \<noteq> task_lock t"
  shows "lock_inv s'"
  using lock_ok_update [of "al_locks s" "al_next_lock s" "map lock_view (al_tasks s)" i "lock_view t"] assms
  by (auto simp: lock_inv_def map_update lock_view_def)

lemma view_ok_nth:
  "lock_inv s \<Longrightarrow> i < length (al_tasks s) \<Longrightarrow> view_ok (al_locks s) (lock_view (al_tasks s ! i))"
  by (simp add: lock_inv_def lock_ok_def)

lemma lock_inv_go:
  assumes "lock_inv s" and "al_locks s' = al_locks s" and "al_next_lock s' = al_next_lock s"
    and "al_tasks s' = al_tasks s"
  shows "lock_inv (go i p s')"
proof (rule lock_inv_same [OF assms(1)])
  show "map lock_view (al_tasks (go i p s')) = map lock_view (al_tasks s)"
    by (cases "i < length (al_tasks s)") (simp_all add: go_def map_update lock_view_def assms list_update_same_conv list_update_beyond)
qed (simp_all add: go_def assms)

lemma lock_inv_enter:
  assumes "lock_inv s" and "i < length (al_tasks s)" and "enter_lock i s = Some s'"
  shows "lock_inv s'"
proof -
  define t where "t = al_tasks s ! i"
  have free: "\<not> task_holds t"
    using assms lock_inv_tasks(2) [OF assms(1), of t] by (auto simp: enter_lock_def t_def Let_def split: if_splits)
  show ?thesis
  proof (cases "map_of (al_locks s) (task_object t)")
    case (Some l)
    then have "s' = set_task i (t\<lparr>task_lock := Some l\<rparr>) s"
      using assms(3) by (auto simp: enter_lock_def t_def Let_def split: if_splits)
    then show ?thesis
      using lock_inv_update [OF assms(1,2), of s' "t\<lparr>task_lock := Some l\<rparr>"] Some free
      by (simp add: view_ok_def lock_view_def)
  next
    case None
    define s1 where "s1 = s\<lparr>al_locks := AList.update (task_object t) (al_next_lock s) (al_locks s),
      al_next_lock := Suc (al_next_lock s)\<rparr>"
    have s': "s' = set_task i (t\<lparr>task_lock := Some (al_next_lock s)\<rparr>) s1"
      using assms(3) None by (auto simp: enter_lock_def t_def s1_def Let_def split: if_splits)
    have "lock_inv s1"
      using lock_ok_new assms(1) None by (simp add: lock_inv_def s1_def)
    then show ?thesis
      using lock_inv_update [of s1 i s' "t\<lparr>task_lock := Some (al_next_lock s)\<rparr>"] assms(2) s' free
      by (simp add: s1_def view_ok_def lock_view_def update_conv')
  qed
qed

lemma lock_inv_take:
  assumes "lock_inv s" and "i < length (al_tasks s)" and "take_lock i s = Some s'"
  shows "lock_inv s'"
proof -
  define t where "t = al_tasks s ! i"
  obtain p l where l: "task_lock t = Some l" "lock_free l s"
    and s': "s' = set_task i (t\<lparr>task_place := p, task_holds := True\<rparr>) s"
    using assms(3) by (auto simp: take_lock_def t_def Let_def split: option.splits if_splits)
  show ?thesis
  proof (rule lock_inv_update [OF assms(1,2)])
    show "view_ok (al_locks s) (lock_view (t\<lparr>task_place := p, task_holds := True\<rparr>))"
      using view_ok_nth [OF assms(1,2)] l by (simp add: view_ok_def lock_view_def t_def)
    show "\<forall>u \<in> set (al_tasks s). task_holds u \<longrightarrow> task_lock u \<noteq> task_lock (t\<lparr>task_place := p, task_holds := True\<rparr>)"
      using l by (simp add: lock_free_def)
  qed (simp_all add: s')
qed

lemma lock_inv_drop:
  assumes "lock_inv s" and "i < length (al_tasks s)"
    and "al_locks s' = al_locks s" and "al_next_lock s' = al_next_lock s"
    and "al_tasks s' = (al_tasks s)[i := t]" and "task_object t = task_object (al_tasks s ! i)"
    and "task_lock t = None \<or> task_lock t = task_lock (al_tasks s ! i)" and "\<not> task_holds t"
  shows "lock_inv s'"
proof (rule lock_inv_update [OF assms(1-5)])
  show "view_ok (al_locks s) (lock_view t)"
    using view_ok_nth [OF assms(1,2)] assms(6-8) by (auto simp: view_ok_def lock_view_def)
qed (use assms(8) in simp)

text \<open>A count of two means that the map and this task have the only references.\<close>

lemma lock_inv_leave:
  assumes "lock_inv s" and "i < length (al_tasks s)" and "leave_lock i s = Some s'"
  shows "lock_inv s'"
proof -
  define t where "t = al_tasks s ! i"
  define t' where "t' = t\<lparr>task_lock := None\<rparr>"
  obtain l where l: "task_lock t = Some l" and free: "\<not> task_holds t"
    and s': "s' = set_task i t' (if lock_holders l s = 2 then s\<lparr>al_locks := AList.delete (task_object t) (al_locks s)\<rparr> else s)"
    using assms(3) by (auto simp: leave_lock_def t_def t'_def Let_def split: option.splits if_splits)
  have drop: "lock_inv (set_task i t' s)"
    by (rule lock_inv_drop [OF assms(1,2), of _ t']) (use free in \<open>simp_all add: t'_def t_def\<close>)
  show ?thesis
  proof (cases "lock_holders l s = 2")
    case True
    have obj: "map_of (al_locks s) (task_object t) = Some l"
      using lock_inv_tasks(1) [OF assms(1) nth_mem [OF assms(2)]] l by (simp add: t_def)
    then have "(task_object t, l) \<in> set (al_locks s)" by (rule map_of_SomeD)
    then have "tally (\<lambda>e. snd e = l) (al_locks s) \<noteq> 0"
      unfolding tally_zero_iff by (metis snd_conv)
    moreover have "tally (\<lambda>u. task_lock u = Some l) ((al_tasks s)[i := t']) + 1 = tally (\<lambda>u. task_lock u = Some l) (al_tasks s)"
      using tally_update [OF assms(2), of "\<lambda>u. task_lock u = Some l" t'] l by (simp add: t_def t'_def)
    ultimately have "tally (\<lambda>u. task_lock u = Some l) ((al_tasks s)[i := t']) = 0"
      using True by (simp add: lock_holders_def)
    then have none: "\<forall>u \<in> set ((al_tasks s)[i := t']). task_lock u \<noteq> Some l"
      by (simp only: tally_zero_iff)
    have "task_lock u = None" if "u \<in> set ((al_tasks s)[i := t'])" "task_object u = task_object t" for u
      using lock_inv_tasks(1) [OF drop, of u] that obj none by (metis not_None_eq option.inject set_task_simps(3,5))
    then have "\<forall>v \<in> set (map lock_view ((al_tasks s)[i := t'])). fst v = task_object t \<longrightarrow> fst (snd v) = None"
      by (auto simp: lock_view_def)
    then have "lock_ok (AList.delete (task_object t) (al_locks s)) (al_next_lock s) (map lock_view ((al_tasks s)[i := t']))"
      using drop unfolding lock_inv_def set_task_simps by (intro lock_ok_forget)
    then show ?thesis by (simp add: s' True lock_inv_def)
  next
    case False
    then show ?thesis using drop by (simp add: s')
  qed
qed

section \<open>The index and the file\<close>

definition LONGEST_RETRY :: int where "LONGEST_RETRY = 64000"

lemma retry_at_bound: "retry_at now failed \<le> now + LONGEST_RETRY"
proof -
  have "(2::int) ^ min failed MAX_RETRIES \<le> 2 ^ MAX_RETRIES" by (intro power_increasing) simp_all
  then show ?thesis by (simp add: retry_at_def LONGEST_RETRY_def MAX_RETRIES_def)
qed

definition sched :: "alarms \<Rightarrow> alarm_object \<Rightarrow> int option" where
  "sched s obj = map_option scheduled_at (map_of (al_index s) obj)"

definition by_then :: "int option \<Rightarrow> int \<Rightarrow> bool" where
  "by_then t a = (case t of None \<Rightarrow> False | Some t \<Rightarrow> t \<le> a)"

definition covered_at :: "alarms \<Rightarrow> alarm_object \<Rightarrow> bool" where
  "covered_at s obj =
     (case al_file s obj of
        None \<Rightarrow> True
      | Some a \<Rightarrow> obj \<in> set (al_gone s) \<or> by_then (sched s obj) (max a (al_clock s + LONGEST_RETRY)))"

fun delivery_place :: "place \<Rightarrow> bool" where
  "delivery_place Ended = False"
| "delivery_place p = (\<not> set_place p)"

definition delivery_of :: "alarm_object \<Rightarrow> alarm_task \<Rightarrow> bool" where
  "delivery_of obj t \<longleftrightarrow> task_object t = obj \<and> delivery_place (task_place t)"

definition marked_at :: "alarms \<Rightarrow> alarm_object \<Rightarrow> bool" where
  "marked_at s obj =
     (case map_of (al_index s) obj of
        None \<Rightarrow> True
      | Some row \<Rightarrow> delivering row \<longrightarrow> obj \<in> set (al_left_marked s) \<or> (\<exists>t \<in> set (al_tasks s). delivery_of obj t))"

definition later_ok :: "alarms \<Rightarrow> alarm_object \<Rightarrow> (int \<times> nat) option \<Rightarrow> bool" where
  "later_ok s obj al =
     (case al of None \<Rightarrow> obj \<in> set (al_gone s) | Some (t, _) \<Rightarrow> t \<le> al_clock s + LONGEST_RETRY)"

definition settle_ok :: "alarms \<Rightarrow> alarm_object \<Rightarrow> (int \<times> nat) option \<Rightarrow> bool" where
  "settle_ok s obj al \<longleftrightarrow> later_ok s obj al \<or> al_file s obj = map_option fst al"

fun place_ok :: "alarms \<Rightarrow> alarm_object \<Rightarrow> place \<Rightarrow> bool" where
  "place_ok s obj (Set_Lower at) = (at \<noteq> None)"
| "place_ok s obj (Set_File at) = (at = None \<or> by_then (sched s obj) (the at))"
| "place_ok s obj (Set_Follow at) = (al_file s obj = at)"
| "place_ok s obj (Dlv_Run failed at) = (at \<le> al_clock s)"
| "place_ok s obj (Dlv_Wait early al) = (if early then al_file s obj = map_option fst al else later_ok s obj al)"
| "place_ok s obj (Dlv_Settle al) = settle_ok s obj al"
| "place_ok s obj _ = True"

fun working :: "place \<Rightarrow> bool" where
  "working (Set_Lower _) = True"
| "working (Set_File _) = True"
| "working (Set_Follow _) = True"
| "working (Dlv_Current _ _ _) = True"
| "working (Dlv_Clear _ _) = True"
| "working (Dlv_Settle _) = True"
| "working _ = False"

fun early_wait :: "place \<Rightarrow> bool" where
  "early_wait (Dlv_Wait early _) = early"
| "early_wait _ = False"

definition task_ok :: "alarms \<Rightarrow> alarm_task \<Rightarrow> bool" where
  "task_ok s t \<longleftrightarrow> place_ok s (task_object t) (task_place t) \<and> (working (task_place t) \<longrightarrow> task_holds t)"

definition misread :: "alarms \<Rightarrow> bool" where
  "misread s \<longleftrightarrow> (\<exists>t \<in> set (al_tasks s). early_wait (task_place t) \<and> \<not> place_ok s (task_object t) (task_place t))"

definition alarm_inv :: "alarms \<Rightarrow> bool" where
  "alarm_inv s \<longleftrightarrow>
     lock_inv s \<and> (\<forall>t \<in> set (al_tasks s). task_ok s t) \<and> (\<forall>obj. covered_at s obj) \<and> (\<forall>obj. marked_at s obj)
     \<and> distinct (map fst (al_index s))"

lemma place_ok_frame:
  assumes "place_ok s obj p" and "al_clock s \<le> al_clock s'" and "set (al_gone s) \<subseteq> set (al_gone s')"
    and "early_wait p \<Longrightarrow> place_ok s' obj p"
    and "working p \<Longrightarrow> sched s' obj = sched s obj \<and> al_file s' obj = al_file s obj"
  shows "place_ok s' obj p"
proof -
  have later: "later_ok s obj al \<Longrightarrow> later_ok s' obj al" for al
    using assms(2,3) by (auto simp: later_ok_def split: option.splits)
  show ?thesis
    using assms later by (cases p) (auto simp: settle_ok_def)
qed

lemma task_ok_frame:
  assumes "task_ok s t" and "al_clock s \<le> al_clock s'" and "set (al_gone s) \<subseteq> set (al_gone s')"
    and "\<not> misread s'" and "t \<in> set (al_tasks s')"
    and "task_holds t \<Longrightarrow> sched s' (task_object t) = sched s (task_object t) \<and> al_file s' (task_object t) = al_file s (task_object t)"
  shows "task_ok s' t"
proof -
  have "place_ok s' (task_object t) (task_place t)"
  proof (rule place_ok_frame)
    show "place_ok s (task_object t) (task_place t)" using assms(1) by (simp add: task_ok_def)
    show "early_wait (task_place t) \<Longrightarrow> place_ok s' (task_object t) (task_place t)"
      using assms(4,5) by (auto simp: misread_def)
    show "working (task_place t) \<Longrightarrow>
        sched s' (task_object t) = sched s (task_object t) \<and> al_file s' (task_object t) = al_file s (task_object t)"
      using assms(1,6) by (simp add: task_ok_def)
  qed (use assms(2,3) in simp_all)
  then show ?thesis using assms(1) by (simp add: task_ok_def)
qed

lemma covered_at_frame:
  assumes "covered_at s obj" and "al_clock s \<le> al_clock s'" and "set (al_gone s) \<subseteq> set (al_gone s')"
    and "sched s' obj = sched s obj" and "al_file s' obj = al_file s obj"
  shows "covered_at s' obj"
  using assms by (fastforce simp: covered_at_def by_then_def split: option.splits)

text \<open>What a step of one task has to show: that it keeps to its object, and to the lock where it changes something.\<close>

lemma alarm_inv_task_step:
  assumes inv: "alarm_inv s" and i: "i < length (al_tasks s)" and obj: "obj = task_object (al_tasks s ! i)"
    and lock: "lock_inv s'" and tasks: "al_tasks s' = (al_tasks s)[i := t']" and obj': "task_object t' = obj"
    and clock: "al_clock s' = al_clock s" and gone: "set (al_gone s) \<subseteq> set (al_gone s')"
    and left: "set (al_left_marked s) \<subseteq> set (al_left_marked s')"
    and else: "\<And>o'. o' \<noteq> obj \<Longrightarrow> map_of (al_index s') o' = map_of (al_index s) o' \<and> al_file s' o' = al_file s o'"
    and own: "task_holds (al_tasks s ! i) \<or> sched s' obj = sched s obj \<and> al_file s' obj = al_file s obj"
    and ok: "task_ok s' t'" and cov: "covered_at s' obj" and mark: "marked_at s' obj"
    and keys: "distinct (map fst (al_index s'))" and calm: "\<not> misread s'"
  shows "alarm_inv s'"
proof -
  have elsched: "sched s' o' = sched s o'" if "o' \<noteq> obj" for o'
    using else [OF that] by (simp add: sched_def)
  have covs: "covered_at s o'" for o' using inv unfolding alarm_inv_def by blast
  have "task_ok s' (al_tasks s ! j)" if "j < length (al_tasks s)" "j \<noteq> i" for j
  proof (rule task_ok_frame)
    show "task_ok s (al_tasks s ! j)" using inv that(1) by (simp add: alarm_inv_def)
    show "al_tasks s ! j \<in> set (al_tasks s')"
      using that unfolding tasks by (metis length_list_update nth_list_update_neq nth_mem)
    show "sched s' (task_object (al_tasks s ! j)) = sched s (task_object (al_tasks s ! j))
        \<and> al_file s' (task_object (al_tasks s ! j)) = al_file s (task_object (al_tasks s ! j))"
      if "task_holds (al_tasks s ! j)"
      using one_holder [of s i j] own else elsched obj that \<open>j < _\<close> \<open>j \<noteq> i\<close> i inv unfolding alarm_inv_def by metis
  qed (use clock gone calm in simp_all)
  then have "\<forall>t \<in> set (al_tasks s'). task_ok s' t"
    using ok i unfolding tasks by (metis in_set_conv_nth length_list_update nth_list_update_eq nth_list_update_neq)
  moreover have "covered_at s' o'" for o'
    using cov covered_at_frame [OF covs, of s' o'] clock gone else elsched by (cases "o' = obj") simp_all
  moreover have "marked_at s' o'" for o'
  proof (cases "o' = obj")
    case False
    have "delivery_of o' t \<Longrightarrow> t \<in> set (al_tasks s) \<Longrightarrow> t \<in> set (al_tasks s')" for t
      using False obj i unfolding tasks delivery_of_def
      by (metis in_set_conv_nth length_list_update nth_list_update_neq)
    moreover have "marked_at s o'" using inv unfolding alarm_inv_def by blast
    ultimately show ?thesis
      using else [OF False] left by (auto simp: marked_at_def split: option.splits)
  qed (use mark in simp)
  ultimately show ?thesis using lock keys by (simp add: alarm_inv_def)
qed

end
