(* ===== verification/Alarm_Props.thy ===== *)
theory Alarm_Props
  imports Alarm_Inv
begin

text \<open>
  The steps of the alarms of Durable Objects keep the invariant of \<open>Alarm_Inv\<close>, as long as no file
  changes between a delivery that reads it too early and the lock that delivery then takes, and what
  happens when one does.
\<close>

section \<open>Statements on the index\<close>

lemma map_of_lower:
  "map_of (lower obj at idx) =
     (map_of idx)(obj \<mapsto> (case map_of idx obj of
        None \<Rightarrow> \<lparr>scheduled_at = at, retry_count = 0, delivering = False\<rparr>
      | Some row \<Rightarrow> row\<lparr>scheduled_at := min (scheduled_at row) at\<rparr>))"
  by (simp add: lower_def update_conv')

lemma map_of_follow:
  "map_of (follow obj None mark idx) = (map_of idx)(obj := None)"
  "map_of (follow obj (Some (at, n)) mark idx) =
     (map_of idx)(obj \<mapsto> \<lparr>scheduled_at = at, retry_count = n,
        delivering = (case map_of idx obj of None \<Rightarrow> False | Some row \<Rightarrow> delivering row \<and> mark \<noteq> End_Mark)\<rparr>)"
  by (simp_all add: follow_def update_conv' AList.delete_conv')

lemma distinct_index:
  "distinct (map fst idx) \<Longrightarrow> distinct (map fst (lower obj at idx))"
  "distinct (map fst idx) \<Longrightarrow> distinct (map fst (follow obj al mark idx))"
  by (auto simp: lower_def follow_def distinct_update distinct_delete split: option.splits)

lemma map_of_rows: "map_of (map (\<lambda>(k, r). (k, f k r)) idx) k = map_option (f k) (map_of idx k)"
  by (induction idx) auto

lemma map_of_claim:
  "map_of (fst (claim limit now idx)) obj =
     map_option (\<lambda>row. if obj \<in> due_object ` set (snd (claim limit now idx)) then row\<lparr>delivering := True\<rparr> else row) (map_of idx obj)"
proof -
  have "due_object ` set (snd (claim limit now idx)) = set (map fst (due_rows limit now idx))"
    by (force simp: claim_def Let_def image_iff)
  then show ?thesis
    by (simp add: claim_def Let_def map_of_rows [where f = "\<lambda>k r. if k \<in> _ then r\<lparr>delivering := True\<rparr> else r"])
qed

lemma keys_claim: "map fst (fst (claim limit now idx)) = map fst idx"
  by (auto simp: claim_def Let_def)

lemma map_of_unmark_all: "map_of (unmark_all idx) obj = map_option (\<lambda>row. row\<lparr>delivering := False\<rparr>) (map_of idx obj)"
  by (simp add: unmark_all_def map_of_rows [where f = "\<lambda>k r. r\<lparr>delivering := False\<rparr>"])

lemma keys_unmark_all: "map fst (unmark_all idx) = map fst idx"
  by (auto simp: unmark_all_def)

section \<open>Steps of one task\<close>

lemma place_ok_cong:
  assumes "al_index s' = al_index s" "al_file s' = al_file s" "al_clock s' = al_clock s" "al_gone s' = al_gone s"
  shows "place_ok s' obj p = place_ok s obj p"
  by (cases p) (simp_all add: assms sched_def settle_ok_def later_ok_def split: option.splits)

lemma place_ok_go [simp]: "place_ok (go i p s) obj q = place_ok s obj q"
  by (rule place_ok_cong) (simp_all add: go_def)

lemma alarm_invD:
  assumes "alarm_inv s"
  shows "lock_inv s" and "t \<in> set (al_tasks s) \<Longrightarrow> task_ok s t" and "covered_at s obj" and "marked_at s obj"
    and "distinct (map fst (al_index s))"
  using assms unfolding alarm_inv_def by blast+

lemma task_okD:
  assumes "alarm_inv s" and "i < length (al_tasks s)" and "task_place (al_tasks s ! i) = p"
  shows "place_ok s (task_object (al_tasks s ! i)) p" and "working p \<Longrightarrow> task_holds (al_tasks s ! i)"
  using alarm_invD(2) [OF assms(1) nth_mem [OF assms(2)]] assms(3) by (auto simp: task_ok_def)

lemma marked_at_step:
  assumes "marked_at s obj" and "i < length (al_tasks s)" and "al_tasks s' = (al_tasks s)[i := t']"
    and "task_object t' = task_object (al_tasks s ! i)"
    and "delivery_place (task_place (al_tasks s ! i)) \<longrightarrow> delivery_place (task_place t')"
    and "set (al_left_marked s) \<subseteq> set (al_left_marked s')"
    and "\<And>row'. map_of (al_index s') obj = Some row' \<Longrightarrow> delivering row' \<Longrightarrow>
           \<exists>row. map_of (al_index s) obj = Some row \<and> delivering row"
  shows "marked_at s' obj"
proof -
  have "\<exists>t \<in> set (al_tasks s'). delivery_of obj t" if t: "t \<in> set (al_tasks s)" "delivery_of obj t" for t
  proof -
    obtain j where j: "j < length (al_tasks s)" "t = al_tasks s ! j" using t(1) by (auto simp: in_set_conv_nth)
    then have "delivery_of obj (al_tasks s' ! j)" "j < length (al_tasks s')"
      using t(2) assms(3-5) by (cases "j = i", simp_all add: delivery_of_def)
    then show ?thesis using nth_mem by blast
  qed
  then have "obj \<in> set (al_left_marked s') \<or> (\<exists>t \<in> set (al_tasks s'). delivery_of obj t)"
    if "map_of (al_index s) obj = Some row" "delivering row" for row
    using that assms(1,6) by (auto simp: marked_at_def)
  then show ?thesis
    using assms(7) by (cases "map_of (al_index s') obj") (auto simp: marked_at_def)
qed

text \<open>A step that changes neither the index nor a file.\<close>

lemma alarm_inv_quiet:
  assumes inv: "alarm_inv s" and i: "i < length (al_tasks s)" and lock: "lock_inv s'"
    and same: "al_index s' = al_index s" "al_file s' = al_file s" "al_clock s' = al_clock s"
      "al_left_marked s' = al_left_marked s" "set (al_gone s) \<subseteq> set (al_gone s')"
    and tasks: "al_tasks s' = (al_tasks s)[i := t']" and obj: "task_object t' = task_object (al_tasks s ! i)"
    and place: "place_ok s' (task_object t') (task_place t')" "working (task_place t') \<longrightarrow> task_holds t'"
    and dlv: "delivery_place (task_place (al_tasks s ! i)) \<longrightarrow> delivery_place (task_place t')"
    and calm: "\<not> misread s'"
  shows "alarm_inv s'"
proof (rule alarm_inv_task_step [OF inv i refl lock tasks obj])
  show "covered_at s' (task_object (al_tasks s ! i))"
    by (rule covered_at_frame [OF alarm_invD(3) [OF inv]]) (use same in \<open>simp_all add: sched_def\<close>)
  show "marked_at s' (task_object (al_tasks s ! i))"
    by (rule marked_at_step [OF alarm_invD(4) [OF inv] i tasks obj dlv]) (use same in auto)
qed (use same place calm alarm_invD(5) [OF inv] in \<open>auto simp: task_ok_def sched_def\<close>)

lemma alarm_inv_go_quiet:
  assumes inv: "alarm_inv s" and i: "i < length (al_tasks s)"
    and same: "al_index s' = al_index s" "al_file s' = al_file s" "al_clock s' = al_clock s"
      "al_left_marked s' = al_left_marked s" "set (al_gone s) \<subseteq> set (al_gone s')" "al_tasks s' = al_tasks s"
      "al_locks s' = al_locks s" "al_next_lock s' = al_next_lock s"
    and place: "place_ok s' (task_object (al_tasks s ! i)) p" "working p \<longrightarrow> task_holds (al_tasks s ! i)"
    and dlv: "delivery_place (task_place (al_tasks s ! i)) \<longrightarrow> delivery_place p"
    and calm: "\<not> misread (go i p s')"
  shows "alarm_inv (go i p s')"
proof (rule alarm_inv_quiet [OF inv i])
  show "lock_inv (go i p s')" by (rule lock_inv_go [OF alarm_invD(1) [OF inv] same(7,8,6)])
  show "place_ok (go i p s') (task_object ((al_tasks s ! i)\<lparr>task_place := p\<rparr>)) (task_place ((al_tasks s ! i)\<lparr>task_place := p\<rparr>))"
    using place(1) by simp
qed (use same place dlv calm in \<open>simp_all add: go_def\<close>)

text \<open>A step of the task that has the lock, which may change the index and the file of its object.\<close>

lemma alarm_inv_go_locked:
  assumes inv: "alarm_inv s" and i: "i < length (al_tasks s)" and obj: "obj = task_object (al_tasks s ! i)"
    and holds: "task_holds (al_tasks s ! i)"
    and same: "al_clock s' = al_clock s" "al_gone s' = al_gone s" "al_tasks s' = al_tasks s"
      "al_locks s' = al_locks s" "al_next_lock s' = al_next_lock s"
      "set (al_left_marked s) \<subseteq> set (al_left_marked s')"
    and else: "\<And>o'. o' \<noteq> obj \<Longrightarrow> map_of (al_index s') o' = map_of (al_index s) o' \<and> al_file s' o' = al_file s o'"
    and place: "place_ok s' obj p" and cov: "covered_at s' obj" and mark: "marked_at (go i p s') obj"
    and keys: "distinct (map fst (al_index s'))" and calm: "\<not> misread (go i p s')"
  shows "alarm_inv (go i p s')"
proof (rule alarm_inv_task_step [OF inv i obj])
  show "lock_inv (go i p s')" by (rule lock_inv_go [OF alarm_invD(1) [OF inv] same(4,5,3)])
  show "task_ok (go i p s') ((al_tasks s ! i)\<lparr>task_place := p\<rparr>)"
    using place holds obj by (simp add: task_ok_def)
  show "map_of (al_index (go i p s')) o' = map_of (al_index s) o' \<and> al_file (go i p s') o' = al_file s o'"
    if "o' \<noteq> obj" for o'
    using else [OF that] by (simp add: go_def)
  show "covered_at (go i p s') obj" 
    by (rule covered_at_frame [OF cov]) (simp_all add: go_def sched_def)
qed (use same holds mark keys calm obj in \<open>simp_all add: go_def\<close>)

lemma marked_at_go:
  assumes "marked_at s obj" and "i < length (al_tasks s)" and "al_tasks s' = al_tasks s"
    and "delivery_place (task_place (al_tasks s ! i)) \<longrightarrow> delivery_place p"
    and "set (al_left_marked s) \<subseteq> set (al_left_marked s')"
    and "\<And>row'. map_of (al_index s') obj = Some row' \<Longrightarrow> delivering row' \<Longrightarrow>
           \<exists>row. map_of (al_index s) obj = Some row \<and> delivering row"
  shows "marked_at (go i p s') obj"
  by (rule marked_at_step [OF assms(1,2), of _ "(al_tasks s ! i)\<lparr>task_place := p\<rparr>"])
     (use assms(3-6) in \<open>simp_all add: go_def\<close>)

section \<open>The lock\<close>

lemma alarm_inv_enter:
  assumes "alarm_inv s" and "i < length (al_tasks s)" and "enter_lock i s = Some s'" and "\<not> misread s'"
  shows "alarm_inv s'"
proof -
  define t where "t = al_tasks s ! i"
  obtain l where same: "al_index s' = al_index s" "al_file s' = al_file s" "al_clock s' = al_clock s"
      "al_left_marked s' = al_left_marked s" "al_gone s' = al_gone s"
    and tasks: "al_tasks s' = (al_tasks s)[i := t\<lparr>task_lock := l\<rparr>]"
    using assms(3) by (auto simp: enter_lock_def t_def Let_def split: if_splits option.splits)
  have "place_ok s' (task_object t) (task_place t)"
  proof (rule place_ok_frame)
    show "place_ok s (task_object t) (task_place t)" using task_okD [OF assms(1,2) refl] by (simp add: t_def)
    have "t\<lparr>task_lock := l\<rparr> \<in> set (al_tasks s')" using assms(2) by (simp add: tasks set_update_memI)
    then show "early_wait (task_place t) \<Longrightarrow> place_ok s' (task_object t) (task_place t)"
      using assms(4) by (force simp: misread_def)
  qed (use same in \<open>simp_all add: sched_def\<close>)
  moreover have "lock_inv s'" by (rule lock_inv_enter [OF alarm_invD(1) [OF assms(1)] assms(2,3)])
  ultimately show ?thesis
    using alarm_inv_quiet [OF assms(1,2) _ same(1-4) _ tasks] task_okD(2) [OF assms(1,2) refl] assms(4) same(5)
    by (simp add: t_def)
qed

lemma locking_place:
  assumes "locking p = Some q" and "place_ok s obj p"
  shows "place_ok s obj q" and "delivery_place p \<longrightarrow> delivery_place q"
  using assms by (cases p; auto simp: settle_ok_def split: if_splits)+

lemma alarm_inv_take:
  assumes "alarm_inv s" and "i < length (al_tasks s)" and "take_lock i s = Some s'" and "\<not> misread s'"
  shows "alarm_inv s'"
proof -
  define t where "t = al_tasks s ! i"
  obtain p where p: "locking (task_place t) = Some p"
    and s': "s' = set_task i (t\<lparr>task_place := p, task_holds := True\<rparr>) s"
    using assms(3) by (auto simp: take_lock_def t_def Let_def split: option.splits if_splits)
  note q = locking_place [OF p, of s "task_object t"]
  have "place_ok s' (task_object t) p = place_ok s (task_object t) p"
    by (rule place_ok_cong) (simp_all add: s')
  moreover have "lock_inv s'" by (rule lock_inv_take [OF alarm_invD(1) [OF assms(1)] assms(2,3)])
  ultimately show ?thesis
    using alarm_inv_quiet [OF assms(1,2), of s' "t\<lparr>task_place := p, task_holds := True\<rparr>"] q
      task_okD(1) [OF assms(1,2) refl] assms(4) by (simp add: s' t_def)
qed

lemma alarm_inv_ended:
  assumes "alarm_inv s" and "i < length (al_tasks s)" and "task_place (al_tasks s ! i) = Ended"
    and "lock_inv s'" and "al_index s' = al_index s" "al_file s' = al_file s" "al_clock s' = al_clock s"
      "al_left_marked s' = al_left_marked s" "al_gone s' = al_gone s"
    and "al_tasks s' = (al_tasks s)[i := t']" and "task_object t' = task_object (al_tasks s ! i)" and "task_place t' = Ended"
    and "\<not> misread s'"
  shows "alarm_inv s'"
  using alarm_inv_quiet [OF assms(1,2,4-8) _ assms(10,11)] assms(3,9,12,13) by simp

lemma alarm_inv_unlock:
  assumes "alarm_inv s" and "i < length (al_tasks s)" and "drop_lock i s = Some s' \<or> leave_lock i s = Some s'"
    and "\<not> misread s'"
  shows "alarm_inv s'"
  using assms(3)
proof
  assume d: "drop_lock i s = Some s'"
  define t' where "t' = (al_tasks s ! i)\<lparr>task_holds := False\<rparr>"
  have "task_place (al_tasks s ! i) = Ended" and s': "s' = set_task i t' s"
    using d by (auto simp: drop_lock_def t'_def Let_def split: if_splits)
  moreover have "lock_inv s'"
    by (rule lock_inv_drop [OF alarm_invD(1) [OF assms(1)] assms(2), of _ t']) (simp_all add: s' t'_def)
  ultimately show ?thesis
    using alarm_inv_ended [OF assms(1,2), of s' t'] assms(4) by (simp add: t'_def)
next
  assume l: "leave_lock i s = Some s'"
  then have "task_place (al_tasks s ! i) = Ended"
    and "al_index s' = al_index s" "al_file s' = al_file s" "al_clock s' = al_clock s"
      "al_left_marked s' = al_left_marked s" "al_gone s' = al_gone s"
      "al_tasks s' = (al_tasks s)[i := (al_tasks s ! i)\<lparr>task_lock := None\<rparr>]"
    by (auto simp: leave_lock_def Let_def split: if_splits option.splits)
  then show ?thesis
    using alarm_inv_ended [OF assms(1,2)] lock_inv_leave [OF alarm_invD(1) [OF assms(1)] assms(2) l] assms(4) by simp
qed

section \<open>Setting an alarm\<close>

lemma sched_simps:
  "sched (s\<lparr>al_index := lower obj at (al_index s)\<rparr>) obj =
     Some (case sched s obj of None \<Rightarrow> at | Some t \<Rightarrow> min t at)"
  "sched (s\<lparr>al_index := follow obj None mark (al_index s)\<rparr>) obj = None"
  "sched (s\<lparr>al_index := follow obj (Some (at, n)) mark (al_index s)\<rparr>) obj = Some at"
  by (auto simp: sched_def map_of_lower map_of_follow split: option.splits)

lemma alarm_inv_lower:
  assumes inv: "alarm_inv s" and i: "i < length (al_tasks s)" and place: "task_place (al_tasks s ! i) = Set_Lower (Some at)"
    and calm: "\<not> misread (go i (Set_File (Some at)) (s\<lparr>al_index := lower (task_object (al_tasks s ! i)) at (al_index s)\<rparr>))"
  shows "alarm_inv (go i (Set_File (Some at)) (s\<lparr>al_index := lower (task_object (al_tasks s ! i)) at (al_index s)\<rparr>))"
proof -
  define obj where "obj = task_object (al_tasks s ! i)"
  define s' where "s' = s\<lparr>al_index := lower obj at (al_index s)\<rparr>"
  have sched: "sched s' obj = Some (case sched s obj of None \<Rightarrow> at | Some t \<Rightarrow> min t at)"
    unfolding s'_def by (rule sched_simps)
  have "alarm_inv (go i (Set_File (Some at)) s')"
  proof (rule alarm_inv_go_locked [OF inv i obj_def])
    show "place_ok s' obj (Set_File (Some at))"
      by (auto simp: sched by_then_def split: option.splits)
    have "al_file s' = al_file s" "al_clock s' = al_clock s" "al_gone s' = al_gone s" by (simp_all add: s'_def)
    then show "covered_at s' obj"
      using alarm_invD(3) [OF inv, of obj]
      by (auto simp: covered_at_def sched by_then_def split: option.splits)
    show "marked_at (go i (Set_File (Some at)) s') obj"
      by (rule marked_at_go [OF alarm_invD(4) [OF inv] i])
         (auto simp: s'_def place map_of_lower split: option.splits)
  qed (use task_okD(2) [OF inv i place] calm distinct_index(1) [OF alarm_invD(5) [OF inv]]
       in \<open>simp_all add: s'_def obj_def map_of_lower\<close>)
  then show ?thesis by (simp add: s'_def obj_def)
qed

lemma covered_set_file:
  assumes "alarm_inv s" and "at = None \<or> by_then (sched s obj) (the at) \<or> al_file s obj = at"
  shows "covered_at (set_file obj at s) obj"
  using assms(2) alarm_invD(3) [OF assms(1), of obj]
  by (auto simp: covered_at_def by_then_def sched_def split: option.splits)

lemma alarm_inv_file:
  assumes inv: "alarm_inv s" and i: "i < length (al_tasks s)" and obj: "obj = task_object (al_tasks s ! i)"
    and holds: "task_holds (al_tasks s ! i)" and at: "at = None \<or> by_then (sched s obj) (the at) \<or> al_file s obj = at"
    and place: "place_ok (set_file obj at s) obj p"
    and dlv: "delivery_place (task_place (al_tasks s ! i)) \<longrightarrow> delivery_place p"
    and calm: "\<not> misread (go i p (set_file obj at s))"
  shows "alarm_inv (go i p (set_file obj at s))"
proof (rule alarm_inv_go_locked [OF inv i obj holds])
  show "covered_at (set_file obj at s) obj" by (rule covered_set_file [OF inv at])
  show "marked_at (go i p (set_file obj at s)) obj"
    by (rule marked_at_go [OF alarm_invD(4) [OF inv] i]) (use dlv in simp_all)
qed (use place calm alarm_invD(5) [OF inv] in simp_all)

lemma alarm_inv_follow:
  assumes inv: "alarm_inv s" and i: "i < length (al_tasks s)" and obj: "obj = task_object (al_tasks s ! i)"
    and holds: "task_holds (al_tasks s ! i)" and al: "settle_ok s obj al"
    and mark: "mark = End_Mark \<or> set_place (task_place (al_tasks s ! i))"
    and calm: "\<not> misread (go i Ended (s\<lparr>al_index := follow obj al mark (al_index s)\<rparr>))"
  shows "alarm_inv (go i Ended (s\<lparr>al_index := follow obj al mark (al_index s)\<rparr>))"
proof (rule alarm_inv_go_locked [OF inv i obj holds])
  show "covered_at (s\<lparr>al_index := follow obj al mark (al_index s)\<rparr>) obj"
  proof (cases al)
    case None
    then show ?thesis using al by (auto simp: settle_ok_def later_ok_def covered_at_def split: option.splits)
  next
    case (Some a)
    then show ?thesis
      using al by (cases a) (auto simp: settle_ok_def later_ok_def covered_at_def sched_simps by_then_def split: option.splits)
  qed
  show "marked_at (go i Ended (s\<lparr>al_index := follow obj al mark (al_index s)\<rparr>)) obj"
  proof (cases "mark = End_Mark")
    case True
    then show ?thesis
      by (cases al) (auto simp: marked_at_def go_def map_of_follow split: option.splits)
  next
    case False
    then have "\<not> delivery_place (task_place (al_tasks s ! i))"
      using mark by (cases "task_place (al_tasks s ! i)") auto
    then show ?thesis
      by (intro marked_at_go [OF alarm_invD(4) [OF inv] i])
         (auto simp: follow_def update_conv' AList.delete_conv' split: option.splits if_splits)
  qed
  show "distinct (map fst (al_index (s\<lparr>al_index := follow obj al mark (al_index s)\<rparr>)))"
    using distinct_index(2) [OF alarm_invD(5) [OF inv]] by simp
qed (use calm in \<open>auto simp: follow_def update_conv' AList.delete_conv' split: option.splits\<close>)

lemma alarm_inv_end_set:
  assumes "alarm_inv s" and "i < length (al_tasks s)" and "set_place (task_place (al_tasks s ! i))"
    and "\<not> misread (go i Ended s)"
  shows "alarm_inv (go i Ended s)"
proof -
  have "\<not> delivery_place (task_place (al_tasks s ! i))"
    using assms(3) by (cases "task_place (al_tasks s ! i)") auto
  then show ?thesis by (intro alarm_inv_go_quiet [OF assms(1,2)]) (use assms(4) in simp_all)
qed

lemma alarm_inv_set_step:
  assumes inv: "alarm_inv s" and i: "i < length (al_tasks s)" and step: "set_step i ok changed s = Some s'"
    and calm: "\<not> misread s'"
  shows "alarm_inv s'"
proof (cases "task_place (al_tasks s ! i)")
  case (Set_Lower at)
  then show ?thesis
    using step calm alarm_inv_end_set [OF inv i] alarm_inv_lower [OF inv i] task_okD(1) [OF inv i Set_Lower]
    by (auto simp: set_step_def Let_def split: if_splits)
next
  case (Set_File at)
  note holds = task_okD(2) [OF inv i Set_File, simplified]
  have at: "at = None \<or> by_then (sched s (task_object (al_tasks s ! i))) (the at)"
    using task_okD(1) [OF inv i Set_File] by simp
  show ?thesis
    using step calm Set_File alarm_inv_end_set [OF inv i] alarm_inv_file [OF inv i refl holds] at
    by (auto simp: set_step_def Let_def split: if_splits)
next
  case (Set_Follow at)
  note holds = task_okD(2) [OF inv i Set_Follow, simplified]
  have "settle_ok s (task_object (al_tasks s ! i)) (map_option (\<lambda>a. (a, 0)) at)"
    using task_okD(1) [OF inv i Set_Follow] by (simp add: settle_ok_def option.map_comp comp_def option.map_ident)
  then show ?thesis
    using step calm Set_Follow alarm_inv_end_set [OF inv i] alarm_inv_follow [OF inv i refl holds]
    by (auto simp: set_step_def Let_def split: if_splits)
qed (use step in \<open>simp_all add: set_step_def Let_def\<close>)

lemma drop_set_unlocks:
  assumes "alarm_inv s" and "i < length (al_tasks s)" and "drop_set i changed s = Some s'"
  shows "lock_inv s'"
proof -
  obtain s1 where "s' = set_task i ((al_tasks s ! i)\<lparr>task_place := Ended, task_lock := None, task_holds := False\<rparr>) s1"
    "al_tasks s1 = al_tasks s" "al_locks s1 = al_locks s" "al_next_lock s1 = al_next_lock s"
    using assms(3) by (auto simp: drop_set_def Let_def split: if_splits place.splits)
  then show ?thesis
    using lock_inv_drop [OF alarm_invD(1) [OF assms(1)] assms(2)] by simp
qed

lemma alarm_inv_drop_set:
  assumes inv: "alarm_inv s" and i: "i < length (al_tasks s)" and step: "drop_set i changed s = Some s'"
    and calm: "\<not> misread s'"
  shows "alarm_inv s'"
proof -
  define t where "t = al_tasks s ! i"
  define t' where "t' = t\<lparr>task_place := Ended, task_lock := None, task_holds := False\<rparr>"
  have set: "set_place (task_place t)" using step by (auto simp: drop_set_def t_def Let_def split: if_splits)
  then have dlv: "\<not> delivery_place (task_place t)" by (cases "task_place t") auto
  show ?thesis
  proof (cases "changed \<and> (\<exists>at. task_place t = Set_File at)")
    case True
    then obtain at where at: "task_place (al_tasks s ! i) = Set_File at" by (auto simp: t_def)
    then have s': "s' = set_task i t' (set_file (task_object t) at s)"
      using step True by (simp add: drop_set_def t_def t'_def Let_def)
    have "covered_at (set_file (task_object t) at s) (task_object t)"
      using covered_set_file [OF inv, of at "task_object t"] task_okD(1) [OF inv i at] by (auto simp: t_def)
    then have "covered_at s' (task_object t)"
      by (rule covered_at_frame) (simp_all add: s' sched_def)
    moreover have "marked_at s' (task_object t)"
      by (rule marked_at_step [OF alarm_invD(4) [OF inv] i, of _ t']) (use dlv in \<open>simp_all add: s' t'_def t_def\<close>)
    ultimately show ?thesis
      using alarm_inv_task_step [OF inv i refl drop_set_unlocks [OF inv i step], of t'] task_okD(2) [OF inv i at]
        calm alarm_invD(5) [OF inv] by (simp add: s' t'_def t_def task_ok_def)
  next
    case False
    then have "s' = set_task i t' s"
      using step set by (auto simp: drop_set_def t_def t'_def Let_def split: if_splits place.splits)
    then show ?thesis
      using alarm_inv_quiet [OF inv i drop_set_unlocks [OF inv i step], of t'] dlv calm by (simp add: t'_def t_def)
  qed
qed

section \<open>Delivering an alarm\<close>

lemma later_ok_now: "later_ok s obj (Some (retry_at (al_clock s) n, m))"
  by (simp add: later_ok_def retry_at_bound)

lemma alarm_inv_settle_later:
  assumes "alarm_inv s" and "i < length (al_tasks s)" and "\<not> misread (go i (settle_later s n) s)"
  shows "alarm_inv (go i (settle_later s n) s)"
  unfolding settle_later_def
  by (rule alarm_inv_go_quiet [OF assms(1,2)])
     (use later_ok_now assms(3) in \<open>simp_all add: settle_later_def\<close>)

lemma alarm_inv_deliver_start:
  assumes "alarm_inv s" and "i < length (al_tasks s)" and "deliver_start i ans s = Some s'" and "\<not> misread s'"
  shows "alarm_inv s'"
proof -
  obtain n where place: "task_place (al_tasks s ! i) = Dlv_Start n"
    using assms(3) by (auto simp: deliver_start_def Let_def split: place.splits)
  show ?thesis
  proof (cases ans)
    case Ns_Unknown
    then show ?thesis
      using assms(3,4) place alarm_inv_settle_later [OF assms(1,2)] by (auto simp: deliver_start_def)
  next
    case Ns_Deleted
    then show ?thesis
      using assms(3,4) place
      by (auto simp: deliver_start_def later_ok_def intro!: alarm_inv_go_quiet [OF assms(1,2)])
  next
    case Ns_Found
    then show ?thesis
      using assms(3,4) place by (auto simp: deliver_start_def intro!: alarm_inv_go_quiet [OF assms(1,2)])
  qed
qed

lemma alarm_inv_deliver_read:
  assumes "alarm_inv s" and "i < length (al_tasks s)" and "deliver_read i ok s = Some s'" and "\<not> misread s'"
  shows "alarm_inv s'"
proof -
  obtain n where place: "task_place (al_tasks s ! i) = Dlv_Read n"
    using assms(3) by (auto simp: deliver_read_def Let_def split: place.splits)
  show ?thesis
  proof (cases ok)
    case True
    then show ?thesis
      using assms(3,4) place
      by (auto simp: deliver_read_def Let_def split: option.splits if_splits intro!: alarm_inv_go_quiet [OF assms(1,2)])
  next
    case False
    then show ?thesis
      using assms(3,4) place alarm_inv_settle_later [OF assms(1,2)] by (auto simp: deliver_read_def)
  qed
qed

lemma alarm_inv_deliver_run:
  assumes "alarm_inv s" and "i < length (al_tasks s)" and "deliver_run i out s = Some s'" and "\<not> misread s'"
  shows "alarm_inv s'"
proof -
  obtain n at where place: "task_place (al_tasks s ! i) = Dlv_Run n at"
    using assms(3) by (auto simp: deliver_run_def split: place.splits)
  show ?thesis
  proof (cases out)
    case Ran_Refused
    then show ?thesis
      using assms(3,4) place alarm_inv_settle_later [OF assms(1,2)] by (auto simp: deliver_run_def)
  qed (use assms(3,4) place in \<open>auto simp: deliver_run_def intro!: alarm_inv_go_quiet [OF assms(1,2)]\<close>)
qed

lemma next_alarm_ok:
  assumes "next_alarm at current failed (al_clock s) = Keep a n"
    and "current = al_file s obj \<or> current = Some at"
  shows "settle_ok s obj (Some (a, n))"
  using assms later_ok_now [of s obj]
  by (auto simp: next_alarm_def settle_ok_def split: option.splits if_splits)

lemma alarm_inv_deliver_current:
  assumes "alarm_inv s" and "i < length (al_tasks s)" and "deliver_current i ok s = Some s'" and "\<not> misread s'"
  shows "alarm_inv s'"
proof -
  obtain n at bad where place: "task_place (al_tasks s ! i) = Dlv_Current n at bad"
    using assms(3) by (auto simp: deliver_current_def Let_def split: place.splits)
  define current where "current = (if ok then al_file s (task_object (al_tasks s ! i)) else Some at)"
  define nxt where "nxt = next_alarm at current (if bad then Some (n + 1) else None) (al_clock s)"
  have s': "s' = (case nxt of Keep a m \<Rightarrow> go i (Dlv_Settle (Some (a, m))) s | Clear \<Rightarrow> go i (Dlv_Clear n at) s)"
    using assms(3) place by (simp add: deliver_current_def Let_def current_def nxt_def)
  have "settle_ok s (task_object (al_tasks s ! i)) (Some (a, m))" if "nxt = Keep a m" for a m
    by (rule next_alarm_ok [OF that [unfolded nxt_def]]) (simp add: current_def)
  then show ?thesis
    using s' assms(4) place task_okD(2) [OF assms(1,2) place]
    by (cases nxt) (auto intro!: alarm_inv_go_quiet [OF assms(1,2)])
qed

lemma alarm_inv_deliver_clear:
  assumes "alarm_inv s" and "i < length (al_tasks s)" and "deliver_clear i ok changed s = Some s'" and "\<not> misread s'"
  shows "alarm_inv s'"
proof -
  obtain n at where place: "task_place (al_tasks s ! i) = Dlv_Clear n at"
    using assms(3) by (auto simp: deliver_clear_def Let_def split: place.splits)
  define obj where "obj = task_object (al_tasks s ! i)"
  define remaining where "remaining = (if al_file s obj = Some at then None else al_file s obj)"
  have rem: "remaining = None \<or> by_then (sched s obj) (the remaining) \<or> al_file s obj = remaining"
    by (simp add: remaining_def)
  note by_file = alarm_inv_file [OF assms(1,2) obj_def task_okD(2) [OF assms(1,2) place, simplified] rem]
  have "deliver_clear i ok changed s =
      Some (if ok then go i (Dlv_Settle (map_option (\<lambda>a. (a, 0)) remaining)) (set_file obj remaining s)
        else go i (Dlv_Settle (Some (retry_at (al_clock s) n, n))) (if changed then set_file obj remaining s else s))"
    using place by (simp add: deliver_clear_def Let_def obj_def remaining_def)
  then have s': "s' = (if ok then go i (Dlv_Settle (map_option (\<lambda>a. (a, 0)) remaining)) (set_file obj remaining s)
      else go i (Dlv_Settle (Some (retry_at (al_clock s) n, n))) (if changed then set_file obj remaining s else s))"
    using assms(3) by (simp only: option.inject)
  have later: "later_ok (set_file obj remaining s) obj (Some (retry_at (al_clock s) n, n))"
    using later_ok_now [of "set_file obj remaining s" obj n n] by simp
  show ?thesis
  proof (cases "ok \<or> changed")
    case True
    then show ?thesis
      using assms(4) place by_file later unfolding s'
      by (auto simp: settle_ok_def option.map_comp comp_def option.map_ident split: if_splits)
  next
    case False
    then show ?thesis
      using assms(4) place later_ok_now [of s obj n n] task_okD(2) [OF assms(1,2) place] unfolding s'
      by (auto simp: settle_ok_def obj_def intro!: alarm_inv_go_quiet [OF assms(1,2)])
  qed
qed

lemma alarm_inv_deliver_settle:
  assumes "alarm_inv s" and "i < length (al_tasks s)" and "deliver_settle i ok s = Some s'" and "\<not> misread s'"
  shows "alarm_inv s'"
proof -
  obtain al where place: "task_place (al_tasks s ! i) = Dlv_Settle al"
    using assms(3) by (auto simp: deliver_settle_def Let_def split: place.splits)
  define obj where "obj = task_object (al_tasks s ! i)"
  note holds = task_okD(2) [OF assms(1,2) place, simplified]
  show ?thesis
  proof (cases ok)
    case True
    then have s': "s' = go i Ended (s\<lparr>al_index := follow obj al End_Mark (al_index s)\<rparr>)"
      using assms(3) place by (simp add: deliver_settle_def obj_def Let_def)
    have "settle_ok s obj al" using task_okD(1) [OF assms(1,2) place] by (simp add: obj_def)
    then show ?thesis
      using alarm_inv_follow [OF assms(1,2) obj_def holds] assms(4) by (simp add: s')
  next
    case False
    define s1 where "s1 = s\<lparr>al_left_marked := obj # al_left_marked s\<rparr>"
    have s': "s' = go i Ended s1"
      using assms(3) place False by (simp add: deliver_settle_def obj_def s1_def Let_def)
    have "covered_at s1 obj"
      by (rule covered_at_frame [OF alarm_invD(3) [OF assms(1)]]) (simp_all add: s1_def sched_def)
    moreover have "marked_at (go i Ended s1) obj"
      by (simp add: marked_at_def s1_def go_def split: option.splits)
    ultimately show ?thesis
      using assms(4) alarm_invD(5) [OF assms(1)] unfolding s'
      by (intro alarm_inv_go_locked [OF assms(1,2) obj_def holds]) (auto simp: s1_def)
  qed
qed

section \<open>Steps of the runner\<close>

lemma alarm_inv_spawn:
  assumes inv: "alarm_inv s" and calm: "\<not> misread s'"
    and same: "al_file s' = al_file s" "al_clock s' = al_clock s" "al_left_marked s' = al_left_marked s"
      "al_gone s' = al_gone s" "al_locks s' = al_locks s" "al_next_lock s' = al_next_lock s"
    and tasks: "al_tasks s' = al_tasks s @ ts"
    and new: "\<And>t. t \<in> set ts \<Longrightarrow> task_lock t = None \<and> \<not> task_holds t \<and> (\<exists>p. task_place t = Set_Wait p \<or> (\<exists>n. task_place t = Dlv_Start n))"
    and sched: "\<And>obj. sched s' obj = sched s obj" and keys: "map fst (al_index s') = map fst (al_index s)"
    and mark: "\<And>obj row. map_of (al_index s') obj = Some row \<Longrightarrow> delivering row \<Longrightarrow>
      (\<exists>row. map_of (al_index s) obj = Some row \<and> delivering row) \<or> (\<exists>t \<in> set ts. delivery_of obj t)"
  shows "alarm_inv s'"
proof -
  have "lock_inv s'"
    using alarm_invD(1) [OF inv] lock_ok_append [of _ _ _ "map lock_view ts"] new
    by (auto simp: lock_inv_def same tasks lock_view_def)
  moreover have "task_ok s' t" if "t \<in> set (al_tasks s')" for t
  proof (cases "t \<in> set (al_tasks s)")
    case True
    then show ?thesis
      using task_ok_frame [OF alarm_invD(2) [OF inv True], of s'] same sched calm that by simp
  next
    case False
    then have "t \<in> set ts" using that tasks by simp
    then show ?thesis using new by (fastforce simp: task_ok_def)
  qed
  moreover have "covered_at s' obj" for obj
    by (rule covered_at_frame [OF alarm_invD(3) [OF inv]]) (use same sched in simp_all)
  moreover have "marked_at s' obj" for obj
    using mark [of obj] alarm_invD(4) [OF inv, of obj] same(3) tasks
    by (cases "map_of (al_index s') obj") (auto simp: marked_at_def)
  ultimately show ?thesis using alarm_invD(5) [OF inv] keys unfolding alarm_inv_def by auto
qed

lemma alarm_inv_call_set:
  assumes "alarm_inv s" and "\<not> misread (call_set obj at s)"
  shows "alarm_inv (call_set obj at s)"
  by (rule alarm_inv_spawn [OF assms]) (auto simp: call_set_def sched_def)

lemma alarm_inv_loop_claim:
  assumes "alarm_inv s" and "loop_claim s = Some s'" and "\<not> misread s'"
  shows "alarm_inv s'"
proof -
  define c where "c = claim BATCH (al_clock s) (al_index s)"
  have s': "s' = s\<lparr>al_index := fst c, al_tasks := al_tasks s @ map spawn_delivery (snd c)\<rparr>"
    using assms(2) by (auto simp: loop_claim_def c_def split: if_splits prod.splits)
  have row: "map_of (fst c) obj =
      map_option (\<lambda>row. if obj \<in> due_object ` set (snd c) then row\<lparr>delivering := True\<rparr> else row) (map_of (al_index s) obj)" for obj
    unfolding c_def by (rule map_of_claim)
  show ?thesis
  proof (rule alarm_inv_spawn [OF assms(1,3)])
    show "sched s' obj = sched s obj" for obj
      by (cases "map_of (al_index s) obj") (simp_all add: s' sched_def row)
    show "(\<exists>row. map_of (al_index s) obj = Some row \<and> delivering row)
        \<or> (\<exists>t \<in> set (map spawn_delivery (snd c)). delivery_of obj t)"
      if "map_of (al_index s') obj = Some row" "delivering row" for obj row
      using that by (auto simp: s' row delivery_of_def spawn_delivery_def split: if_splits)
  qed (auto simp: s' spawn_delivery_def c_def keys_claim)
qed

lemma alarm_inv_time:
  assumes "alarm_inv s" and "\<not> misread (s\<lparr>al_clock := al_clock s + int n\<rparr>)"
  shows "alarm_inv (s\<lparr>al_clock := al_clock s + int n\<rparr>)"
proof -
  let ?s = "s\<lparr>al_clock := al_clock s + int n\<rparr>"
  have "lock_inv ?s" using alarm_invD(1) [OF assms(1)] by (simp add: lock_inv_def)
  moreover have "task_ok ?s t" if "t \<in> set (al_tasks s)" for t
    by (rule task_ok_frame [OF alarm_invD(2) [OF assms(1) that]]) (use assms(2) that in \<open>simp_all add: sched_def\<close>)
  moreover have "covered_at ?s obj" for obj
    by (rule covered_at_frame [OF alarm_invD(3) [OF assms(1)]]) (simp_all add: sched_def)
  moreover have "marked_at ?s obj" for obj
    using alarm_invD(4) [OF assms(1), of obj] by (simp add: marked_at_def split: option.splits)
  ultimately show ?thesis using alarm_invD(5) [OF assms(1)] unfolding alarm_inv_def by auto
qed

lemma alarm_inv_start_loop:
  assumes "alarm_inv s" and "\<not> misread (start_loop ok s)"
  shows "alarm_inv (start_loop ok s)"
proof (cases ok)
  case True
  let ?s = "start_loop ok s"
  have row: "map_of (al_index ?s) obj = map_option (\<lambda>row. row\<lparr>delivering := False\<rparr>) (map_of (al_index s) obj)" for obj
    by (simp add: start_loop_def True map_of_unmark_all)
  have sched: "sched ?s obj = sched s obj" for obj
    by (cases "map_of (al_index s) obj") (simp_all add: sched_def row)
  have same: "al_file ?s = al_file s" "al_clock ?s = al_clock s" "al_gone ?s = al_gone s" "al_tasks ?s = al_tasks s"
    by (simp_all add: start_loop_def)
  have "lock_inv ?s" using alarm_invD(1) [OF assms(1)] by (simp add: lock_inv_def start_loop_def)
  moreover have "task_ok ?s t" if "t \<in> set (al_tasks ?s)" for t
    using task_ok_frame [OF alarm_invD(2) [OF assms(1), of t], of ?s] that assms(2) same sched by simp
  moreover have "covered_at ?s obj" for obj
    by (rule covered_at_frame [OF alarm_invD(3) [OF assms(1)]]) (use same sched in simp_all)
  moreover have "marked_at ?s obj" for obj
    unfolding marked_at_def row by (simp split: option.splits)
  moreover have "distinct (map fst (al_index ?s))"
    using alarm_invD(5) [OF assms(1)] by (simp add: start_loop_def True keys_unmark_all)
  ultimately show ?thesis unfolding alarm_inv_def by blast
next
  case False
  then show ?thesis using assms(1) by (simp add: start_loop_def)
qed

lemma alarm_inv_runner_stops:
  assumes "alarm_inv s"
  shows "alarm_inv (runner_stops s)"
proof -
  have "lock_inv (runner_stops s)"
    by (simp add: lock_inv_def lock_ok_def map_ok_def holders_ok_def runner_stops_def)
  moreover have "covered_at (runner_stops s) obj" for obj
    by (rule covered_at_frame [OF alarm_invD(3) [OF assms]]) (simp_all add: runner_stops_def sched_def)
  moreover have "marked_at (runner_stops s) obj" for obj
  proof (cases "map_of (al_index s) obj")
    case (Some row)
    then have "obj \<in> fst ` set (al_index s)" by (metis domI dom_map_of_conv_image_fst)
    then show ?thesis by (simp add: marked_at_def runner_stops_def Some)
  qed (simp add: marked_at_def runner_stops_def)
  ultimately show ?thesis
    using alarm_invD(5) [OF assms] unfolding alarm_inv_def by (auto simp: runner_stops_def)
qed

section \<open>The machine without a misread file\<close>

text \<open>
  A state is a misread when a delivery that found the file too early, and waits for the lock to put that
  into the index, no longer has what the file says. A calm step does not lead there.
\<close>

definition calm_step :: "alarms \<Rightarrow> alarm_event \<Rightarrow> alarms option" where
  "calm_step s e = (case alarm_step s e of None \<Rightarrow> None | Some s' \<Rightarrow> if misread s' then None else Some s')"

lemma calm_step_Some: "calm_step s e = Some s' \<longleftrightarrow> alarm_step s e = Some s' \<and> \<not> misread s'"
  by (auto simp: calm_step_def split: option.splits if_splits)

lemma on_task_Some: "on_task i f s = Some s' \<longleftrightarrow> i < length (al_tasks s) \<and> f s = Some s'"
  by (auto simp: on_task_def)

lemma alarm_inv_calm_step:
  assumes "alarm_inv s" and "calm_step s e = Some s'"
  shows "alarm_inv s'"
  using assms
proof (cases e)
  case (Start_Loop ok)
  then show ?thesis using assms alarm_inv_start_loop by (auto simp: calm_step_Some split: if_splits)
qed (auto simp: calm_step_Some on_task_Some
      intro: alarm_inv_call_set alarm_inv_enter alarm_inv_take alarm_inv_unlock alarm_inv_set_step alarm_inv_drop_set
        alarm_inv_loop_claim alarm_inv_deliver_start alarm_inv_deliver_read alarm_inv_deliver_run
        alarm_inv_deliver_current alarm_inv_deliver_clear alarm_inv_deliver_settle alarm_inv_time alarm_inv_runner_stops)

lemma alarm_inv_start: "alarm_inv (alarms_start now)"
  by (simp add: alarm_inv_def alarms_start_def lock_inv_def lock_ok_def map_ok_def holders_ok_def covered_at_def marked_at_def)

interpretation alarm_machine: step_invariant calm_step "\<lambda>s. \<exists>now. s = alarms_start now" alarm_inv
  by unfold_locales (auto intro: alarm_inv_start alarm_inv_calm_step)

lemma claim_takes_due:
  assumes "map_of idx obj = Some row" and "is_due now (obj, row)" and "length (filter (is_due now) idx) \<le> limit"
  shows "\<exists>d \<in> set (snd (claim limit now idx)). due_object d = obj"
proof -
  have "(obj, row) \<in> set (due_rows limit now idx)"
    using map_of_SomeD [OF assms(1)] assms(2,3) by (simp add: due_rows_def)
  then show ?thesis by (force simp: claim_def Let_def)
qed

lemma delivery_after_claim:
  assumes "al_looping s" and "map_of (al_index s) obj = Some row" and "scheduled_at row \<le> al_clock s + int n"
    and "length (filter (is_due (al_clock s + int n)) (al_index s)) \<le> BATCH"
    and "delivering row \<longrightarrow> (\<exists>t \<in> set (al_tasks s). delivery_of obj t)"
  shows "\<exists>s'. runs alarm_step s [Time_Passes n, Loop_Claim] = Some s' \<and> (\<exists>t \<in> set (al_tasks s'). delivery_of obj t)"
proof -
  define c where "c = claim BATCH (al_clock s + int n) (al_index s)"
  have "runs alarm_step s [Time_Passes n, Loop_Claim] =
      Some (s\<lparr>al_clock := al_clock s + int n, al_index := fst c, al_tasks := al_tasks s @ map spawn_delivery (snd c)\<rparr>)"
    using assms(1) by (simp add: loop_claim_def c_def split_def Let_def)
  moreover have "\<exists>t \<in> set (al_tasks s @ map spawn_delivery (snd c)). delivery_of obj t"
  proof (cases "delivering row")
    case True
    then show ?thesis using assms(5) by auto
  next
    case False
    then obtain d where "d \<in> set (snd c)" "due_object d = obj"
      using claim_takes_due [OF assms(2) _ assms(4)] assms(3) by (auto simp: is_due_def c_def)
    then show ?thesis
      by (intro bexI [of _ "spawn_delivery d"]) (auto simp: delivery_of_def spawn_delivery_def)
  qed
  ultimately show ?thesis by simp
qed

section \<open>Runs\<close>

text \<open>A call of \<open>set\<close> from its start to its end, as the task \<open>i\<close>, with no step of another task between its own.\<close>

definition whole_set :: "nat \<Rightarrow> alarm_object \<Rightarrow> int option \<Rightarrow> alarm_event list" where
  "whole_set i obj at =
     [Call_Set obj at, Enter_Lock i, Take_Lock i] @ replicate (if at = None then 2 else 3) (Set_Step i True True)
     @ [Drop_Lock i, Leave_Lock i]"

definition demo_ref :: alarm_object where
  "demo_ref = (''n'', ''o'')"

lemmas alarm_eval =
  whole_set_def alarms_start_def start_loop_def call_set_def on_task_def enter_lock_def take_lock_def drop_lock_def
  leave_lock_def set_step_def set_task_def go_def set_file_def lower_def follow_def unmark_all_def loop_claim_def
  claim_def due_rows_def is_due_def BATCH_def spawn_delivery_def deliver_start_def deliver_read_def
  deliver_settle_def lock_free_def lock_holders_def Let_def eval_nat_numeral

lemma demo_alarm_run:
  "\<exists>s. runs calm_step (alarms_start 0) (Start_Loop True # whole_set 0 demo_ref (Some 5)) = Some s
     \<and> al_file s demo_ref = Some 5 \<and> al_gone s = [] \<and> al_left_marked s = [] \<and> al_looping s \<and> al_clock s = 0
     \<and> al_index s = [(demo_ref, \<lparr>scheduled_at = 5, retry_count = 0, delivering = False\<rparr>)]"
  by (simp add: alarm_eval calm_step_def misread_def)

section \<open>Properties\<close>

text \<open>C3. The alarm of an object is never lost and hardly late. However calls of \<open>set\<close>, deliveries, claims, failed
  statements, dropped calls and stops of the runner interleave, as long as the file of no object changes
  between a delivery that reads it too early and the lock that delivery then takes: while the file of an object has an alarm,
  and its namespace was not found deleted, the index has a row for it, at the time of the alarm or
  earlier, or at most 64 seconds from now; a row that is marked has a delivery under way, or was left
  marked by a failed statement or a stop. No handler runs before its time, and at most one task of an
  object works under its lock.\<close>

theorem alarm_kept:
  assumes "runs calm_step (alarms_start now) es = Some s"
  shows "(al_file s obj = Some a \<longrightarrow> obj \<notin> set (al_gone s) \<longrightarrow>
       (\<exists>row. map_of (al_index s) obj = Some row \<and> scheduled_at row \<le> max a (al_clock s + 64000)
          \<and> (delivering row \<longrightarrow> obj \<in> set (al_left_marked s) \<or> (\<exists>t \<in> set (al_tasks s). delivery_of obj t))))
    \<and> (\<forall>t \<in> set (al_tasks s). \<forall>n at. task_place t = Dlv_Run n at \<longrightarrow> at \<le> al_clock s)
    \<and> (\<forall>i < length (al_tasks s). \<forall>j < length (al_tasks s).
         working (task_place (al_tasks s ! i)) \<longrightarrow> working (task_place (al_tasks s ! j)) \<longrightarrow>
         task_object (al_tasks s ! i) = task_object (al_tasks s ! j) \<longrightarrow> i = j)"
proof -
  have inv: "alarm_inv s" using alarm_machine.runs_inv assms by blast
  have "\<forall>t \<in> set (al_tasks s). \<forall>n at. task_place t = Dlv_Run n at \<longrightarrow> at \<le> al_clock s"
    using alarm_invD(2) [OF inv] by (force simp: task_ok_def)
  moreover have "\<exists>row. map_of (al_index s) obj = Some row \<and> scheduled_at row \<le> max a (al_clock s + 64000)
      \<and> (delivering row \<longrightarrow> obj \<in> set (al_left_marked s) \<or> (\<exists>t \<in> set (al_tasks s). delivery_of obj t))"
    if "al_file s obj = Some a" "obj \<notin> set (al_gone s)"
    using alarm_invD(3,4) [OF inv, of obj] that
    by (cases "map_of (al_index s) obj") (auto simp: covered_at_def marked_at_def by_then_def sched_def LONGEST_RETRY_def)
  moreover have "i = j" if "i < length (al_tasks s)" "j < length (al_tasks s)"
    "working (task_place (al_tasks s ! i))" "working (task_place (al_tasks s ! j))"
    "task_object (al_tasks s ! i) = task_object (al_tasks s ! j)" for i j
    using one_holder [OF alarm_invD(1) [OF inv] that(1,2) _ _ that(5)] task_okD(2) [OF inv] that(1-4) by blast
  ultimately show ?thesis by blast
qed

theorem alarm_kept_witness:
  "\<exists>s row. runs calm_step (alarms_start 0) (Start_Loop True # whole_set 0 demo_ref (Some 5)) = Some s
     \<and> al_file s demo_ref = Some 5 \<and> map_of (al_index s) demo_ref = Some row
     \<and> scheduled_at row \<le> max 5 (al_clock s + 64000)"
proof -
  obtain s where s: "runs calm_step (alarms_start 0) (Start_Loop True # whole_set 0 demo_ref (Some 5)) = Some s"
    "al_file s demo_ref = Some 5" "al_gone s = []"
    using demo_alarm_run by blast
  then show ?thesis using alarm_kept [OF s(1), of demo_ref 5] by auto
qed

text \<open>C4. Every alarm is delivered. After any such run, when the time of the alarm of an object has come and the
  longest retry has passed, one claim of the loop has a delivery of the object under way, as long as
  at most a batch of alarms is due and the row was not left marked.\<close>

theorem alarm_delivered:
  assumes "runs calm_step (alarms_start now) es = Some s" and "al_file s obj = Some a"
    and "obj \<notin> set (al_gone s)" and "obj \<notin> set (al_left_marked s)" and "al_looping s"
    and "max a (al_clock s + 64000) \<le> al_clock s + int n"
    and "length (filter (is_due (al_clock s + int n)) (al_index s)) \<le> BATCH"
  shows "\<exists>s'. runs alarm_step s [Time_Passes n, Loop_Claim] = Some s' \<and> (\<exists>t \<in> set (al_tasks s'). delivery_of obj t)"
proof -
  have inv: "alarm_inv s" using alarm_machine.runs_inv assms(1) by blast
  obtain row where row: "map_of (al_index s) obj = Some row" "scheduled_at row \<le> max a (al_clock s + LONGEST_RETRY)"
    using alarm_invD(3) [OF inv, of obj] assms(2,3)
    by (cases "map_of (al_index s) obj") (auto simp: covered_at_def by_then_def sched_def)
  have "delivering row \<longrightarrow> (\<exists>t \<in> set (al_tasks s). delivery_of obj t)"
    using alarm_invD(4) [OF inv, of obj] row(1) assms(4) by (auto simp: marked_at_def)
  moreover have "scheduled_at row \<le> al_clock s + int n"
    using order_trans [OF row(2) [unfolded LONGEST_RETRY_def] assms(6)] .
  ultimately show ?thesis by (intro delivery_after_claim [OF assms(5) row(1) _ assms(7)])
qed

theorem alarm_delivered_witness:
  "\<exists>s s'. runs calm_step (alarms_start 0) (Start_Loop True # whole_set 0 demo_ref (Some 5)) = Some s
     \<and> al_file s demo_ref = Some 5
     \<and> runs alarm_step s [Time_Passes 64000, Loop_Claim] = Some s'
     \<and> (\<exists>t. t \<in> set (al_tasks s') \<and> delivery_of demo_ref t)"
proof -
  obtain s where s: "runs calm_step (alarms_start 0) (Start_Loop True # whole_set 0 demo_ref (Some 5)) = Some s"
    "al_file s demo_ref = Some 5" "al_gone s = []" "al_left_marked s = []" "al_looping s" "al_clock s = 0"
    "al_index s = [(demo_ref, \<lparr>scheduled_at = 5, retry_count = 0, delivering = False\<rparr>)]"
    using demo_alarm_run by blast
  moreover have "length (filter (is_due (al_clock s + int 64000)) (al_index s)) \<le> BATCH"
    by (simp add: s BATCH_def)
  ultimately show ?thesis
    using alarm_delivered [OF s(1,2), of 64000] by auto
qed

definition lost_events :: "alarm_object \<Rightarrow> int \<Rightarrow> alarm_event list" where
  "lost_events obj a =
     [Start_Loop True] @ whole_set 0 obj (Some 5) @ [Time_Passes 10, Loop_Claim, Deliver_Start 1 Ns_Found]
     @ whole_set 2 obj None @ [Deliver_Read 1 True]
     @ whole_set 3 obj (Some a) @ [Enter_Lock 1, Take_Lock 1, Deliver_Settle 1 True, Drop_Lock 1, Leave_Lock 1]"


end
