(* ===== verification/Cron_Scheduler.thy ===== *)
theory Cron_Scheduler
  imports Rust_Str "HOL-Library.AList" "HOL-Library.Multiset"
begin

text \<open>
  \<open>src/scheduler.rs\<close>: the crons. Any number of runners look for due crons at once; each claims the
  ones it found one transaction at a time, between the transactions of the others and the writes of
  the API, and dispatches the runs it claimed when its round ends. The parser of patterns is not part of the repository: it is
  an argument whose answer comes after the given time. Times are milliseconds.
\<close>

section \<open>Tables\<close>

record cron =
  cr_worker :: string
  cr_pattern :: string
  cr_next :: "int option"
  cr_last :: "int option"
  cr_deleted :: bool

record due_cron =
  dc_id :: nat
  dc_worker :: string
  dc_pattern :: string
  dc_next :: int

record scheduled_event =
  se_id :: nat
  se_cron :: nat
  se_worker :: string
  se_scheduled :: int

record scheduled_data =
  sd_id :: nat
  sd_cron :: string
  sd_time :: nat
  sd_worker :: string

definition CRONS_PER_TICK :: nat where "CRONS_PER_TICK = 100"

definition cron_due :: "int \<Rightarrow> nat \<times> cron \<Rightarrow> bool" where
  "cron_due now row \<longleftrightarrow> \<not> cr_deleted (snd row) \<and> (case cr_next (snd row) of None \<Rightarrow> False | Some t \<Rightarrow> t \<le> now)"

definition select_due :: "int \<Rightarrow> (nat \<times> cron) list \<Rightarrow> due_cron list" where
  "select_due now crons =
     map (\<lambda>(i, c). \<lparr>dc_id = i, dc_worker = cr_worker c, dc_pattern = cr_pattern c, dc_next = the (cr_next c)\<rparr>)
       (take CRONS_PER_TICK (sort_key (\<lambda>row. the (cr_next (snd row))) (filter (cron_due now) crons)))"

section \<open>Runners\<close>

text \<open>A round of a runner: the crons it still has to claim, and the runs it claimed.\<close>

record round =
  ro_now :: int
  ro_todo :: "due_cron list"
  ro_due :: "scheduled_data list"

record scheduler =
  sc_crons :: "(nat \<times> cron) list"
  sc_events :: "scheduled_event list"
  sc_rounds :: "round option list"
  sc_dispatched :: "scheduled_data list"
  sc_dropped :: "scheduled_data list"
  sc_next_id :: nat
  sc_since :: "nat \<Rightarrow> int list"

definition scheduler_start :: "(nat \<times> cron) list \<Rightarrow> nat \<Rightarrow> scheduler" where
  "scheduler_start crons runners =
     \<lparr>sc_crons = crons, sc_events = [], sc_rounds = replicate runners None, sc_dispatched = [], sc_dropped = [],
      sc_next_id = 0, sc_since = (\<lambda>_. [])\<rparr>"

definition set_round :: "nat \<Rightarrow> round option \<Rightarrow> scheduler \<Rightarrow> scheduler" where
  "set_round r v s = s\<lparr>sc_rounds := (sc_rounds s)[r := v]\<rparr>"

section \<open>Claiming\<close>

text \<open>The guard of an update: the row is still the one the round saw.\<close>

definition still_due :: "due_cron \<Rightarrow> (nat \<times> cron) list \<Rightarrow> bool" where
  "still_due d crons =
     (case map_of crons (dc_id d) of None \<Rightarrow> False | Some c \<Rightarrow> cr_next c = Some (dc_next d))"

definition stop_cron :: "due_cron \<Rightarrow> (nat \<times> cron) list \<Rightarrow> (nat \<times> cron) list" where
  "stop_cron d crons =
     (if still_due d crons then AList.update (dc_id d) ((the (map_of crons (dc_id d)))\<lparr>cr_next := None\<rparr>) crons else crons)"

definition move_cron :: "due_cron \<Rightarrow> int \<Rightarrow> (nat \<times> cron) list \<Rightarrow> (nat \<times> cron) list" where
  "move_cron d next crons =
     AList.update (dc_id d)
       ((the (map_of crons (dc_id d)))\<lparr>cr_next := Some next, cr_last := Some (dc_next d)\<rparr>) crons"

definition claimable :: "due_cron \<Rightarrow> (nat \<times> cron) list \<Rightarrow> bool" where
  "claimable d crons \<longleftrightarrow> still_due d crons \<and> \<not> cr_deleted (the (map_of crons (dc_id d)))"

text \<open>
  What the claim of one cron does: \<open>ok\<close> is false when a statement of it fails, which undoes its
  transaction, ends the round with an error, and drops the runs the round claimed before.
\<close>

definition claim_one ::
  "(string \<Rightarrow> int \<Rightarrow> int option) \<Rightarrow> nat \<Rightarrow> bool \<Rightarrow> round \<Rightarrow> due_cron \<Rightarrow> due_cron list \<Rightarrow> scheduler \<Rightarrow> scheduler" where
  "claim_one next_run r ok ro d todo s =
     (if \<not> ok then set_round r None (s\<lparr>sc_dropped := sc_dropped s @ ro_due ro\<rparr>)
      else case next_run (dc_pattern d) (ro_now ro) of
             None \<Rightarrow> set_round r (Some (ro\<lparr>ro_todo := todo\<rparr>)) (s\<lparr>sc_crons := stop_cron d (sc_crons s)\<rparr>)
           | Some next \<Rightarrow>
               if \<not> claimable d (sc_crons s) then set_round r (Some (ro\<lparr>ro_todo := todo\<rparr>)) s
               else
                 (let i = sc_next_id s;
                      ev = \<lparr>se_id = i, se_cron = dc_id d, se_worker = dc_worker d, se_scheduled = dc_next d\<rparr>;
                      data = \<lparr>sd_id = i, sd_cron = dc_pattern d, sd_time = nat (dc_next d), sd_worker = dc_worker d\<rparr>
                  in set_round r (Some (ro\<lparr>ro_todo := todo, ro_due := ro_due ro @ [data]\<rparr>))
                       (s\<lparr>sc_crons := move_cron d next (sc_crons s), sc_events := sc_events s @ [ev],
                          sc_next_id := Suc i, sc_since := (sc_since s)(dc_id d := sc_since s (dc_id d) @ [dc_next d])\<rparr>)))"

datatype cron_event =
    Look nat int bool
  | Claim_One nat bool
  | Dispatch nat
  | Runner_Stop nat
  | Api_Write nat cron

text \<open>The writes of the API start a cron over: what its runs were before does not bind it.\<close>

fun cron_step :: "(string \<Rightarrow> int \<Rightarrow> int option) \<Rightarrow> scheduler \<Rightarrow> cron_event \<Rightarrow> scheduler option" where
  "cron_step next_run s (Look r now ok) =
     (if r < length (sc_rounds s) \<and> sc_rounds s ! r = None
      then Some (if ok then set_round r (Some \<lparr>ro_now = now, ro_todo = select_due now (sc_crons s), ro_due = []\<rparr>) s else s)
      else None)"
| "cron_step next_run s (Claim_One r ok) =
     (if r < length (sc_rounds s)
      then case sc_rounds s ! r of
             None \<Rightarrow> None
           | Some ro \<Rightarrow> (case ro_todo ro of [] \<Rightarrow> None | d # todo \<Rightarrow> Some (claim_one next_run r ok ro d todo s))
      else None)"
| "cron_step next_run s (Dispatch r) =
     (if r < length (sc_rounds s)
      then case sc_rounds s ! r of
             None \<Rightarrow> None
           | Some ro \<Rightarrow>
               (case (ro_todo ro, ro_due ro) of
                  ([], data # due) \<Rightarrow>
                    Some (set_round r (Some (ro\<lparr>ro_due := due\<rparr>)) (s\<lparr>sc_dispatched := sc_dispatched s @ [data]\<rparr>))
                | ([], []) \<Rightarrow> Some (set_round r None s)
                | _ \<Rightarrow> None)
      else None)"
| "cron_step next_run s (Runner_Stop r) =
     (if r < length (sc_rounds s)
      then Some (set_round r None (s\<lparr>sc_dropped := sc_dropped s @ (case sc_rounds s ! r of None \<Rightarrow> [] | Some ro \<Rightarrow> ro_due ro)\<rparr>))
      else None)"
| "cron_step next_run s (Api_Write i c) =
     Some (s\<lparr>sc_crons := AList.update i c (sc_crons s), sc_since := (sc_since s)(i := [])\<rparr>)"

section \<open>The invariant\<close>

definition round_due :: "round option \<Rightarrow> scheduled_data list" where
  "round_due v = (case v of None \<Rightarrow> [] | Some ro \<Rightarrow> ro_due ro)"

definition waiting_runs :: "scheduler \<Rightarrow> scheduled_data list" where
  "waiting_runs s = concat (map round_due (sc_rounds s))"

definition forward :: "int list \<Rightarrow> int option \<Rightarrow> bool" where
  "forward ts nxt \<longleftrightarrow> sorted_wrt (<) ts \<and> (case nxt of None \<Rightarrow> True | Some t \<Rightarrow> \<forall>u \<in> set ts. u < t)"

definition next_of :: "nat \<Rightarrow> scheduler \<Rightarrow> int option" where
  "next_of i s = Option.bind (map_of (sc_crons s) i) cr_next"

definition rounds_ok :: "scheduler \<Rightarrow> bool" where
  "rounds_ok s \<longleftrightarrow> (\<forall>ro. Some ro \<in> set (sc_rounds s) \<longrightarrow> (\<forall>d \<in> set (ro_todo ro). dc_next d \<le> ro_now ro))"

definition ids_ok :: "scheduler \<Rightarrow> bool" where
  "ids_ok s \<longleftrightarrow>
     map se_id (sc_events s) = [0..<sc_next_id s]
     \<and> mset (map sd_id (sc_dispatched s @ sc_dropped s @ waiting_runs s)) = mset (map se_id (sc_events s))"

definition since_ok :: "scheduler \<Rightarrow> bool" where
  "since_ok s \<longleftrightarrow>
     (\<forall>i. forward (sc_since s i) (next_of i s)
        \<and> (\<exists>older. map se_scheduled (filter (\<lambda>e. se_cron e = i) (sc_events s)) = older @ sc_since s i))"

definition cron_inv :: "scheduler \<Rightarrow> bool" where
  "cron_inv s \<longleftrightarrow> rounds_ok s \<and> ids_ok s \<and> since_ok s"

section \<open>Lemmas\<close>

lemma set_round_simps [simp]:
  "sc_crons (set_round r v s) = sc_crons s"
  "sc_events (set_round r v s) = sc_events s"
  "sc_rounds (set_round r v s) = (sc_rounds s)[r := v]"
  "sc_dispatched (set_round r v s) = sc_dispatched s"
  "sc_dropped (set_round r v s) = sc_dropped s"
  "sc_next_id (set_round r v s) = sc_next_id s"
  "sc_since (set_round r v s) = sc_since s"
  by (simp_all add: set_round_def)

lemma mset_concat_update:
  "r < length xs \<Longrightarrow> mset (concat (map f (xs[r := v]))) + mset (f (xs ! r)) = mset (concat (map f xs)) + mset (f v)"
proof (induction xs arbitrary: r)
  case (Cons x xs)
  then show ?case by (cases r) (auto simp: ac_simps)
qed simp

lemma waiting_set_round:
  assumes "r < length (sc_rounds s)" and "sc_rounds s' = (sc_rounds s)[r := v]"
  shows "mset (waiting_runs s') + mset (round_due (sc_rounds s ! r)) = mset (waiting_runs s) + mset (round_due v)"
  unfolding waiting_runs_def assms(2) by (rule mset_concat_update [OF assms(1)])

lemma rounds_ok_set:
  assumes "rounds_ok s" and "sc_rounds s' = (sc_rounds s)[r := v]"
    and "\<And>ro d. v = Some ro \<Longrightarrow> d \<in> set (ro_todo ro) \<Longrightarrow> dc_next d \<le> ro_now ro"
  shows "rounds_ok s'"
  unfolding rounds_ok_def assms(2)
proof (intro allI impI ballI)
  fix ro d
  assume "Some ro \<in> set ((sc_rounds s)[r := v])" and d: "d \<in> set (ro_todo ro)"
  then consider "v = Some ro" | "Some ro \<in> set (sc_rounds s)" using set_update_subset_insert by fastforce
  then show "dc_next d \<le> ro_now ro" using assms(1,3) d by cases (auto simp: rounds_ok_def)
qed

lemma ids_ok_moved:
  assumes "ids_ok s" and "r < length (sc_rounds s)" and "sc_rounds s' = (sc_rounds s)[r := v]"
    and "sc_events s' = sc_events s" and "sc_next_id s' = sc_next_id s"
    and "mset (sc_dispatched s' @ sc_dropped s') + mset (round_due v) =
           mset (sc_dispatched s @ sc_dropped s) + mset (round_due (sc_rounds s ! r))"
  shows "ids_ok s'"
proof -
  have "mset (sc_dispatched s' @ sc_dropped s' @ waiting_runs s') + mset (round_due (sc_rounds s ! r)) =
      mset (sc_dispatched s @ sc_dropped s @ waiting_runs s) + mset (round_due (sc_rounds s ! r))"
    using waiting_set_round [OF assms(2,3)] assms(6) by (simp add: ac_simps)
  then have "mset (sc_dispatched s' @ sc_dropped s' @ waiting_runs s') = mset (sc_dispatched s @ sc_dropped s @ waiting_runs s)"
    by simp
  then have "mset (map sd_id (sc_dispatched s' @ sc_dropped s' @ waiting_runs s')) =
      mset (map sd_id (sc_dispatched s @ sc_dropped s @ waiting_runs s))"
    by (metis mset_map)
  then show ?thesis using assms(1,4,5) unfolding ids_ok_def by metis
qed

lemma since_ok_same:
  assumes "since_ok s" and "sc_since s' = sc_since s" and "sc_events s' = sc_events s"
    and "\<And>i. next_of i s' = next_of i s \<or> next_of i s' = None"
  shows "since_ok s'"
  unfolding since_ok_def
proof
  fix i
  have "forward (sc_since s i) (next_of i s)" using assms(1) by (simp add: since_ok_def)
  then have "forward (sc_since s i) (next_of i s')" using assms(4) [of i] by (auto simp: forward_def)
  then show "forward (sc_since s' i) (next_of i s')
      \<and> (\<exists>older. map se_scheduled (filter (\<lambda>e. se_cron e = i) (sc_events s')) = older @ sc_since s' i)"
    using assms(1-3) by (simp add: since_ok_def)
qed

lemma select_due_next: "d \<in> set (select_due now crons) \<Longrightarrow> dc_next d \<le> now"
  by (auto simp: select_due_def cron_due_def dest!: in_set_takeD split: option.splits)

lemma forward_claim: "forward ts (Some t) \<Longrightarrow> t < n \<Longrightarrow> forward (ts @ [t]) (Some n)"
  by (auto simp: forward_def sorted_wrt_append)

locale cron_parser =
  fixes next_run :: "string \<Rightarrow> int \<Rightarrow> int option"
  assumes next_run_after: "next_run p now = Some t \<Longrightarrow> now < t"
begin

lemma since_ok_claim:
  assumes "since_ok s" and "claimable d (sc_crons s)" and "dc_next d < n"
    and "sc_crons s' = move_cron d n (sc_crons s)" and "sc_events s' = sc_events s @ [ev]"
    and "se_cron ev = dc_id d" and "se_scheduled ev = dc_next d"
    and "sc_since s' = (sc_since s)(dc_id d := sc_since s (dc_id d) @ [dc_next d])"
  shows "since_ok s'"
  unfolding since_ok_def
proof
  fix i
  obtain older where ok: "forward (sc_since s i) (next_of i s)"
    "map se_scheduled (filter (\<lambda>e. se_cron e = i) (sc_events s)) = older @ sc_since s i"
    using assms(1) unfolding since_ok_def by blast
  show "forward (sc_since s' i) (next_of i s')
      \<and> (\<exists>older. map se_scheduled (filter (\<lambda>e. se_cron e = i) (sc_events s')) = older @ sc_since s' i)"
  proof (cases "i = dc_id d")
    case True
    have "next_of i s = Some (dc_next d)"
      using assms(2) True by (auto simp: claimable_def still_due_def next_of_def split: option.splits)
    then have "forward (sc_since s' i) (Some n)" using forward_claim ok(1) assms(3,8) True by simp
    moreover have "next_of i s' = Some n" using True by (simp add: next_of_def assms(4) move_cron_def update_conv')
    ultimately show ?thesis using ok(2) True assms(5-8) by simp
  next
    case False
    then have "next_of i s' = next_of i s" by (simp add: next_of_def assms(4) move_cron_def update_conv')
    then show ?thesis using ok False assms(5,6,8) by simp
  qed
qed

lemma ids_ok_claim:
  assumes "ids_ok s" and "r < length (sc_rounds s)" and "sc_rounds s ! r = Some ro"
    and "sc_rounds s' = (sc_rounds s)[r := Some ro']" and "ro_due ro' = ro_due ro @ [data]"
    and "sc_events s' = sc_events s @ [ev]" and "se_id ev = sc_next_id s" and "sd_id data = sc_next_id s"
    and "sc_next_id s' = Suc (sc_next_id s)" and "sc_dispatched s' = sc_dispatched s" and "sc_dropped s' = sc_dropped s"
  shows "ids_ok s'"
proof -
  have "mset (waiting_runs s') = mset (waiting_runs s) + {#data#}"
    using waiting_set_round [OF assms(2,4)] assms(3,5) by (simp add: round_due_def)
  then have "mset (map sd_id (waiting_runs s')) = mset (map sd_id (waiting_runs s)) + {#sc_next_id s#}"
    by (simp add: assms(8))
  then have "mset (map sd_id (sc_dispatched s' @ sc_dropped s' @ waiting_runs s')) =
      mset (map sd_id (sc_dispatched s @ sc_dropped s @ waiting_runs s)) + {#sc_next_id s#}"
    by (simp add: assms(10,11))
  moreover have "mset (map se_id (sc_events s')) = mset (map se_id (sc_events s)) + {#sc_next_id s#}"
    by (simp add: assms(6,7))
  moreover have "map se_id (sc_events s') = [0..<sc_next_id s']"
    using assms(1) by (simp add: ids_ok_def assms(6,7,9))
  ultimately show ?thesis using assms(1) unfolding ids_ok_def by metis
qed

lemma cron_inv_moved:
  assumes "cron_inv s" and "r < length (sc_rounds s)" and "sc_rounds s' = (sc_rounds s)[r := v]"
    and "\<And>ro d. v = Some ro \<Longrightarrow> d \<in> set (ro_todo ro) \<Longrightarrow> dc_next d \<le> ro_now ro"
    and "sc_events s' = sc_events s" and "sc_next_id s' = sc_next_id s" and "sc_since s' = sc_since s" and "\<And>i. next_of i s' = next_of i s \<or> next_of i s' = None"
    and "mset (sc_dispatched s' @ sc_dropped s') + mset (round_due v) =
           mset (sc_dispatched s @ sc_dropped s) + mset (round_due (sc_rounds s ! r))"
  shows "cron_inv s'"
  using assms rounds_ok_set [OF _ assms(3,4)] ids_ok_moved [OF _ assms(2,3,5,6,9)]
    since_ok_same [OF _ assms(7,5,8)] by (simp add: cron_inv_def)

lemma cron_inv_claimed:
  assumes "cron_inv s" and "r < length (sc_rounds s)" and "sc_rounds s ! r = Some ro" and "claimable d (sc_crons s)" and "dc_next d < n"
    and "\<forall>e \<in> set todo. dc_next e \<le> ro_now ro" and "se_id ev = sc_next_id s" and "se_cron ev = dc_id d"
    and "se_scheduled ev = dc_next d" and "sd_id data = sc_next_id s"
  shows "cron_inv (set_round r (Some (ro\<lparr>ro_todo := todo, ro_due := ro_due ro @ [data]\<rparr>))
     (s\<lparr>sc_crons := move_cron d n (sc_crons s), sc_events := sc_events s @ [ev],
        sc_next_id := Suc (sc_next_id s), sc_since := (sc_since s)(dc_id d := sc_since s (dc_id d) @ [dc_next d])\<rparr>))"
    (is "cron_inv ?s")
proof -
  have inv: "rounds_ok s" "ids_ok s" "since_ok s" using assms(1) by (simp_all add: cron_inv_def)
  have "since_ok ?s" by (rule since_ok_claim [OF inv(3) assms(4,5) _ _ assms(8,9)]) simp_all
  moreover have "rounds_ok ?s" by (rule rounds_ok_set [OF inv(1)]) (use assms(6) in auto)
  moreover have "ids_ok ?s" 
    by (rule ids_ok_claim [OF inv(2) assms(2,3) _ _ _ assms(7,10), where ro' = "ro\<lparr>ro_todo := todo, ro_due := ro_due ro @ [data]\<rparr>"])
       simp_all
  ultimately show ?thesis by (simp add: cron_inv_def)
qed

lemma cron_inv_claim_one:
  assumes inv: "cron_inv s" and r: "r < length (sc_rounds s)" and ro: "sc_rounds s ! r = Some ro" and todo: "ro_todo ro = d # todo"
  shows "cron_inv (claim_one next_run r ok ro d todo s)"
proof -
  have mem: "Some ro \<in> set (sc_rounds s)" using r ro by (metis nth_mem)
  have "\<forall>e \<in> set (ro_todo ro). dc_next e \<le> ro_now ro"
    using inv mem unfolding cron_inv_def rounds_ok_def by blast
  then have d: "\<forall>e \<in> set todo. dc_next e \<le> ro_now ro" "dc_next d \<le> ro_now ro" by (simp_all add: todo)
  define ro' where "ro' = ro\<lparr>ro_todo := todo\<rparr>"
  have due: "round_due (Some ro') = round_due (sc_rounds s ! r)" by (simp add: round_due_def ro ro'_def)
  have todo': "\<And>q e. Some ro' = Some q \<Longrightarrow> e \<in> set (ro_todo q) \<Longrightarrow> dc_next e \<le> ro_now q" using d(1) by (auto simp: ro'_def)
  consider (fails) "\<not> ok" | (invalid) "ok" "next_run (dc_pattern d) (ro_now ro) = None"
    | (moved) n where "ok" "next_run (dc_pattern d) (ro_now ro) = Some n" "\<not> claimable d (sc_crons s)"
    | (claims) n where "ok" "next_run (dc_pattern d) (ro_now ro) = Some n" "claimable d (sc_crons s)"
    by fastforce
  then show ?thesis
  proof cases
    case fails
    then show ?thesis
      by (intro cron_inv_moved [OF inv r, where v = None]) (auto simp: claim_one_def ro round_due_def next_of_def)
  next
    case invalid
    then have eq: "claim_one next_run r ok ro d todo s = set_round r (Some ro') (s\<lparr>sc_crons := stop_cron d (sc_crons s)\<rparr>)"
      by (simp add: claim_one_def ro'_def)
    show ?thesis
      unfolding eq by (rule cron_inv_moved [OF inv r, where v = "Some ro'"])
        (use todo' in \<open>simp_all add: due next_of_def stop_cron_def update_conv'\<close>)
  next
    case moved
    then have eq: "claim_one next_run r ok ro d todo s = set_round r (Some ro') s" by (simp add: claim_one_def ro'_def)
    show ?thesis
      unfolding eq by (rule cron_inv_moved [OF inv r, where v = "Some ro'"]) (use todo' in \<open>simp_all add: due next_of_def\<close>)
  next
    case claims
    have "dc_next d < n" using d(2) next_run_after [OF claims(2)] by simp
    then show ?thesis
      using cron_inv_claimed [OF inv r ro claims(3) _ d(1)] claims by (simp add: claim_one_def Let_def)
  qed
qed

lemma cron_inv_step:
  assumes "cron_inv s" and "cron_step next_run s e = Some s'"
  shows "cron_inv s'"
proof (cases e)
  case (Look r now ok)
  then show ?thesis
    using assms select_due_next
    by (cases ok) (auto split: if_splits simp: round_due_def simp: next_of_def intro!: cron_inv_moved [OF assms(1), of r])
next
  case (Claim_One r ok)
  then show ?thesis
    using assms cron_inv_claim_one by (auto split: if_splits option.splits list.splits)
next
  case (Dispatch r)
  then show ?thesis
    using assms(2)
    by (auto split: if_splits option.splits list.splits simp: round_due_def simp: next_of_def intro!: cron_inv_moved [OF assms(1), of r])
next
  case (Runner_Stop r)
  then show ?thesis
    using assms(2) by (auto split: if_splits option.splits simp: round_due_def simp: next_of_def intro!: cron_inv_moved [OF assms(1), of r])
next
  case (Api_Write i c)
  have s': "s' = s\<lparr>sc_crons := AList.update i c (sc_crons s), sc_since := (sc_since s)(i := [])\<rparr>"
    using assms(2) Api_Write by simp
  have "next_of j s' = next_of j s" if "j \<noteq> i" for j using that by (simp add: s' next_of_def update_conv')
  then have "since_ok s'"
    using assms(1) by (auto simp: cron_inv_def since_ok_def s' forward_def split: option.splits)
  moreover have "ids_ok s' = ids_ok s" "rounds_ok s' = rounds_ok s"
    by (simp_all add: ids_ok_def rounds_ok_def waiting_runs_def s')
  ultimately show ?thesis using assms(1) by (simp add: cron_inv_def)
qed

lemma cron_inv_start: "cron_inv (scheduler_start crons runners)"
  by (auto simp: cron_inv_def rounds_ok_def ids_ok_def since_ok_def scheduler_start_def forward_def waiting_runs_def round_due_def
      split: option.splits)

end

sublocale cron_parser \<subseteq> cron_runs: step_invariant "cron_step next_run" "\<lambda>s. \<exists>crons n. s = scheduler_start crons n" cron_inv
  by unfold_locales (auto intro: cron_inv_start cron_inv_step)

context cron_parser
begin

lemma cron_reachable: "runs (cron_step next_run) (scheduler_start crons n) es = Some s \<Longrightarrow> cron_inv s"
  by (rule cron_runs.runs_inv) blast+

end

definition every_minute :: "string \<Rightarrow> int \<Rightarrow> int option" where
  "every_minute p now = (if p = [] then None else Some (now + 60))"

interpretation minutes: cron_parser every_minute
  by unfold_locales (auto simp: every_minute_def split: if_splits)

section \<open>Properties\<close>

text \<open>C18. A cron runs once for each of its times, whichever of the runners claims it. However the rounds of the runners, failed
  statements, stops and writes of the API interleave: the times at which a cron ran since the API last wrote it only go
  forward, and its next run comes after all of them; every recorded event has an id of its own
  and is in exactly one place, dispatched once, waiting in one round, or dropped by a stop
  or an error of its round.\<close>

theorem cron_runs_once:
  assumes "cron_parser next_run" and "runs (cron_step next_run) (scheduler_start crons n) es = Some s"
  shows "sorted_wrt (<) (sc_since s i)
    \<and> (\<exists>older. map se_scheduled (filter (\<lambda>e. se_cron e = i) (sc_events s)) = older @ sc_since s i)
    \<and> (next_of i s = Some t \<longrightarrow> (\<forall>u \<in> set (sc_since s i). u < t))
    \<and> distinct (map se_id (sc_events s)) \<and> distinct (map sd_id (sc_dispatched s))
    \<and> mset (map sd_id (sc_dispatched s @ sc_dropped s @ waiting_runs s)) = mset (map se_id (sc_events s))"
proof -
  have inv: "cron_inv s" using cron_parser.cron_reachable assms by blast
  then have ids: "map se_id (sc_events s) = [0..<sc_next_id s]"
    "mset (map sd_id (sc_dispatched s @ sc_dropped s @ waiting_runs s)) = mset (map se_id (sc_events s))"
    unfolding cron_inv_def ids_ok_def by blast+
  then have "distinct (map se_id (sc_events s))" by simp
  moreover from this have "distinct (map sd_id (sc_dispatched s @ sc_dropped s @ waiting_runs s))"
    using ids(2) by (metis mset_eq_imp_distinct_iff)
  moreover have "forward (sc_since s i) (next_of i s)"
    "\<exists>older. map se_scheduled (filter (\<lambda>e. se_cron e = i) (sc_events s)) = older @ sc_since s i"
    using inv by (auto simp: cron_inv_def since_ok_def)
  ultimately show ?thesis using ids(2) by (auto simp: forward_def)
qed

definition demo_cron :: cron where
  "demo_cron = \<lparr>cr_worker = ''w'', cr_pattern = ''* * * * *'', cr_next = Some 5, cr_last = None, cr_deleted = False\<rparr>"

definition demo_cron_events :: "cron_event list" where
  "demo_cron_events = [Look 0 9 True, Look 1 9 True, Claim_One 1 True, Claim_One 0 True, Dispatch 1]"

lemma demo_cron_run:
  "\<exists>s. runs (cron_step every_minute) (scheduler_start [(3, demo_cron)] 2) demo_cron_events = Some s
     \<and> sc_since s 3 = [5] \<and> next_of 3 s = Some 69 \<and> length (sc_dispatched s) = 1"
  by (simp add: demo_cron_events_def demo_cron_def scheduler_start_def select_due_def cron_due_def CRONS_PER_TICK_def
      claim_one_def set_round_def every_minute_def claimable_def still_due_def move_cron_def next_of_def Let_def eval_nat_numeral)

theorem cron_runs_once_witness:
  "\<exists>s. runs (cron_step every_minute) (scheduler_start [(3, demo_cron)] 2) demo_cron_events = Some s
     \<and> sc_since s 3 = [5] \<and> distinct (map se_id (sc_events s)) \<and> length (sc_dispatched s) = 1"
proof -
  obtain s where s: "runs (cron_step every_minute) (scheduler_start [(3, demo_cron)] 2) demo_cron_events = Some s"
    "sc_since s 3 = [5]" "length (sc_dispatched s) = 1"
    using demo_cron_run by blast
  then show ?thesis using cron_runs_once [OF minutes.cron_parser_axioms s(1)] by auto
qed

text \<open>
  An error on one cron loses the runs of the crons claimed before it in the same round: they are recorded, their crons moved on,
  and nothing dispatches them.
\<close>

lemma claim_error_skips:
  "\<exists>s. runs (cron_step every_minute) (scheduler_start [(3, demo_cron), (4, demo_cron)] 1)
       [Look 0 9 True, Claim_One 0 True, Claim_One 0 False] = Some s
     \<and> sc_dispatched s = [] \<and> sc_since s 3 = [5] \<and> next_of 3 s = Some 69 \<and> waiting_runs s = []"
  by (simp add: demo_cron_def scheduler_start_def select_due_def cron_due_def CRONS_PER_TICK_def waiting_runs_def round_due_def
      claim_one_def set_round_def every_minute_def claimable_def still_due_def move_cron_def next_of_def Let_def eval_nat_numeral)

end
