(* ===== verification/D1_Archive.thy ===== *)
theory D1_Archive
  imports Storage_Service Fetch_Route
begin

text \<open>
  \<open>src/d1/archive.rs\<close>: snapshots of databases in object storage, and their index. A snapshot is uploaded,
  its size is checked, and only then a row makes it visible to a restore. The object store is the
  interface \<open>Store\<close> of the code, a record of operations with their contract as a locale; \<open>s3_store\<close> is the
  one of the code, over the operations of \<open>Storage_Service\<close>. The index is the table the statements of
  \<open>PgIndex\<close> read and write; any statement may fail. SHA-256 is an argument.
\<close>

section \<open>The index\<close>

record snapshot =
  sn_database :: string
  sn_seq :: nat
  sn_epoch :: nat
  sn_key :: string
  sn_checksum :: string
  sn_size :: nat

record pg_index =
  ix_rows :: "snapshot list"
  ix_latest_epoch :: nat

text \<open>How a statement on the index ends: it may be done and its answer lost.\<close>

datatype index_stmt = Ix_Record | Ix_List | Ix_Forget nat

datatype stmt_end = Answered | Failed_Undone string | Failed_Done string

type_synonym index_ends = "index_stmt \<Rightarrow> stmt_end"

fun stmt_result :: "stmt_end \<Rightarrow> 'a \<Rightarrow> ('a, string) result" where
  "stmt_result Answered a = Ok a"
| "stmt_result (Failed_Undone m) a = Err m"
| "stmt_result (Failed_Done m) a = Err m"

fun stmt_state :: "stmt_end \<Rightarrow> 's \<Rightarrow> 's \<Rightarrow> 's" where
  "stmt_state (Failed_Undone m) before after = before"
| "stmt_state _ before after = after"

definition start_epoch :: "pg_index \<Rightarrow> pg_index \<times> nat" where
  "start_epoch ix = (let e = Suc (ix_latest_epoch ix) in (ix\<lparr>ix_latest_epoch := e\<rparr>, e))"

definition ix_record :: "index_ends \<Rightarrow> snapshot \<Rightarrow> pg_index \<Rightarrow> (unit, string) result \<times> pg_index" where
  "ix_record fl sn ix =
     (let inserted = (sn_epoch sn = ix_latest_epoch ix) in
      (and_then (stmt_result (fl Ix_Record) ())
         (\<lambda>_. if inserted then Ok ()
              else Err (''epoch '' @ show_nat (sn_epoch sn) @ '' is no longer the latest: another runner started'')),
       stmt_state (fl Ix_Record) ix (if inserted then ix\<lparr>ix_rows := ix_rows ix @ [sn]\<rparr> else ix)))"

definition newest_first :: "string \<Rightarrow> pg_index \<Rightarrow> snapshot list" where
  "newest_first db ix = rev (sort_key sn_seq (filter (\<lambda>r. sn_database r = db) (ix_rows ix)))"

definition ix_list :: "index_ends \<Rightarrow> string \<Rightarrow> pg_index \<Rightarrow> (snapshot list, string) result" where
  "ix_list fl db ix = stmt_result (fl Ix_List) (newest_first db ix)"

definition ix_forget :: "index_ends \<Rightarrow> nat \<Rightarrow> string \<Rightarrow> nat \<Rightarrow> pg_index \<Rightarrow> (unit, string) result \<times> pg_index" where
  "ix_forget fl i db q ix =
     (stmt_result (fl (Ix_Forget i)) (),
      stmt_state (fl (Ix_Forget i)) ix (ix\<lparr>ix_rows := filter (\<lambda>r. \<not> (sn_database r = db \<and> sn_seq r = q)) (ix_rows ix)\<rparr>))"

section \<open>The store\<close>

record 's store =
  so_put :: "string \<Rightarrow> u8 list \<Rightarrow> 's \<Rightarrow> (unit, string) result \<times> 's"
  so_get :: "string \<Rightarrow> 's \<Rightarrow> (u8 list option, string) result"
  so_size :: "string \<Rightarrow> 's \<Rightarrow> (nat option, string) result"
  so_delete :: "string \<Rightarrow> 's \<Rightarrow> (unit, string) result \<times> 's"

text \<open>\<open>S3Store\<close>: what it makes of the answers of an operation on the bucket, whose state is \<open>'s\<close>.\<close>

definition s3_store :: "(storage_op \<Rightarrow> 's \<Rightarrow> storage_result \<times> 's) \<Rightarrow> 's store" where
  "s3_store execute =
     \<lparr>so_put = (\<lambda>key bytes s. let (r, s') = execute (SPut key bytes) s in
                 (case r of SError e \<Rightarrow> Err e | _ \<Rightarrow> Ok (), s')),
      so_get = (\<lambda>key s. case fst (execute (SGet key) s) of
                 SBody body \<Rightarrow> Ok body | SError e \<Rightarrow> Err e | _ \<Rightarrow> Err ''unexpected S3 result''),
      so_size = (\<lambda>key s. case fst (execute (SHead key) s) of
                 SHeadInfo n _ \<Rightarrow> Ok (Some n)
               | SError e \<Rightarrow> if e = ''Object not found'' then Ok None else Err e
               | _ \<Rightarrow> Err ''unexpected S3 result''),
      so_delete = (\<lambda>key s. let (r, s') = execute (SDelete key) s in
                 (case r of SError e \<Rightarrow> Err e | _ \<Rightarrow> Ok (), s'))\<rparr>"

locale snapshot_store =
  fixes S :: "'s store"
    and stored :: "'s \<Rightarrow> string \<rightharpoonup> u8 list"
  assumes put_other: "k \<noteq> key \<Longrightarrow> stored (snd (so_put S key bytes s)) k = stored s k"
    and put_ok: "fst (so_put S key bytes s) = Ok () \<Longrightarrow> stored (snd (so_put S key bytes s)) key = Some bytes"
    and get_ok: "so_get S key s = Ok b \<Longrightarrow> b = stored s key"
    and delete_other: "k \<noteq> key \<Longrightarrow> stored (snd (so_delete S key s)) k = stored s k"

section \<open>The archive\<close>

record 's archive =
  ar_store :: 's
  ar_index :: pg_index

definition OBJECTS :: string where "OBJECTS = ''objects''"

definition parse_object_key :: "string \<Rightarrow> (string \<times> string) option" where
  "parse_object_key key =
     Option.bind (strip_prefix_str key OBJECTS)
       (\<lambda>rest. Option.bind (strip_prefix_str rest ''/'') (split_once_char (CHR ''/'')))"

definition archive_base :: "string \<Rightarrow> string" where
  "archive_base db =
     (case parse_object_key db of
        Some (namespace, object) \<Rightarrow> ''do/'' @ namespace @ ''/'' @ object @ ''/''
      | None \<Rightarrow> ''d1/'' @ db @ ''/'')"

definition archive_key :: "string \<Rightarrow> nat \<Rightarrow> nat \<Rightarrow> string" where
  "archive_key db epoch q = archive_base db @ show_nat epoch @ ''/'' @ show_nat q @ ''.sqlite.zst''"

fun drop_snapshots ::
  "'s store \<Rightarrow> index_ends \<Rightarrow> nat \<Rightarrow> snapshot list \<Rightarrow> 's archive \<Rightarrow> (unit, string) result \<times> 's archive" where
  "drop_snapshots S fl i [] A = (Ok (), A)"
| "drop_snapshots S fl i (old # olds) A =
     (let (r, ix) = ix_forget fl i (sn_database old) (sn_seq old) (ar_index A); A1 = A\<lparr>ar_index := ix\<rparr> in
      case r of
        Err e \<Rightarrow> (Err e, A1)
      | Ok _ \<Rightarrow>
          (let (d, st) = so_delete S (sn_key old) (ar_store A1); A2 = A1\<lparr>ar_store := st\<rparr> in
           case d of Err e \<Rightarrow> (Err e, A2) | Ok _ \<Rightarrow> drop_snapshots S fl (Suc i) olds A2))"

definition drop_old ::
  "'s store \<Rightarrow> index_ends \<Rightarrow> nat \<Rightarrow> string \<Rightarrow> 's archive \<Rightarrow> 's archive" where
  "drop_old S fl keep db A =
     (case ix_list fl db (ar_index A) of
        Err _ \<Rightarrow> A
      | Ok snapshots \<Rightarrow> snd (drop_snapshots S fl 0 (drop keep snapshots) A))"

definition show_size :: "nat option \<Rightarrow> string" where
  "show_size n = (case n of None \<Rightarrow> ''None'' | Some k \<Rightarrow> ''Some('' @ show_nat k @ '')'')"

definition new_snapshot :: "(u8 list \<Rightarrow> string) \<Rightarrow> string \<Rightarrow> nat \<Rightarrow> nat \<Rightarrow> u8 list \<Rightarrow> snapshot" where
  "new_snapshot sha db epoch now bytes =
     \<lparr>sn_database = db, sn_seq = now, sn_epoch = epoch, sn_key = archive_key db epoch now,
      sn_checksum = sha bytes, sn_size = length bytes\<rparr>"

definition save_snapshot ::
  "'s store \<Rightarrow> (u8 list \<Rightarrow> string) \<Rightarrow> nat \<Rightarrow> nat \<Rightarrow> nat \<Rightarrow> index_ends \<Rightarrow> string \<Rightarrow> u8 list \<Rightarrow> 's archive
   \<Rightarrow> (snapshot, string) result \<times> 's archive" where
  "save_snapshot S sha keep epoch now fl db bytes A =
     (let key = archive_key db epoch now;
          (put, st) = so_put S key bytes (ar_store A);
          A1 = A\<lparr>ar_store := st\<rparr>
      in case put of
           Err e \<Rightarrow> (Err e, A1)
         | Ok _ \<Rightarrow>
             (case so_size S key st of
                Err e \<Rightarrow> (Err e, A1)
              | Ok found \<Rightarrow>
                  if found \<noteq> Some (length bytes) then (Err (key @ '': stored size '' @ show_size found @ '', expected '' @ show_nat (length bytes)), A1)
                  else
                    (let sn = new_snapshot sha db epoch now bytes;
                         (rec, ix) = ix_record fl sn (ar_index A1);
                         A2 = A1\<lparr>ar_index := ix\<rparr>
                     in case rec of Err e \<Rightarrow> (Err e, A2) | Ok _ \<Rightarrow> (Ok sn, drop_old S fl keep db A2))))"

definition fetch_latest ::
  "'s store \<Rightarrow> (u8 list \<Rightarrow> string) \<Rightarrow> index_ends \<Rightarrow> string \<Rightarrow> 's archive \<Rightarrow> (u8 list option, string) result" where
  "fetch_latest S sha fl db A =
     and_then (ix_list fl db (ar_index A)) (\<lambda>snapshots.
       case snapshots of
         [] \<Rightarrow> Ok None
       | sn # _ \<Rightarrow>
           and_then (so_get S (sn_key sn) (ar_store A)) (\<lambda>got.
             case got of
               None \<Rightarrow> Err (sn_key sn @ '': missing from the archive'')
             | Some bytes \<Rightarrow>
                 if sha bytes \<noteq> sn_checksum sn then Err (sn_key sn @ '': checksum mismatch'')
                 else Ok (Some bytes)))"

definition forget_all ::
  "'s store \<Rightarrow> index_ends \<Rightarrow> string \<Rightarrow> 's archive \<Rightarrow> (unit, string) result \<times> 's archive" where
  "forget_all S fl db A =
     (case ix_list fl db (ar_index A) of
        Err e \<Rightarrow> (Err e, A)
      | Ok snapshots \<Rightarrow> drop_snapshots S fl 0 snapshots A)"

section \<open>Files\<close>

text \<open>SQLite and zstd are arguments; a write or a rename may fail, and a write that fails may leave a part behind.\<close>

record snapshot_crates =
  vacuum_into :: "u8 list \<Rightarrow> (u8 list, string) result"
  zstd_encode :: "u8 list \<Rightarrow> (u8 list, string) result"
  zstd_decode :: "u8 list \<Rightarrow> (u8 list, string) result"
  integrity_check :: "u8 list \<Rightarrow> (string, string) result"

type_synonym files = "string \<rightharpoonup> u8 list"

record file_ends =
  fe_write :: "(string \<times> u8 list option) option"
  fe_rename :: "string option"

definition take_snapshot :: "snapshot_crates \<Rightarrow> string \<Rightarrow> string \<Rightarrow> files \<Rightarrow> (u8 list, string) result \<times> files" where
  "take_snapshot Z path scratch fs =
     (let fs0 = fs(scratch := None) in
      (case fs0 path of
         None \<Rightarrow> Err ''open: unable to open database file''
       | Some database \<Rightarrow>
           (case vacuum_into Z database of
              Err e \<Rightarrow> Err (''VACUUM INTO: '' @ e)
            | Ok copy \<Rightarrow> (case zstd_encode Z copy of Err e \<Rightarrow> Err (''compress: '' @ e) | Ok bytes \<Rightarrow> Ok bytes)),
       fs0(scratch := None)))"

definition check_copy :: "snapshot_crates \<Rightarrow> u8 list \<Rightarrow> (unit, string) result" where
  "check_copy Z copy =
     (case integrity_check Z copy of
        Err e \<Rightarrow> Err e
      | Ok r \<Rightarrow> if r = ''ok'' then Ok () else Err (''integrity_check: '' @ r))"

definition restore_snapshot ::
  "snapshot_crates \<Rightarrow> file_ends \<Rightarrow> u8 list \<Rightarrow> string \<Rightarrow> string \<Rightarrow> files \<Rightarrow> (unit, string) result \<times> files" where
  "restore_snapshot Z io bytes path scratch fs =
     (case zstd_decode Z bytes of
        Err e \<Rightarrow> (Err (''decompress: '' @ e), fs)
      | Ok copy \<Rightarrow>
          (case fe_write io of
             Some (e, part) \<Rightarrow> (Err (''write: '' @ e), fs(scratch := part))
           | None \<Rightarrow>
               (case check_copy Z copy of
                  Err e \<Rightarrow> (Err e, fs(scratch := None))
                | Ok _ \<Rightarrow>
                    (case fe_rename io of
                       Some e \<Rightarrow> (Err (''rename: '' @ e), fs(scratch \<mapsto> copy))
                     | None \<Rightarrow> (Ok (), fs(scratch := None, path \<mapsto> copy))))))"

definition database_path :: "string \<Rightarrow> string" where
  "database_path db = db @ ''.sqlite''"

definition restore_if_missing ::
  "'s store \<Rightarrow> (u8 list \<Rightarrow> string) \<Rightarrow> snapshot_crates \<Rightarrow> index_ends \<Rightarrow> file_ends \<Rightarrow> string \<Rightarrow> 's archive option
   \<Rightarrow> files \<Rightarrow> (unit, string) result \<times> files" where
  "restore_if_missing S sha Z fl io db archive fs =
     (case archive of
        None \<Rightarrow> (Ok (), fs)
      | Some A \<Rightarrow>
          if fs (database_path db) \<noteq> None then (Ok (), fs)
          else (case fetch_latest S sha fl db A of
                  Err e \<Rightarrow> (Err e, fs)
                | Ok None \<Rightarrow> (Ok (), fs)
                | Ok (Some bytes) \<Rightarrow> restore_snapshot Z io bytes (database_path db) (db @ ''.restore.scratch'') fs))"

section \<open>A database between two snapshots\<close>

record handle_saves =
  hs_commits :: nat
  hs_saved :: nat

definition unsaved :: "handle_saves \<Rightarrow> bool" where
  "unsaved h \<longleftrightarrow> hs_commits h \<noteq> hs_saved h"

text \<open>The commits are counted before the copy; \<open>later\<close> more happen until it is saved.\<close>

definition snapshot_database ::
  "'s store \<Rightarrow> (u8 list \<Rightarrow> string) \<Rightarrow> snapshot_crates \<Rightarrow> nat \<Rightarrow> nat \<Rightarrow> nat \<Rightarrow> index_ends \<Rightarrow> string \<Rightarrow> nat
   \<Rightarrow> handle_saves \<Rightarrow> 's archive \<Rightarrow> files \<Rightarrow> (unit, string) result \<times> handle_saves \<times> 's archive \<times> files" where
  "snapshot_database S sha Z keep epoch now fl db later h A fs =
     (let covered = hs_commits h;
          (taken, fs') = take_snapshot Z (database_path db) (db @ ''.snapshot.scratch'') fs;
          h' = h\<lparr>hs_commits := hs_commits h + later\<rparr>
      in case taken of
           Err e \<Rightarrow> (Err e, h', A, fs')
         | Ok bytes \<Rightarrow>
             (let (saved, A') = save_snapshot S sha keep epoch now fl db bytes A in
              case saved of
                Err e \<Rightarrow> (Err e, h', A', fs')
              | Ok _ \<Rightarrow> (Ok (), h'\<lparr>hs_saved := covered\<rparr>, A', fs')))"

lemma stmt_result_Ok [simp]: "stmt_result e a = Ok b \<longleftrightarrow> e = Answered \<and> a = b"
  by (cases e) auto

section \<open>The newest row\<close>

definition rows_of :: "string \<Rightarrow> pg_index \<Rightarrow> snapshot set" where
  "rows_of db ix = {r \<in> set (ix_rows ix). sn_database r = db}"

definition newest :: "string \<Rightarrow> pg_index \<Rightarrow> snapshot \<Rightarrow> bool" where
  "newest db ix r \<longleftrightarrow> r \<in> rows_of db ix \<and> (\<forall>r' \<in> rows_of db ix. sn_seq r' \<le> sn_seq r)"

text \<open>The rows of a database have the keys \<open>save\<close> gives, and a number of their own.\<close>

definition wf_rows :: "string \<Rightarrow> pg_index \<Rightarrow> bool" where
  "wf_rows db ix \<longleftrightarrow>
     (\<forall>r \<in> rows_of db ix. sn_key r = archive_key db (sn_epoch r) (sn_seq r)) 
     \<and> distinct (map sn_seq (filter (\<lambda>r. sn_database r = db) (ix_rows ix)))"

lemma wf_rows_inj: "wf_rows db ix \<Longrightarrow> inj_on sn_seq (rows_of db ix)"
  by (auto simp: wf_rows_def rows_of_def distinct_map)

lemma set_newest_first: "set (newest_first db ix) = rows_of db ix"
  by (auto simp: newest_first_def rows_of_def)

lemma hd_newest_first:
  assumes "newest_first db ix = r # rs"
  shows "newest db ix r"
proof -
  define xs where "xs = sort_key sn_seq (filter (\<lambda>r. sn_database r = db) (ix_rows ix))"
  have xs: "xs = rev rs @ [r]" using assms by (simp add: newest_first_def xs_def flip: rev_eq_Cons_iff)
  have "sorted (map sn_seq xs)" by (simp add: xs_def)
  then have "\<forall>r' \<in> set xs. sn_seq r' \<le> sn_seq r" by (auto simp: xs sorted_append)
  moreover have "set xs = rows_of db ix" by (simp add: xs_def rows_of_def)
  ultimately show ?thesis using xs by (auto simp: newest_def)
qed

lemma newest_unique:
  assumes "inj_on sn_seq (rows_of db ix)" and "newest db ix r" and "newest db ix r'"
  shows "r = r'"
  using assms by (meson inj_onD newest_def order_antisym)

lemma newest_is_hd:
  assumes "inj_on sn_seq (rows_of db ix)" and "newest db ix r"
  shows "\<exists>rs. newest_first db ix = r # rs"
proof -
  obtain r' rs where "newest_first db ix = r' # rs"
    using assms(2) set_newest_first [of db ix] by (cases "newest_first db ix") (auto simp: newest_def)
  then show ?thesis using newest_unique [OF assms(1) hd_newest_first assms(2)] by blast
qed

section \<open>Keys\<close>

lemma is_digit_slash: "list_all is_digit s \<Longrightarrow> CHR ''/'' \<notin> set s"
  by (auto simp: list_all_iff is_digit_def)

lemma show_nat_inj: "show_nat m = show_nat n \<Longrightarrow> m = n"
  by (metis show_nat_digits)

lemma slash_split:
  "CHR ''/'' \<notin> set a \<Longrightarrow> CHR ''/'' \<notin> set b \<Longrightarrow> a @ CHR ''/'' # s = b @ CHR ''/'' # t \<Longrightarrow> a = b \<and> s = t"
proof (induction a arbitrary: b)
  case Nil
  then show ?case by (cases b) auto
next
  case (Cons x a)
  then show ?case by (cases b) auto
qed

lemma archive_key_inj:
  assumes "archive_key db e q = archive_key db e' q'"
  shows "e = e' \<and> q = q'"
proof -
  have "show_nat e @ CHR ''/'' # show_nat q @ ''.sqlite.zst'' = show_nat e' @ CHR ''/'' # show_nat q' @ ''.sqlite.zst''"
    using assms by (simp add: archive_key_def)
  then have "show_nat e = show_nat e' \<and> show_nat q @ ''.sqlite.zst'' = show_nat q' @ ''.sqlite.zst''"
    by (intro slash_split is_digit_slash) (use show_nat_digits in blast)+
  then show ?thesis using show_nat_inj by simp
qed

section \<open>Dropping old snapshots\<close>

text \<open>The object behind the newest row of a database, which a restore reads.\<close>

definition latest_object :: "('s \<Rightarrow> string \<rightharpoonup> u8 list) \<Rightarrow> string \<Rightarrow> 's archive \<Rightarrow> u8 list option" where
  "latest_object stored db A =
     (case newest_first db (ar_index A) of [] \<Rightarrow> None | sn # _ \<Rightarrow> stored (ar_store A) (sn_key sn))"

context snapshot_store
begin

lemma drop_snapshots_frame:
  "drop_snapshots S fl i olds A = (r, A') \<Longrightarrow>
     set (ix_rows (ar_index A')) \<subseteq> set (ix_rows (ar_index A))
     \<and> (\<forall>x \<in> set (ix_rows (ar_index A)).
          (\<forall>old \<in> set olds. \<not> (sn_database x = sn_database old \<and> sn_seq x = sn_seq old)) \<longrightarrow> x \<in> set (ix_rows (ar_index A')))
     \<and> (\<forall>k. (\<forall>old \<in> set olds. sn_key old \<noteq> k) \<longrightarrow> stored (ar_store A') k = stored (ar_store A) k)"
proof (induction olds arbitrary: i A)
  case Nil
  then show ?case by simp
next
  case (Cons old olds)
  define A1 where "A1 = A\<lparr>ar_index := snd (ix_forget fl i (sn_database old) (sn_seq old) (ar_index A))\<rparr>"
  define A2 where "A2 = A1\<lparr>ar_store := snd (so_delete S (sn_key old) (ar_store A1))\<rparr>"
  consider "A' = A1" | "A' = A2" | "drop_snapshots S fl (Suc i) olds A2 = (r, A')"
    using Cons(2) by (auto simp: A1_def A2_def split_def Let_def split: result.splits)
  moreover have "set (ix_rows (ar_index A1)) \<subseteq> set (ix_rows (ar_index A))" "ar_index A2 = ar_index A1" "ar_store A1 = ar_store A"
    by (cases "fl (Ix_Forget i)"; auto simp: A1_def A2_def ix_forget_def)+
  moreover have "x \<in> set (ix_rows (ar_index A1))"
    if "x \<in> set (ix_rows (ar_index A))" "\<not> (sn_database x = sn_database old \<and> sn_seq x = sn_seq old)" for x
    using that by (cases "fl (Ix_Forget i)") (auto simp: A1_def ix_forget_def)
  moreover have "stored (ar_store A2) k = stored (ar_store A) k" if "sn_key old \<noteq> k" for k
    using delete_other that \<open>ar_store A1 = ar_store A\<close> by (auto simp: A2_def)
  ultimately show ?case using Cons(1) [of "Suc i" A2] by cases auto
qed

lemma latest_object_newest:
  assumes "inj_on sn_seq (rows_of db (ar_index A))" and "newest db (ar_index A) r"
  shows "latest_object stored db A = stored (ar_store A) (sn_key r)"
  using newest_is_hd [OF assms] by (auto simp: latest_object_def)

lemma drop_old_keeps_newest:
  assumes wf: "wf_rows db (ar_index A)" and r: "newest db (ar_index A) r" and keep: "1 \<le> keep"
  shows "newest db (ar_index (drop_old S fl keep db A)) r"
    and "stored (ar_store (drop_old S fl keep db A)) (sn_key r) = stored (ar_store A) (sn_key r)"
    and "rows_of db (ar_index (drop_old S fl keep db A)) \<subseteq> rows_of db (ar_index A)"
proof -
  obtain rs where rs: "newest_first db (ar_index A) = r # rs" using newest_is_hd [OF wf_rows_inj [OF wf] r] by blast
  define A' where "A' = drop_old S fl keep db A"
  have dist: "distinct (map sn_seq (r # rs))"
    using wf by (simp add: rs [symmetric] newest_first_def wf_rows_def distinct_map)
  have sub: "set (drop keep (r # rs)) \<subseteq> set rs"
    using keep set_drop_subset [of "keep - 1" rs] by (cases keep) auto
  have other: "sn_seq old \<noteq> sn_seq r" if "old \<in> set (drop keep (r # rs))" for old
  proof -
    have "old \<in> set rs" using that sub by blast
    then show ?thesis using dist by (metis distinct.simps(2) image_eqI list.set_map list.simps(9))
  qed
  have key: "sn_key old \<noteq> sn_key r" if "old \<in> set (drop keep (r # rs))" for old
  proof -
    have "old \<in> rows_of db (ar_index A)" "r \<in> rows_of db (ar_index A)"
      using that set_drop_subset [of keep "r # rs"] rs set_newest_first [of db "ar_index A"] by auto
    then show ?thesis using other [OF that] wf archive_key_inj by (metis wf_rows_def)
  qed
  obtain q where "drop_snapshots S fl 0 (drop keep (r # rs)) A = (q, A') \<or> A' = A"
    by (cases "fl Ix_List") (auto simp: A'_def drop_old_def ix_list_def rs prod_eq_iff)
  then have "set (ix_rows (ar_index A')) \<subseteq> set (ix_rows (ar_index A))
      \<and> r \<in> set (ix_rows (ar_index A')) \<and> stored (ar_store A') (sn_key r) = stored (ar_store A) (sn_key r)"
  proof
    assume "drop_snapshots S fl 0 (drop keep (r # rs)) A = (q, A')"
    note frame = drop_snapshots_frame [OF this]
    have "r \<in> set (ix_rows (ar_index A))" using r by (simp add: newest_def rows_of_def)
    moreover have "\<forall>old \<in> set (drop keep (r # rs)). \<not> (sn_database r = sn_database old \<and> sn_seq r = sn_seq old)"
      using other by fastforce
    ultimately have "r \<in> set (ix_rows (ar_index A'))" using frame by blast
    then show ?thesis using frame key by blast
  qed (use r in \<open>simp add: newest_def rows_of_def\<close>)
  then show "newest db (ar_index (drop_old S fl keep db A)) r"
    and "stored (ar_store (drop_old S fl keep db A)) (sn_key r) = stored (ar_store A) (sn_key r)"
    and "rows_of db (ar_index (drop_old S fl keep db A)) \<subseteq> rows_of db (ar_index A)"
    using r by (auto simp: A'_def newest_def rows_of_def)
qed

lemma latest_object_put:
  assumes "\<forall>r \<in> rows_of db (ar_index A). sn_key r \<noteq> key"
  shows "latest_object stored db (A\<lparr>ar_store := snd (so_put S key bytes (ar_store A))\<rparr>) = latest_object stored db A"
proof (cases "newest_first db (ar_index A)")
  case (Cons r rs)
  then have "sn_key r \<noteq> key" using assms set_newest_first [of db "ar_index A"] by auto
  then show ?thesis using Cons put_other by (simp add: latest_object_def)
qed (simp add: latest_object_def)

lemma fetch_latest_Ok:
  "fetch_latest S sha fl db A = Ok b \<Longrightarrow> b = latest_object stored db A"
  using get_ok
  by (cases "newest_first db (ar_index A)")
     (auto simp: fetch_latest_def ix_list_def latest_object_def split: option.splits if_splits)

text \<open>A row more, and the old ones dropped.\<close>

lemma latest_after_row:
  assumes wf: "wf_rows db (ar_index A)" and fresh: "sn_seq sn \<notin> sn_seq ` rows_of db (ar_index A)"
    and db: "sn_database sn = db" and key: "sn_key sn = archive_key db (sn_epoch sn) (sn_seq sn)" and keep: "1 \<le> keep"
    and A2: "A2 = A\<lparr>ar_index := (ar_index A)\<lparr>ix_rows := ix_rows (ar_index A) @ [sn]\<rparr>\<rparr>"
    and A': "A' = A2 \<or> A' = drop_old S fl keep db A2"
  shows "latest_object stored db A' =
     (if \<forall>r \<in> rows_of db (ar_index A). sn_seq r < sn_seq sn then stored (ar_store A) (sn_key sn)
      else latest_object stored db A)"
    and "\<forall>r \<in> rows_of db (ar_index A). sn_seq r < sn_seq sn \<Longrightarrow> \<exists>rs. newest_first db (ar_index A') = sn # rs"
proof -
  have rows: "rows_of db (ar_index A2) = insert sn (rows_of db (ar_index A))" by (auto simp: A2 rows_of_def db)
  have wf2: "wf_rows db (ar_index A2)"
    using wf fresh db key by (auto simp: A2 wf_rows_def rows_of_def)
  have newest: "latest_object stored db A' = stored (ar_store A) (sn_key r) \<and> (\<exists>rs. newest_first db (ar_index A') = r # rs)"
    if r: "newest db (ar_index A2) r" for r
  proof -
    have "newest db (ar_index A') r" "stored (ar_store A') (sn_key r) = stored (ar_store A2) (sn_key r)"
      "rows_of db (ar_index A') \<subseteq> rows_of db (ar_index A2)"
      using A' r drop_old_keeps_newest [OF wf2 r keep] by auto
    moreover have "inj_on sn_seq (rows_of db (ar_index A'))"
      using inj_on_subset [OF wf_rows_inj [OF wf2] calculation(3)] .
    ultimately show ?thesis using latest_object_newest newest_is_hd by (simp add: A2)
  qed
  have new: "newest db (ar_index A2) sn" if "\<forall>r \<in> rows_of db (ar_index A). sn_seq r < sn_seq sn"
    using that by (auto simp: newest_def rows)
  have old: "latest_object stored db A' = latest_object stored db A"
    if late: "\<not> (\<forall>r \<in> rows_of db (ar_index A). sn_seq r < sn_seq sn)"
  proof -
    obtain r rs where "newest_first db (ar_index A) = r # rs"
      using late set_newest_first [of db "ar_index A"] by (cases "newest_first db (ar_index A)") auto
    then have r: "newest db (ar_index A) r" by (rule hd_newest_first)
    then have "sn_seq sn \<le> sn_seq r" using late unfolding newest_def by force
    then have "newest db (ar_index A2) r" using r by (auto simp: newest_def rows)
    then show ?thesis using newest latest_object_newest [OF wf_rows_inj [OF wf] r] by simp
  qed
  show "latest_object stored db A' =
     (if \<forall>r \<in> rows_of db (ar_index A). sn_seq r < sn_seq sn then stored (ar_store A) (sn_key sn)
      else latest_object stored db A)"
    using newest [OF new] old by auto
  show "\<forall>r \<in> rows_of db (ar_index A). sn_seq r < sn_seq sn \<Longrightarrow> \<exists>rs. newest_first db (ar_index A') = sn # rs"
    using newest [OF new] by blast
qed

lemma save_snapshot_eq:
  assumes "key = archive_key db epoch now" and "sn = new_snapshot sha db epoch now bytes"
    and "A1 = A\<lparr>ar_store := snd (so_put S key bytes (ar_store A))\<rparr>"
    and "A2 = A1\<lparr>ar_index := snd (ix_record fl sn (ar_index A))\<rparr>"
  shows "save_snapshot S sha keep epoch now fl db bytes A =
     (case fst (so_put S key bytes (ar_store A)) of
        Err e \<Rightarrow> (Err e, A1)
      | Ok _ \<Rightarrow>
          (case so_size S key (ar_store A1) of
             Err e \<Rightarrow> (Err e, A1)
           | Ok found \<Rightarrow>
               if found \<noteq> Some (length bytes)
               then (Err (key @ '': stored size '' @ show_size found @ '', expected '' @ show_nat (length bytes)), A1)
               else case fst (ix_record fl sn (ar_index A)) of
                      Err e \<Rightarrow> (Err e, A2) | Ok _ \<Rightarrow> (Ok sn, drop_old S fl keep db A2)))"
  by (auto simp: assms save_snapshot_def split_def Let_def split: result.splits)

lemma ix_record_cases:
  obtains (skipped) m where "ix_record fl sn ix = (Err m, ix)"
    | (lost) m where "ix_record fl sn ix = (Err m, ix\<lparr>ix_rows := ix_rows ix @ [sn]\<rparr>)"
    | (inserted) "ix_record fl sn ix = (Ok (), ix\<lparr>ix_rows := ix_rows ix @ [sn]\<rparr>)"
  by (cases "fl Ix_Record"; cases "sn_epoch sn = ix_latest_epoch ix") (auto simp: ix_record_def)

lemma save_snapshot_cases:
  assumes key: "key = archive_key db epoch now" and sn: "sn = new_snapshot sha db epoch now bytes"
    and A1: "A1 = A\<lparr>ar_store := snd (so_put S key bytes (ar_store A))\<rparr>"
    and A2: "A2 = A1\<lparr>ar_index := (ar_index A)\<lparr>ix_rows := ix_rows (ar_index A) @ [sn]\<rparr>\<rparr>"
    and save: "save_snapshot S sha keep epoch now fl db bytes A = (res, A')"
  obtains (unlisted) "\<not> is_ok res" and "A' = A1"
    | (listed) "fst (so_put S key bytes (ar_store A)) = Ok ()" and "A' = (if is_ok res then drop_old S fl keep db A2 else A2)"
proof (cases "fst (so_put S key bytes (ar_store A)) = Ok () \<and> so_size S key (ar_store A1) = Ok (Some (length bytes))")
  case True
  have A1': "A1\<lparr>ar_index := ar_index A\<rparr> = A1" by (cases A) (simp add: A1)
  show thesis
    by (rule ix_record_cases [of fl sn "ar_index A"])
       (use save True unlisted listed A1' in \<open>auto simp: save_snapshot_eq [OF key sn A1 refl] A2\<close>)
next
  case False
  then have "\<not> is_ok res \<and> A' = A1"
    using save by (auto simp: save_snapshot_eq [OF key sn A1 refl] split: result.splits if_splits)
  then show thesis using unlisted by blast
qed

lemma restored_file:
  assumes "restore_if_missing S sha Z fl io db (Some A) fs = (r, fs')" and "fs (database_path db) = None"
    and "fs' (database_path db) = Some copy"
  shows "\<exists>b. latest_object stored db A = Some b \<and> zstd_decode Z b = Ok copy"
proof -
  have path: "database_path db \<noteq> db @ ''.restore.scratch''" by (simp add: database_path_def)
  obtain b where b: "fetch_latest S sha fl db A = Ok (Some b)"
    "restore_snapshot Z io b (database_path db) (db @ ''.restore.scratch'') fs = (r, fs')"
    using assms by (auto simp: restore_if_missing_def split: result.splits option.splits)
  then have "zstd_decode Z b = Ok copy"
    using assms(2,3) path by (auto simp: restore_snapshot_def split: result.splits option.splits)
  then show ?thesis using fetch_latest_Ok [OF b(1), symmetric] by simp
qed

lemma restored_whole:
  assumes "newest_first db (ar_index A) = sn # rs" and "sn_checksum sn = sha bytes" and "stored (ar_store A) (sn_key sn) = Some bytes"
    and "fl Ix_List = Answered" and "is_ok (so_get S (sn_key sn) (ar_store A))"
    and "fe_write io = None" and "fe_rename io = None" and "zstd_decode Z bytes = Ok copy" and "integrity_check Z copy = Ok ''ok''"
    and "fs (database_path db) = None"
  shows "restore_if_missing S sha Z fl io db (Some A) fs =
     (Ok (), fs(db @ ''.restore.scratch'' := None, database_path db \<mapsto> copy))"
proof -
  have "so_get S (sn_key sn) (ar_store A) = Ok (Some bytes)"
    using assms(3,5) get_ok by (metis is_ok_iff)
  then have "fetch_latest S sha fl db A = Ok (Some bytes)"
    using assms(1,2,4) by (simp add: fetch_latest_def ix_list_def)
  then show ?thesis using assms by (simp add: restore_if_missing_def restore_snapshot_def check_copy_def)
qed

lemma latest_after_save:
  assumes wf: "wf_rows db (ar_index A)" and fresh: "now \<notin> sn_seq ` rows_of db (ar_index A)" and keep: "1 \<le> keep"
    and save: "save_snapshot S sha keep epoch now fl db bytes A = (res, A')"
  shows "if is_ok res
     then latest_object stored db A' =
            (if \<forall>r \<in> rows_of db (ar_index A). sn_seq r < now then Some bytes else latest_object stored db A)
     else latest_object stored db A' \<in> {latest_object stored db A, Some bytes}"
    and "is_ok res \<Longrightarrow> \<forall>r \<in> rows_of db (ar_index A). sn_seq r < now \<Longrightarrow>
           \<exists>rs. newest_first db (ar_index A') = new_snapshot sha db epoch now bytes # rs"
proof -
  define key where "key = archive_key db epoch now"
  define sn where "sn = new_snapshot sha db epoch now bytes"
  define A1 where "A1 = A\<lparr>ar_store := snd (so_put S key bytes (ar_store A))\<rparr>"
  define A2 where "A2 = A1\<lparr>ar_index := (ar_index A)\<lparr>ix_rows := ix_rows (ar_index A) @ [sn]\<rparr>\<rparr>"
  have sns: "sn_seq sn = now" "sn_database sn = db" "sn_key sn = key" "sn_key sn = archive_key db (sn_epoch sn) (sn_seq sn)"
    by (simp_all add: sn_def new_snapshot_def key_def)
  have "\<forall>r \<in> rows_of db (ar_index A). sn_key r \<noteq> key"
    using wf fresh archive_key_inj unfolding wf_rows_def key_def by (metis imageI)
  then have A1: "latest_object stored db A1 = latest_object stored db A"
    unfolding A1_def by (rule latest_object_put)
  have idx: "ar_index A1 = ar_index A" by (simp add: A1_def)
  note row = latest_after_row [where A = A1 and sn = sn and db = db and keep = keep and A' = A' and fl = fl, unfolded idx sns,
      OF wf fresh refl sns(4) [unfolded sns] keep A2_def]
  from key_def sn_def A1_def A2_def save
  have "if is_ok res then latest_object stored db A' =
            (if \<forall>r \<in> rows_of db (ar_index A). sn_seq r < now then Some bytes else latest_object stored db A)
     else latest_object stored db A' \<in> {latest_object stored db A, Some bytes}"
  proof (cases rule: save_snapshot_cases)
    case unlisted
    then show ?thesis using A1 by simp
  next
    case listed
    then have "stored (ar_store A1) key = Some bytes" using put_ok by (simp add: A1_def)
    then show ?thesis using row(1) listed(2) A1 by (auto split: if_splits)
  qed
  then show "if is_ok res
     then latest_object stored db A' =
            (if \<forall>r \<in> rows_of db (ar_index A). sn_seq r < now then Some bytes else latest_object stored db A)
     else latest_object stored db A' \<in> {latest_object stored db A, Some bytes}" .
  show "\<exists>rs. newest_first db (ar_index A') = new_snapshot sha db epoch now bytes # rs"
    if "is_ok res" "\<forall>r \<in> rows_of db (ar_index A). sn_seq r < now"
    using key_def sn_def A1_def A2_def save
  proof (cases rule: save_snapshot_cases)
    case listed
    then show ?thesis using row(2) that by (simp add: sn_def)
  qed (use that in simp)
qed

lemma restored_after_save:
  assumes "wf_rows db (ar_index A)" and "now \<notin> sn_seq ` rows_of db (ar_index A)" and "1 \<le> keep"
    and "save_snapshot S sha keep epoch now fl db bytes A = (res, A')"
    and ok: "is_ok res" "\<forall>r \<in> rows_of db (ar_index A). sn_seq r < now" "fl' Ix_List = Answered"
      "is_ok (so_get S (archive_key db epoch now) (ar_store A'))" "fe_write io = None" "fe_rename io = None"
      "lost (database_path db) = None" "zstd_decode Z bytes = Ok copy" "integrity_check Z copy = Ok ''ok''"
  shows "restore_if_missing S sha Z fl' io db (Some A') lost =
     (Ok (), lost(db @ ''.restore.scratch'' := None, database_path db \<mapsto> copy))"
proof -
  note after = latest_after_save [OF assms(1-4)]
  obtain rs where rs: "newest_first db (ar_index A') = new_snapshot sha db epoch now bytes # rs"
    using after(2) ok(1,2) by auto
  moreover have "stored (ar_store A') (archive_key db epoch now) = Some bytes"
    using after(1) ok(1,2) by (simp add: latest_object_def rs new_snapshot_def)
  ultimately show ?thesis
    using restored_whole [OF rs, of sha bytes] ok by (simp add: new_snapshot_def)
qed

end

section \<open>The bucket\<close>

text \<open>What an S3 bucket promises about the operations of \<open>Storage_Service\<close>, and that \<open>s3_store\<close> is a store over it.\<close>

locale s3_bucket =
  fixes execute :: "storage_op \<Rightarrow> 's \<Rightarrow> storage_result \<times> 's"
    and stored :: "'s \<Rightarrow> string \<rightharpoonup> u8 list"
  assumes put_leaves: "k \<noteq> key \<Longrightarrow> stored (snd (execute (SPut key bytes) s)) k = stored s k"
    and put_stores: "\<nexists>e. fst (execute (SPut key bytes) s) = SError e \<Longrightarrow> stored (snd (execute (SPut key bytes) s)) key = Some bytes"
    and get_reads: "fst (execute (SGet key) s) = SBody b \<Longrightarrow> b = stored s key"
    and delete_leaves: "k \<noteq> key \<Longrightarrow> stored (snd (execute (SDelete key) s)) k = stored s k"

sublocale s3_bucket \<subseteq> snapshot_store "s3_store execute" stored
proof
  show "stored (snd (so_put (s3_store execute) key bytes s)) k = stored s k" if "k \<noteq> key" for k key bytes s
    using put_leaves [OF that] by (simp add: s3_store_def split_def Let_def)
  show "stored (snd (so_put (s3_store execute) key bytes s)) key = Some bytes"
    if "fst (so_put (s3_store execute) key bytes s) = Ok ()" for key bytes s
    using that put_stores [of key bytes s] by (auto simp: s3_store_def split_def Let_def split: storage_result.splits)
  show "b = stored s key" if "so_get (s3_store execute) key s = Ok b" for key s b
    using that get_reads by (auto simp: s3_store_def split: storage_result.splits)
  show "stored (snd (so_delete (s3_store execute) key s)) k = stored s k" if "k \<noteq> key" for k key s
    using delete_leaves [OF that] by (simp add: s3_store_def split_def Let_def)
qed

definition bucket_execute :: "storage_op \<Rightarrow> (string \<rightharpoonup> u8 list) \<Rightarrow> storage_result \<times> (string \<rightharpoonup> u8 list)" where
  "bucket_execute op b =
     (case op of
        SPut key bytes \<Rightarrow> (SBody None, b(key \<mapsto> bytes))
      | SGet key \<Rightarrow> (SBody (b key), b)
      | SHead key \<Rightarrow> (case b key of Some v \<Rightarrow> SHeadInfo (length v) None | None \<Rightarrow> SError ''Object not found'', b)
      | SDelete key \<Rightarrow> (SBody None, b(key := None))
      | _ \<Rightarrow> (SError ''not used by the archive'', b))"

interpretation map_bucket: s3_bucket bucket_execute "\<lambda>b. b"
  by unfold_locales (auto simp: bucket_execute_def)

section \<open>Properties\<close>

text \<open>C16. A snapshot that is saved comes back. However the statements, the uploads and the files fail: when a snapshot pass
  succeeds, the object behind the newest row of the database is the copy it took, as long as the clock is
  ahead of the rows of the database, the commits counted before the copy are saved, and a restore
  of the missing file writes exactly the copy; when it fails, the previous snapshot stays the
  latest one, or the new one is whole. A file that a restore makes appear is always the whole decompressed object of
  the latest row. With a clock behind a row of the database the pass succeeds and the older
  snapshot stays the latest one.\<close>

theorem snapshot_restores:
  assumes store: "snapshot_store S stored" and wf: "wf_rows db (ar_index A)"
    and fresh: "now \<notin> sn_seq ` rows_of db (ar_index A)" and keep: "1 \<le> keep"
    and snap: "snapshot_database S sha Z keep epoch now fl db later h A fs = (res, h', A', fs')"
    and taken: "taken = fst (take_snapshot Z (database_path db) (db @ ''.snapshot.scratch'') fs)"
  shows "(is_ok res \<longrightarrow>
        hs_saved h' = hs_commits h \<and> is_ok taken
        \<and> latest_object stored db A' =
            (if \<forall>r \<in> rows_of db (ar_index A). sn_seq r < now then ok_of taken else latest_object stored db A))
    \<and> (\<not> is_ok res \<longrightarrow>
        hs_saved h' = hs_saved h \<and> latest_object stored db A' \<in> {latest_object stored db A, ok_of taken})
    \<and> (lost (database_path db) = None \<longrightarrow>
        snd (restore_if_missing S sha Z fl' io db (Some A') lost) (database_path db) = Some f \<longrightarrow>
        (\<exists>b. latest_object stored db A' = Some b \<and> zstd_decode Z b = Ok f))
    \<and> (is_ok res \<longrightarrow> (\<forall>r \<in> rows_of db (ar_index A). sn_seq r < now) \<longrightarrow>
        fl' Ix_List = Answered \<longrightarrow> is_ok (so_get S (archive_key db epoch now) (ar_store A')) \<longrightarrow>
        fe_write io = None \<longrightarrow> fe_rename io = None \<longrightarrow> lost (database_path db) = None \<longrightarrow>
        fs (database_path db) = Some database \<longrightarrow> vacuum_into Z database = Ok copy \<longrightarrow>
        (\<forall>bytes. zstd_encode Z copy = Ok bytes \<longrightarrow> zstd_decode Z bytes = Ok copy) \<longrightarrow>
        integrity_check Z copy = Ok ''ok'' \<longrightarrow>
        restore_if_missing S sha Z fl' io db (Some A') lost =
          (Ok (), lost(db @ ''.restore.scratch'' := None, database_path db \<mapsto> copy)))"
proof (cases taken)
  case (Err e)
  then have "\<not> is_ok res" "hs_saved h' = hs_saved h" "A' = A"
    using snap taken by (auto simp: snapshot_database_def Let_def split_def)
  then show ?thesis using snapshot_store.restored_file [OF store] by (auto simp: prod_eq_iff)
next
  case (Ok bytes)
  define saved where "saved = save_snapshot S sha keep epoch now fl db bytes A"
  have save: "save_snapshot S sha keep epoch now fl db bytes A = (fst saved, A')"
    and res: "is_ok res = is_ok (fst saved)" "hs_saved h' = (if is_ok res then hs_commits h else hs_saved h)"
    using snap taken Ok by (auto simp: snapshot_database_def Let_def split_def saved_def prod_eq_iff split: result.splits)
  note after = snapshot_store.latest_after_save [OF store wf fresh keep save]
  have appears: "\<exists>b. latest_object stored db A' = Some b \<and> zstd_decode Z b = Ok f"
    if "lost (database_path db) = None"
      "snd (restore_if_missing S sha Z fl' io db (Some A') lost) (database_path db) = Some f"
    using snapshot_store.restored_file [OF store surjective_pairing that] .
  have whole: "restore_if_missing S sha Z fl' io db (Some A') lost =
      (Ok (), lost(db @ ''.restore.scratch'' := None, database_path db \<mapsto> copy))"
    if ok: "is_ok res" "\<forall>r \<in> rows_of db (ar_index A). sn_seq r < now" "fl' Ix_List = Answered"
      "is_ok (so_get S (archive_key db epoch now) (ar_store A'))" "fe_write io = None" "fe_rename io = None"
      "lost (database_path db) = None" "fs (database_path db) = Some database" "vacuum_into Z database = Ok copy"
      "\<forall>bytes. zstd_encode Z copy = Ok bytes \<longrightarrow> zstd_decode Z bytes = Ok copy" "integrity_check Z copy = Ok ''ok''"
  proof -
    have "database_path db \<noteq> db @ ''.snapshot.scratch''" by (simp add: database_path_def)
    then have "zstd_decode Z bytes = Ok copy"
      using Ok taken ok(8-10) by (auto simp: take_snapshot_def Let_def split: result.splits)
    then show ?thesis
      using snapshot_store.restored_after_save [OF store wf fresh keep save] ok res(1) by simp
  qed
  show ?thesis
    using after(1) res appears whole Ok by (auto split: if_splits)
qed

definition demo_zstd :: snapshot_crates where
  "demo_zstd = \<lparr>vacuum_into = Ok, zstd_encode = (\<lambda>b. Ok (0 # b)), zstd_decode = (\<lambda>b. Ok (tl b)), integrity_check = (\<lambda>_. Ok ''ok'')\<rparr>"

definition demo_archive :: "(string \<rightharpoonup> u8 list) archive" where
  "demo_archive = \<lparr>ar_store = Map.empty, ar_index = \<lparr>ix_rows = [], ix_latest_epoch = 1\<rparr>\<rparr>"

definition demo_pass where
  "demo_pass = snapshot_database (s3_store bucket_execute) (\<lambda>_. ''sha'') demo_zstd 3 1 7 (\<lambda>_. Answered) ''x'' 0
     \<lparr>hs_commits = 4, hs_saved = 0\<rparr> demo_archive [database_path ''x'' \<mapsto> [8, 9]]"

theorem snapshot_restores_witness:
  "\<exists>h A fs. demo_pass = (Ok (), h, A, fs) \<and> hs_saved h = 4
     \<and> snd (restore_if_missing (s3_store bucket_execute) (\<lambda>_. ''sha'') demo_zstd (\<lambda>_. Answered)
              \<lparr>fe_write = None, fe_rename = None\<rparr> ''x'' (Some A) Map.empty) (database_path ''x'') = Some [8, 9]"
proof -
  let ?S = "s3_store bucket_execute"
  obtain h A fs where pass: "demo_pass = (Ok (), h, A, fs)"
    and get: "is_ok (so_get ?S (archive_key ''x'' 1 7) (ar_store A))"
    by (auto simp: demo_pass_def snapshot_database_def take_snapshot_def database_path_def demo_zstd_def
        save_snapshot_def s3_store_def bucket_execute_def ix_record_def new_snapshot_def demo_archive_def
        drop_old_def ix_list_def newest_first_def Let_def)
  have wf: "wf_rows ''x'' (ar_index demo_archive)" "7 \<notin> sn_seq ` rows_of ''x'' (ar_index demo_archive)"
    "\<forall>r \<in> rows_of ''x'' (ar_index demo_archive). sn_seq r < 7"
    by (simp_all add: wf_rows_def rows_of_def demo_archive_def)
  have keep: "(1::nat) \<le> 3" by simp
  note claim = snapshot_restores [OF map_bucket.snapshot_store_axioms wf(1,2) keep pass [unfolded demo_pass_def] refl,
      where fl' = "\<lambda>_. Answered" and io = "\<lparr>fe_write = None, fe_rename = None\<rparr>" and lost = Map.empty
        and database = "[8, 9]" and copy = "[8, 9]"]
  have "hs_saved h = 4" using claim by simp
  moreover have "restore_if_missing ?S (\<lambda>_. ''sha'') demo_zstd (\<lambda>_. Answered) \<lparr>fe_write = None, fe_rename = None\<rparr> ''x'' (Some A) Map.empty
      = (Ok (), [database_path ''x'' \<mapsto> [8, 9]])"
    using claim wf(3) get by (simp add: demo_zstd_def)
  ultimately show ?thesis using pass by (intro exI [of _ h] exI [of _ A] exI [of _ fs]) simp
qed

end
