(* ===== verification/D1_Service.thy ===== *)
theory D1_Service
  imports D1_Archive Object_Storage "HOL-Library.AList"
begin

text \<open>
  \<open>src/d1/mod.rs\<close>: the databases of D1 and the files of Durable Objects. Which databases are open and which
  entry makes room for another, the space a namespace uses, what a call meets on its way to the file, and the queue of one database as a
  machine: the calls enter, wait for the connection, run one at a time and leave, and any of them
  may be dropped by its caller.
\<close>

section \<open>Keys of objects\<close>

definition hex_lower :: "char \<Rightarrow> bool" where
  "hex_lower c \<longleftrightarrow> is_digit c \<or> c \<in> set ''abcdef''"

definition d1_object_key :: "(string \<Rightarrow> string option) \<Rightarrow> string \<Rightarrow> string \<Rightarrow> string option" where
  "d1_object_key parse_uuid namespace object =
     Option.bind (parse_uuid namespace)
       (\<lambda>u. if length object = 64 \<and> list_all hex_lower object then Some (OBJECTS @ ''/'' @ u @ ''/'' @ object) else None)"

section \<open>Results\<close>

datatype d1_error_kind = Kind_Sql | Kind_Type | Kind_Range | Kind_Interrupted | Kind_Overloaded | Kind_Unavailable

datatype d1_answer = D1_Answer | D1_Failed d1_error_kind string

datatype job_done = Done_D1 d1_answer | Done_Object object_storage_result

definition internal_error :: d1_answer where
  "internal_error = D1_Failed Kind_Unavailable ''internal error''"

definition d1_result :: "job_done \<Rightarrow> d1_answer" where
  "d1_result d = (case d of Done_D1 r \<Rightarrow> r | Done_Object _ \<Rightarrow> internal_error)"

definition object_result :: "job_done \<Rightarrow> object_storage_result" where
  "object_result d =
     (case d of
        Done_Object r \<Rightarrow> r
      | Done_D1 (D1_Failed _ m) \<Rightarrow> Storage_Error m
      | Done_D1 D1_Answer \<Rightarrow> Storage_Error ''internal error'')"

definition outcome :: "job_done \<Rightarrow> string" where
  "outcome d =
     (case d of
        Done_Object (Storage_Error _) \<Rightarrow> ''object_error''
      | Done_Object _ \<Rightarrow> ''ok''
      | Done_D1 (D1_Failed kind _) \<Rightarrow>
          (case kind of
             Kind_Sql \<Rightarrow> ''sql'' | Kind_Type \<Rightarrow> ''type'' | Kind_Range \<Rightarrow> ''range'' | Kind_Interrupted \<Rightarrow> ''interrupted''
           | Kind_Overloaded \<Rightarrow> ''overloaded'' | Kind_Unavailable \<Rightarrow> ''unavailable'')
      | Done_D1 D1_Answer \<Rightarrow> ''ok'')"

definition object_storage ::
  "(string \<Rightarrow> string option) \<Rightarrow> (string \<Rightarrow> object_job \<Rightarrow> job_done) \<Rightarrow> string \<Rightarrow> string \<Rightarrow> object_storage_op \<Rightarrow> object_storage_result" where
  "object_storage parse_uuid submit namespace object op =
     (case d1_object_key parse_uuid namespace object of
        None \<Rightarrow> Storage_Error ''not the storage of an object''
      | Some key \<Rightarrow> object_result (submit key (Job_Object op)))"

definition service_clear_alarm ::
  "(string \<Rightarrow> string option) \<Rightarrow> (string \<Rightarrow> object_job \<Rightarrow> job_done) \<Rightarrow> string \<Rightarrow> string \<Rightarrow> int \<Rightarrow> object_storage_result" where
  "service_clear_alarm parse_uuid submit namespace object at =
     (case d1_object_key parse_uuid namespace object of
        None \<Rightarrow> Storage_Error ''not the storage of an object''
      | Some key \<Rightarrow> object_result (submit key (Job_ClearAlarm at)))"

definition submit_database ::
  "(string \<Rightarrow> string option) \<Rightarrow> (string \<Rightarrow> 'j \<Rightarrow> job_done) \<Rightarrow> string \<Rightarrow> 'j \<Rightarrow> job_done" where
  "submit_database parse_uuid submit database job =
     (case parse_uuid database of
        None \<Rightarrow> Done_D1 (D1_Failed Kind_Unavailable ''the binding does not name a database'')
      | Some u \<Rightarrow> submit u job)"

section \<open>Space\<close>

record usage =
  us_objects :: "(string \<times> nat) list"
  us_total :: nat

definition usage_default :: usage where
  "usage_default = \<lparr>us_objects = [], us_total = 0\<rparr>"

definition usage_set :: "string \<Rightarrow> nat \<Rightarrow> usage \<Rightarrow> usage" where
  "usage_set object bytes u =
     \<lparr>us_objects = AList.update object bytes (us_objects u),
      us_total = us_total u - (case map_of (us_objects u) object of None \<Rightarrow> 0 | Some old \<Rightarrow> old) + bytes\<rparr>"

definition file_object :: "string \<Rightarrow> string option" where
  "file_object name =
     (case strip_suffix_str name ''.sqlite'' of Some i \<Rightarrow> Some i | None \<Rightarrow> strip_suffix_str name ''.sqlite-wal'')"

definition scan_file :: "usage \<Rightarrow> string \<times> nat \<Rightarrow> usage" where
  "scan_file u f =
     (case file_object (fst f) of
        None \<Rightarrow> u
      | Some object \<Rightarrow>
          usage_set object ((case map_of (us_objects u) object of None \<Rightarrow> 0 | Some known \<Rightarrow> known) + snd f) u)"

definition scan :: "(string \<times> nat) list \<Rightarrow> usage" where
  "scan files = foldl scan_file usage_default files"

definition full_reason :: "nat \<Rightarrow> usage \<Rightarrow> string option" where
  "full_reason limit u =
     (if us_total u \<ge> limit
      then Some (''the objects of the namespace hold '' @ show_nat (us_total u div 2 ^ 20) @ '' of '' @ show_nat (limit div 2 ^ 20) @ '' MiB'')
      else None)"

text \<open>Times in milliseconds: \<open>pause_after\<close> when snapshots are on, and how long the oldest commit has waited for one.\<close>

definition paused_reason :: "bool \<Rightarrow> nat option \<Rightarrow> nat option \<Rightarrow> string option" where
  "paused_reason disk_low pause_after waited =
     (if disk_low then Some ''the data volume is almost full''
      else case (pause_after, waited) of
             (Some p, Some w) \<Rightarrow>
               if w \<ge> p then Some (''no snapshot for '' @ show_nat (w div 1000 div 60) @ '' minutes; retry later'') else None
           | _ \<Rightarrow> None)"

section \<open>Open databases\<close>

record handle =
  ha_open :: bool
  ha_used :: bool
  ha_last_used :: nat
  ha_saves :: handle_saves

definition new_handle :: "nat \<Rightarrow> handle" where
  "new_handle now = \<lparr>ha_open = False, ha_used = True, ha_last_used = now, ha_saves = \<lparr>hs_commits = 0, hs_saved = 0\<rparr>\<rparr>"

definition oldest_idle :: "(string \<times> handle) list \<Rightarrow> string option" where
  "oldest_idle dbs =
     (case sort_key (\<lambda>e. ha_last_used (snd e)) (filter (\<lambda>e. \<not> ha_used (snd e) \<and> ha_open (snd e)) dbs) of
        [] \<Rightarrow> None
      | (i, _) # _ \<Rightarrow> Some i)"

definition make_room :: "nat \<Rightarrow> (string \<times> handle) list \<Rightarrow> (string \<times> handle) list" where
  "make_room max_open dbs =
     (if length (filter (\<lambda>e. ha_open (snd e)) dbs) \<ge> max_open
      then case oldest_idle dbs of
             None \<Rightarrow> dbs
           | Some i \<Rightarrow>
               (case map_of dbs i of
                  None \<Rightarrow> dbs
                | Some h \<Rightarrow>
                    if unsaved (ha_saves h) then AList.update i (h\<lparr>ha_open := False\<rparr>) dbs else AList.delete i dbs)
      else dbs)"

definition get_handle :: "nat \<Rightarrow> nat \<Rightarrow> string \<Rightarrow> (string \<times> handle) list \<Rightarrow> (string \<times> handle) list" where
  "get_handle max_open now i dbs =
     (case map_of dbs i of
        Some h \<Rightarrow> AList.update i (h\<lparr>ha_used := True\<rparr>) dbs
      | None \<Rightarrow> AList.update i (new_handle now) (make_room max_open dbs))"

definition close_idle :: "nat \<Rightarrow> nat \<Rightarrow> (string \<times> handle) list \<Rightarrow> (string \<times> handle) list" where
  "close_idle idle now dbs =
     concat (map (\<lambda>(i, h).
       if \<not> (\<not> ha_used h \<and> now - ha_last_used h \<ge> idle) then [(i, h)]
       else if unsaved (ha_saves h) then [(i, h\<lparr>ha_open := False\<rparr>)] else []) dbs)"

section \<open>One call\<close>

datatype open_end = Opened | Not_Opened | Open_Panicked

record call_env =
  ce_locked :: bool
  ce_open :: bool
  ce_dir :: bool
  ce_restored :: bool
  ce_exists :: bool
  ce_opening :: open_end
  ce_job :: "job_done option"

definition unavailable_error :: "string \<Rightarrow> job_done" where
  "unavailable_error m = Done_D1 (D1_Failed Kind_Unavailable m)"

definition run_job :: "call_env \<Rightarrow> job_done" where
  "run_job env = (case ce_job env of Some d \<Rightarrow> d | None \<Rightarrow> Done_D1 internal_error)"

definition run_database_call :: "call_env \<Rightarrow> string option \<Rightarrow> job_done" where
  "run_database_call env full =
     (if \<not> ce_locked env then Done_D1 (D1_Failed Kind_Overloaded ''timed out waiting for the database'')
      else if ce_open env then run_job env
      else if \<not> ce_dir env then unavailable_error ''the database cannot be opened''
      else if \<not> ce_restored env then unavailable_error ''the database cannot be restored from its last snapshot''
      else if full \<noteq> None \<and> \<not> ce_exists env then Done_Object (Storage_Error (''the storage is full: '' @ the full))
      else case ce_opening env of
             Opened \<Rightarrow> run_job env
           | Not_Opened \<Rightarrow> unavailable_error ''the database cannot be opened''
           | Open_Panicked \<Rightarrow> Done_D1 internal_error)"

section \<open>The queue of a database\<close>

text \<open>
  A call that is dropped while it runs leaves its blocking job behind, which keeps the connection until it ends. An answer is what
  \<open>run\<close> gives for what the call met.
\<close>

datatype call =
    Counted_Over
  | Queued
  | Running_Call
  | Answered_Call job_done
  | Left job_done
  | Refused_Call
  | Orphan_Job
  | Dropped_Call

record queue =
  qu_waiting :: nat
  qu_calls :: "call list"

datatype queue_event =
    Enter_Queue
  | Undo_Count nat
  | Take_Connection nat
  | Give_Up nat call_env
  | Finish_Call nat call_env "string option"
  | Leave_Queue nat
  | Drop_Call nat
  | Orphan_Ends nat

definition queue_start :: queue where
  "queue_start = \<lparr>qu_waiting = 0, qu_calls = []\<rparr>"

definition set_call :: "nat \<Rightarrow> call \<Rightarrow> queue \<Rightarrow> queue" where
  "set_call i c q = q\<lparr>qu_calls := (qu_calls q)[i := c]\<rparr>"

definition from_call :: "nat \<Rightarrow> call \<Rightarrow> queue \<Rightarrow> queue \<Rightarrow> queue option" where
  "from_call i c q q' = (if i < length (qu_calls q) \<and> qu_calls q ! i = c then Some q' else None)"

definition connection_free :: "queue \<Rightarrow> bool" where
  "connection_free q \<longleftrightarrow> Running_Call \<notin> set (qu_calls q) \<and> Orphan_Job \<notin> set (qu_calls q)"

fun queue_step :: "nat \<Rightarrow> queue \<Rightarrow> queue_event \<Rightarrow> queue option" where
  "queue_step max_queue q Enter_Queue =
     Some (q\<lparr>qu_waiting := qu_waiting q + 1,
             qu_calls := qu_calls q @ [if qu_waiting q \<ge> max_queue then Counted_Over else Queued]\<rparr>)"
| "queue_step max_queue q (Undo_Count i) =
     from_call i Counted_Over q (set_call i Refused_Call (q\<lparr>qu_waiting := qu_waiting q - 1\<rparr>))"
| "queue_step max_queue q (Take_Connection i) =
     (if connection_free q then from_call i Queued q (set_call i Running_Call q) else None)"
| "queue_step max_queue q (Give_Up i env) =
     (if ce_locked env then None else from_call i Queued q (set_call i (Answered_Call (run_database_call env None)) q))"
| "queue_step max_queue q (Finish_Call i env full) =
     (if ce_locked env then from_call i Running_Call q (set_call i (Answered_Call (run_database_call env full)) q) else None)"
| "queue_step max_queue q (Leave_Queue i) =
     (if i < length (qu_calls q)
      then case qu_calls q ! i of
             Answered_Call d \<Rightarrow> Some (set_call i (Left d) (q\<lparr>qu_waiting := qu_waiting q - 1\<rparr>))
           | _ \<Rightarrow> None
      else None)"
| "queue_step max_queue q (Drop_Call i) =
     (if i < length (qu_calls q)
      then case qu_calls q ! i of
             Queued \<Rightarrow> Some (set_call i Dropped_Call q)
           | Running_Call \<Rightarrow> Some (set_call i Orphan_Job q)
           | _ \<Rightarrow> None
      else None)"
| "queue_step max_queue q (Orphan_Ends i) = from_call i Orphan_Job q (set_call i Dropped_Call q)"

section \<open>Lemmas\<close>

text \<open>A key of an object names its namespace and its object.\<close>

lemma object_key_parses:
  assumes "d1_object_key parse_uuid namespace object = Some key" and "parse_uuid namespace = Some u" and "CHR ''/'' \<notin> set u"
  shows "parse_object_key key = Some (u, object)"
proof -
  have key: "key = OBJECTS @ ''/'' @ u @ ''/'' @ object"
    using assms(1,2) by (auto simp: d1_object_key_def split: if_splits)
  have "split_once_char (CHR ''/'') (u @ CHR ''/'' # object) = Some (u, object)"
    using assms(3) by (induction u) auto
  then show ?thesis by (simp add: key parse_object_key_def strip_prefix_str_def starts_with_def)
qed

definition usage_ok :: "usage \<Rightarrow> bool" where
  "usage_ok u \<longleftrightarrow> distinct (map fst (us_objects u)) \<and> us_total u = sum_list (map snd (us_objects u))"

lemma sum_list_update_alist:
  assumes "distinct (map fst xs)"
  shows "sum_list (map snd (AList.update k v xs)) + (case map_of xs k of None \<Rightarrow> 0 | Some w \<Rightarrow> w) = sum_list (map snd xs) + (v::nat)"
  using assms by (induction xs) auto

lemma usage_ok_set:
  assumes "usage_ok u"
  shows "usage_ok (usage_set object bytes u)"
proof (cases "map_of (us_objects u) object")
  case None
  then show ?thesis
    using assms sum_list_update_alist [of "us_objects u" object bytes]
    by (simp add: usage_ok_def usage_set_def distinct_update)
next
  case (Some old)
  then have "old \<in> set (map snd (us_objects u))" by (force dest: map_of_SomeD)
  then have "old \<le> sum_list (map snd (us_objects u))" by (rule member_le_sum_list) simp
  then show ?thesis
    using assms sum_list_update_alist [of "us_objects u" object bytes] Some
    by (simp add: usage_ok_def usage_set_def distinct_update del: map_of_eq_Some_iff)
qed

text \<open>The space of a namespace is the sum of the sizes of its objects, from the scan on.\<close>

lemma scan_ok: "usage_ok (scan files)"
proof -
  have "usage_ok u \<Longrightarrow> usage_ok (foldl scan_file u files)" for u
    by (induction files arbitrary: u) (auto simp: scan_file_def usage_ok_set split: option.splits)
  then show ?thesis by (simp add: scan_def usage_ok_def usage_default_def)
qed

text \<open>A database with commits that no snapshot holds keeps its entry, so the next pass finds it.\<close>

lemma make_room_keeps:
  assumes "map_of dbs i = Some h" and "unsaved (ha_saves h)"
  shows "\<exists>h'. map_of (make_room max_open dbs) i = Some h' \<and> ha_saves h' = ha_saves h"
  using assms by (auto simp: make_room_def update_conv' AList.delete_conv' split: option.splits)

lemma get_handle_keeps:
  assumes "map_of dbs i = Some h" and "unsaved (ha_saves h)"
  shows "\<exists>h'. map_of (get_handle max_open now j dbs) i = Some h' \<and> ha_saves h' = ha_saves h"
  using assms make_room_keeps [OF assms, of max_open] by (auto simp: get_handle_def update_conv' split: option.splits)

lemma close_idle_keeps:
  assumes "map_of dbs i = Some h" and "unsaved (ha_saves h)"
  shows "\<exists>h'. map_of (close_idle idle now dbs) i = Some h' \<and> ha_saves h' = ha_saves h"
  using assms by (induction dbs) (auto simp: close_idle_def split: if_splits)

section \<open>The queue\<close>

fun admitted :: "call \<Rightarrow> bool" where
  "admitted Counted_Over \<longleftrightarrow> False"
| "admitted Refused_Call \<longleftrightarrow> False"
| "admitted (Left d) \<longleftrightarrow> False"
| "admitted _ \<longleftrightarrow> True"

definition counted :: "call \<Rightarrow> bool" where
  "counted c \<longleftrightarrow> admitted c \<or> c = Counted_Over"

definition connected :: "call \<Rightarrow> bool" where
  "connected c \<longleftrightarrow> c = Running_Call \<or> c = Orphan_Job"

definition abandoned :: "call \<Rightarrow> bool" where
  "abandoned c \<longleftrightarrow> c = Orphan_Job \<or> c = Dropped_Call"

lemmas call_defs = counted_def connected_def abandoned_def

definition queue_inv :: "nat \<Rightarrow> queue \<Rightarrow> bool" where
  "queue_inv m q \<longleftrightarrow>
     qu_waiting q = tally counted (qu_calls q) \<and> tally admitted (qu_calls q) \<le> m
     \<and> tally connected (qu_calls q) \<le> 1"

lemma admitted_counted: "tally admitted cs \<le> tally counted cs"
  by (rule tally_mono) (auto simp: counted_def)

lemma abandoned_counted: "tally abandoned cs \<le> tally counted cs"
  by (rule tally_mono) (auto simp: call_defs)

lemma connection_free_iff: "connection_free q \<longleftrightarrow> tally connected (qu_calls q) = 0"
  by (auto simp: connection_free_def connected_def tally_zero_iff)

lemma from_call_Some: "from_call i c q q' = Some q'' \<longleftrightarrow> i < length (qu_calls q) \<and> qu_calls q ! i = c \<and> q'' = q'"
  by (auto simp: from_call_def)

lemma queue_inv_step:
  assumes "queue_inv m q" and "queue_step m q e = Some q'"
  shows "queue_inv m q'"
  using assms admitted_counted [of "qu_calls q"]
  by (cases e)
     (auto simp: queue_inv_def from_call_Some set_call_def connection_free_iff call_defs tally_simps split: if_splits call.splits)

text \<open>A queue that is full of calls nobody waits for.\<close>

definition dead_queue :: "nat \<Rightarrow> nat \<Rightarrow> queue \<Rightarrow> bool" where
  "dead_queue m n q \<longleftrightarrow>
     queue_inv m q \<and> m \<le> tally abandoned (qu_calls q) \<and> n \<le> length (qu_calls q)
     \<and> (\<forall>j. n \<le> j \<longrightarrow> j < length (qu_calls q) \<longrightarrow> qu_calls q ! j \<in> {Counted_Over, Refused_Call})"

lemma dead_queue_step:
  assumes "dead_queue m n q" and "queue_step m q e = Some q'"
  shows "dead_queue m n q'"
proof -
  have "tally abandoned (qu_calls q) \<le> qu_waiting q"
    using assms(1) abandoned_counted [of "qu_calls q"] by (simp add: dead_queue_def queue_inv_def)
  then show ?thesis
    using assms queue_inv_step [of m q e q']
    by (cases e)
       (auto simp: dead_queue_def from_call_Some set_call_def call_defs tally_simps nth_append nth_list_update
         split: if_splits call.splits)
qed

interpretation queue_runs: step_invariant "queue_step m" "\<lambda>q. q = queue_start" "queue_inv m" for m
  by unfold_locales (simp add: queue_inv_def queue_start_def, rule queue_inv_step)

interpretation dead_runs: step_invariant "queue_step m" "dead_queue m n" "dead_queue m n" for m n
  by unfold_locales (auto intro: dead_queue_step)

section \<open>Properties\<close>

text \<open>C29. The queue of a database counts its calls, and keeps counting the ones it lost. In every reachable state the counter is the number of the calls
  that are in the queue, about to leave it, or were dropped by their caller while they waited or ran; at most \<open>max_queue\<close>
  calls are admitted and at most one has the connection. A dropped call is never taken off: once \<open>max_queue\<close> callers
  went away, every later call is refused for a full queue, however empty it is.\<close>

theorem d1_calls_counted:
  assumes "runs (queue_step m) queue_start es = Some q"
  shows "qu_waiting q = tally counted (qu_calls q) \<and> tally admitted (qu_calls q) \<le> m
    \<and> tally connected (qu_calls q) \<le> 1
    \<and> (m \<le> tally abandoned (qu_calls q) \<longrightarrow> runs (queue_step m) q fs = Some q' \<longrightarrow>
        length (qu_calls q) \<le> j \<longrightarrow> j < length (qu_calls q') \<longrightarrow> qu_calls q' ! j \<in> {Counted_Over, Refused_Call})"
proof -
  have inv: "queue_inv m q" by (rule queue_runs.runs_inv [OF refl assms])
  moreover have "dead_queue m (length (qu_calls q)) q'"
    if "m \<le> tally abandoned (qu_calls q)" "runs (queue_step m) q fs = Some q'"
    by (rule dead_runs.runs_inv [OF _ that(2)]) (use inv that(1) in \<open>simp add: dead_queue_def\<close>)
  ultimately show ?thesis by (auto simp: queue_inv_def dead_queue_def)
qed

theorem d1_calls_counted_witness:
  "\<exists>q q'. runs (queue_step 1) queue_start [Enter_Queue, Drop_Call 0] = Some q \<and> qu_waiting q = 1
     \<and> runs (queue_step 1) q [Enter_Queue, Undo_Count 1] = Some q' \<and> qu_calls q' ! 1 \<in> {Counted_Over, Refused_Call}"
proof -
  let ?q = "\<lparr>qu_waiting = 1, qu_calls = [Dropped_Call]\<rparr>"
  let ?q' = "\<lparr>qu_waiting = 1, qu_calls = [Dropped_Call, Refused_Call]\<rparr>"
  have enter: "runs (queue_step 1) queue_start [Enter_Queue, Drop_Call 0] = Some ?q"
    by (simp add: queue_start_def set_call_def)
  have later: "runs (queue_step 1) ?q [Enter_Queue, Undo_Count 1] = Some ?q'"
    by (simp add: from_call_def set_call_def)
  have "1 \<le> tally abandoned (qu_calls ?q)" by (simp add: abandoned_def)
  then have "qu_calls ?q' ! 1 \<in> {Counted_Over, Refused_Call}"
    using d1_calls_counted [OF enter, of "[Enter_Queue, Undo_Count 1]" ?q' 1] later by simp
  with enter later show ?thesis by (intro exI [of _ ?q] exI [of _ ?q'] conjI) (assumption | simp)+
qed

end
