(* ===== verification/Kv_Service.thy ===== *)
theory Kv_Service
  imports Rust_Str
begin

text \<open>
  \<open>src/services/kv.rs\<close> and its dispatch in \<open>src/ops.rs\<close>: the key-value store. Postgres is not part of the
  repository: the statements on \<open>kv_data\<close> are an argument with their documented effect as the laws of the
  locale \<open>kv_table\<close>, and any statement may fail. Times are seconds; a value is any type with its JSON text.
\<close>

section \<open>Statements\<close>

text \<open>SQL's \<open>LIKE\<close>: a percent sign is any text, an underscore any character, a backslash takes the next character as it is.\<close>

fun like_match :: "string \<Rightarrow> string \<Rightarrow> bool" where
  "like_match [] s = (s = [])"
| "like_match (p # ps) s =
     (if p = CHR ''%'' then like_match ps s \<or> (case s of [] \<Rightarrow> False | _ # s' \<Rightarrow> like_match (p # ps) s')
      else if p = CHR ''_'' then (case s of [] \<Rightarrow> False | _ # s' \<Rightarrow> like_match ps s')
      else if p = CHR 0x5C then (case (ps, s) of (q # qs, c # s') \<Rightarrow> c = q \<and> like_match qs s' | _ \<Rightarrow> False)
      else (case s of [] \<Rightarrow> False | c # s' \<Rightarrow> c = p \<and> like_match ps s'))"

record ('t, 'v) kv_statements =
  q_get :: "'t \<Rightarrow> int \<Rightarrow> string \<Rightarrow> string \<Rightarrow> 'v option"
  q_upsert :: "'t \<Rightarrow> string \<Rightarrow> string \<Rightarrow> 'v \<Rightarrow> int option \<Rightarrow> 't"
  q_delete :: "'t \<Rightarrow> string \<Rightarrow> string \<Rightarrow> 't"
  q_list :: "'t \<Rightarrow> int \<Rightarrow> string \<Rightarrow> string option \<Rightarrow> nat \<Rightarrow> string list"

definition live :: "int \<Rightarrow> ('v \<times> int option) option \<Rightarrow> 'v option" where
  "live now row =
     (case row of
        None \<Rightarrow> None
      | Some (v, expires) \<Rightarrow> (case expires of None \<Rightarrow> Some v | Some at \<Rightarrow> if at > now then Some v else None))"

definition listed :: "int \<Rightarrow> string option \<Rightarrow> (string \<Rightarrow> ('v \<times> int option) option) \<Rightarrow> string set" where
  "listed now pat rows = {k. live now (rows k) \<noteq> None \<and> (case pat of None \<Rightarrow> True | Some p \<Rightarrow> like_match p k)}"

locale kv_table =
  fixes Q :: "('t, 'v) kv_statements"
    and rows :: "'t \<Rightarrow> string \<Rightarrow> string \<Rightarrow> ('v \<times> int option) option"
  assumes get_live: "q_get Q t now ns k = live now (rows t ns k)"
    and rows_upsert: "rows (q_upsert Q t ns k v e) = (rows t)(ns := (rows t ns)(k \<mapsto> (v, e)))"
    and rows_delete: "rows (q_delete Q t ns k) = (rows t)(ns := (rows t ns)(k := None))"
    and list_keys: "set (q_list Q t now ns pat n) \<subseteq> listed now pat (rows t ns)"
    and list_size: "distinct (q_list Q t now ns pat n) \<and> length (q_list Q t now ns pat n) \<le> n"
    and list_all_keys: "length (q_list Q t now ns pat n) < n \<Longrightarrow> set (q_list Q t now ns pat n) = listed now pat (rows t ns)"

section \<open>Operations\<close>

datatype 'v kv_result = Kv_Ok | Kv_Value "'v option" | Kv_Keys "string list" | Kv_Error string

definition MAX_VALUE_SIZE :: nat where "MAX_VALUE_SIZE = 100 * 1024"

definition kv_get ::
  "('t, 'v) kv_statements \<Rightarrow> string option \<Rightarrow> int \<Rightarrow> string \<Rightarrow> string \<Rightarrow> 't \<Rightarrow> 'v kv_result" where
  "kv_get Q fl now ns k t =
     (case fl of Some e \<Rightarrow> Kv_Error (''KV get failed: '' @ e) | None \<Rightarrow> Kv_Value (q_get Q t now ns k))"

definition as_i64 :: "u64 \<Rightarrow> int" where
  "as_i64 ttl = sint ttl"

definition kv_put ::
  "('t, 'v) kv_statements \<Rightarrow> ('v \<Rightarrow> (string, string) result) \<Rightarrow> string option \<Rightarrow> int \<Rightarrow> string \<Rightarrow> string \<Rightarrow> 'v \<Rightarrow> u64 option
   \<Rightarrow> 't \<Rightarrow> 'v kv_result \<times> 't" where
  "kv_put Q to_string fl now ns k v expires_in t =
     (case to_string v of
        Err e \<Rightarrow> (Kv_Error (''Invalid JSON value: '' @ e), t)
      | Ok s \<Rightarrow>
          if length s > MAX_VALUE_SIZE
          then (Kv_Error (''Value too large: '' @ show_nat (length s) @ '' bytes (max '' @ show_nat MAX_VALUE_SIZE @ '' bytes)''), t)
          else case fl of
                 Some e \<Rightarrow> (Kv_Error (''KV put failed: '' @ e), t)
               | None \<Rightarrow> (Kv_Ok, q_upsert Q t ns k v (map_option (\<lambda>ttl. now + as_i64 ttl) expires_in)))"

definition kv_delete ::
  "('t, 'v) kv_statements \<Rightarrow> string option \<Rightarrow> string \<Rightarrow> string \<Rightarrow> 't \<Rightarrow> 'v kv_result \<times> 't" where
  "kv_delete Q fl ns k t =
     (case fl of Some e \<Rightarrow> (Kv_Error (''KV delete failed: '' @ e), t) | None \<Rightarrow> (Kv_Ok, q_delete Q t ns k))"

definition kv_list ::
  "('t, 'v) kv_statements \<Rightarrow> string option \<Rightarrow> int \<Rightarrow> string \<Rightarrow> string option \<Rightarrow> u32 option \<Rightarrow> 't \<Rightarrow> 'v kv_result" where
  "kv_list Q fl now ns pfx limit t =
     (let limit_val = (case limit of None \<Rightarrow> 1000 | Some n \<Rightarrow> unat n);
          pat = map_option (\<lambda>p. p @ ''%'') pfx
      in case fl of
           Some e \<Rightarrow> Kv_Error (''KV list failed: '' @ e)
         | None \<Rightarrow> Kv_Keys (q_list Q t now ns pat limit_val))"

datatype 'v kv_op = Kv_Get string | Kv_Put string 'v "u64 option" | Kv_Delete string | Kv_List "string option" "u32 option"

text \<open>The operation of a binding: its namespace, the database, a permit of the limiter, then the service.\<close>

definition handle_binding_kv ::
  "('t, 'v) kv_statements \<Rightarrow> ('v \<Rightarrow> (string, string) result) \<Rightarrow> (string \<Rightarrow> string option) \<Rightarrow> bool \<Rightarrow> string option \<Rightarrow> string option
   \<Rightarrow> int \<Rightarrow> string \<Rightarrow> 'v kv_op \<Rightarrow> 't \<Rightarrow> 'v kv_result \<times> 't" where
  "handle_binding_kv Q to_string configs database limited fl now name op t =
     (case configs name of
        None \<Rightarrow> (Kv_Error (''KV binding '' @ [CHR 0x27] @ name @ [CHR 0x27] @ '' not configured''), t)
      | Some ns \<Rightarrow>
          if \<not> database then (Kv_Error ''KV operations require database connection'', t)
          else case limited of
                 Some e \<Rightarrow> (Kv_Error e, t)
               | None \<Rightarrow>
                   (case op of
                      Kv_Get k \<Rightarrow> (kv_get Q fl now ns k t, t)
                    | Kv_Put k v expires_in \<Rightarrow> kv_put Q to_string fl now ns k v expires_in t
                    | Kv_Delete k \<Rightarrow> kv_delete Q fl ns k t
                    | Kv_List pfx limit \<Rightarrow> (kv_list Q fl now ns pfx limit t, t)))"

section \<open>Lemmas\<close>

definition plain_prefix :: "string \<Rightarrow> bool" where
  "plain_prefix p \<longleftrightarrow> CHR ''%'' \<notin> set p \<and> CHR ''_'' \<notin> set p \<and> CHR 0x5C \<notin> set p"

lemma like_any: "like_match ''%'' s"
  by (induction s) simp_all

lemma like_prefix: "plain_prefix p \<Longrightarrow> like_match (p @ ''%'') s \<longleftrightarrow> starts_with s p"
proof (induction p arbitrary: s)
  case Nil
  show ?case using like_any [of s] by (simp add: starts_with_def)
next
  case (Cons c p)
  then show ?case by (cases s) (auto simp: plain_prefix_def starts_with_def)
qed

text \<open>A prefix with a wildcard also lists keys that do not begin with it.\<close>

lemma like_wildcard: "like_match (''user_'' @ ''%'') ''users'' \<and> \<not> starts_with ''users'' ''user_''"
  by (simp add: starts_with_def)

lemma as_i64_eq: "as_i64 ttl = (if unat ttl < 2 ^ 63 then int (unat ttl) else int (unat ttl) - 2 ^ 64)"
proof -
  have eq: "as_i64 ttl = (int (unat ttl) + 2 ^ 63) mod 2 ^ 64 - 2 ^ 63"
    by (simp add: as_i64_def sint_uint signed_take_bit_eq_take_bit_shift take_bit_eq_mod)
  define n where "n = int (unat ttl)"
  have "unat ttl < 2 ^ 64" using unsigned_less [of ttl] by simp
  then have range: "0 \<le> n" "n < 2 ^ 64" unfolding n_def by (simp_all only: of_nat_0_le_iff of_nat_less_numeral_power_cancel_iff)
  have low: "unat ttl < 2 ^ 63 \<longleftrightarrow> n < 2 ^ 63" unfolding n_def by (simp only: of_nat_less_numeral_power_cancel_iff)
  show ?thesis
  proof (cases "n < 2 ^ 63")
    case True
    then have "(n + 2 ^ 63) mod 2 ^ 64 = n + 2 ^ 63" using range by (intro mod_pos_pos_trivial) simp_all
    with True eq low show ?thesis by (simp add: n_def)
  next
    case False
    have "(n + 2 ^ 63) mod 2 ^ 64 = (n - 2 ^ 63 + 2 ^ 64) mod 2 ^ 64" by (simp add: add.commute)
    also have "\<dots> = (n - 2 ^ 63) mod 2 ^ 64" by (rule mod_add_self2)
    also have "\<dots> = n - 2 ^ 63" using False range by (intro mod_pos_pos_trivial) simp_all
    finally show ?thesis using False eq low by (simp add: n_def)
  qed
qed

context kv_table
begin

lemma get_after_put:
  assumes "kv_put Q to_string fl now ns k v expires_in t = (Kv_Ok, t')"
  shows "kv_get Q None now' ns' k' t' =
     Kv_Value (if ns' = ns \<and> k' = k
               then live now' (Some (v, map_option (\<lambda>ttl. now + as_i64 ttl) expires_in)) else live now' (rows t ns' k'))"
  using assms by (auto simp: kv_put_def kv_get_def get_live rows_upsert split: result.splits option.splits if_splits)

end

section \<open>A table of rows\<close>

definition row_keys :: "int \<Rightarrow> string \<Rightarrow> string option \<Rightarrow> ((string \<times> string) \<times> (string \<times> int option)) list \<Rightarrow> string list" where
  "row_keys now ns pat t =
     remdups (map (snd \<circ> fst) (filter (\<lambda>r. fst (fst r) = ns \<and> live now (map_of t (fst r)) \<noteq> None
       \<and> (case pat of None \<Rightarrow> True | Some p \<Rightarrow> like_match p (snd (fst r)))) t))"

definition row_statements :: "(((string \<times> string) \<times> (string \<times> int option)) list, string) kv_statements" where
  "row_statements =
     \<lparr>q_get = (\<lambda>t now ns k. live now (map_of t (ns, k))),
      q_upsert = (\<lambda>t ns k v e. ((ns, k), (v, e)) # t),
      q_delete = (\<lambda>t ns k. filter (\<lambda>r. fst r \<noteq> (ns, k)) t),
      q_list = (\<lambda>t now ns pat n. take n (row_keys now ns pat t))\<rparr>"

lemma set_row_keys: "set (row_keys now ns pat t) = listed now pat (\<lambda>k. map_of t (ns, k))"
proof (intro equalityI subsetI)
  fix k
  assume "k \<in> listed now pat (\<lambda>k. map_of t (ns, k))"
  then have k: "live now (map_of t (ns, k)) \<noteq> None" "case pat of None \<Rightarrow> True | Some p \<Rightarrow> like_match p k"
    by (auto simp: listed_def)
  then obtain r where "map_of t (ns, k) = Some r" by (cases "map_of t (ns, k)") (auto simp: live_def)
  then have mem: "((ns, k), r) \<in> set t" by (rule map_of_SomeD)
  have "((ns, k), r) \<in> set (filter (\<lambda>r. fst (fst r) = ns \<and> live now (map_of t (fst r)) \<noteq> None
       \<and> (case pat of None \<Rightarrow> True | Some p \<Rightarrow> like_match p (snd (fst r)))) t)"
    unfolding set_filter using mem k by (cases pat) simp_all
  then have "(snd \<circ> fst) ((ns, k), r) \<in> set (row_keys now ns pat t)"
    unfolding row_keys_def set_remdups set_map by (rule imageI)
  then show "k \<in> set (row_keys now ns pat t)" by simp
qed (auto simp: row_keys_def listed_def)

lemma map_of_without: "map_of (filter (\<lambda>r. fst r \<noteq> key) t) k = (if k = key then None else map_of t k)"
  by (induction t) auto

interpretation postgres_kv: kv_table row_statements "\<lambda>t ns k. map_of t (ns, k)"
proof
  fix t now ns pat n
  show "set (q_list row_statements t now ns pat n) \<subseteq> listed now pat (\<lambda>k. map_of t (ns, k))"
    using set_take_subset set_row_keys by (fastforce simp: row_statements_def)
  show "distinct (q_list row_statements t now ns pat n) \<and> length (q_list row_statements t now ns pat n) \<le> n"
    by (simp add: row_statements_def row_keys_def)
  show "set (q_list row_statements t now ns pat n) = listed now pat (\<lambda>k. map_of t (ns, k))"
    if "length (q_list row_statements t now ns pat n) < n"
    using that set_row_keys [of now ns pat t] by (simp add: row_statements_def)
qed (auto simp: row_statements_def fun_eq_iff map_of_without)

section \<open>Properties\<close>

text \<open>The key-value store keeps what is put, for as long as it was asked to and in its namespace. After a put that answers \<open>Ok\<close>, a
  get at any time gives the value until its time to live has passed, or for ever without one, and every other key of
  every namespace as before; a time to live of \<open>2 ^ 63\<close> seconds or more wraps and is over at once; a put that is refused, for its size, its JSON or the database, changes nothing.
  A delete removes its key only. A list gives each live key of its namespace that begins with the prefix once, up
  to the limit, and all of them when they are fewer, for a prefix without wildcards of \<open>LIKE\<close>.\<close>

lemma kv_put_get:
  assumes table: "kv_table Q rows"
  shows "(kv_put Q to_string fl now ns k v expires_in t = (r, t') \<longrightarrow>
       (if r = Kv_Ok
        then kv_get Q None now' ns' k' t' =
               Kv_Value (if ns' = ns \<and> k' = k
                         then (case expires_in of
                                 None \<Rightarrow> Some v
                               | Some ttl \<Rightarrow> if now' < now + (if unat ttl < 2 ^ 63 then int (unat ttl) else int (unat ttl) - 2 ^ 64)
                                             then Some v else None)
                         else live now' (rows t ns' k'))
        else t' = t))
    \<and> (kv_delete Q None ns k t = (r, t') \<longrightarrow>
        kv_get Q None now' ns' k' t' = Kv_Value (if ns' = ns \<and> k' = k then None else live now' (rows t ns' k')))
    \<and> (plain_prefix p \<longrightarrow> kv_list Q None now ns (Some p) limit t = Kv_Keys keys \<longrightarrow>
        distinct keys \<and> length keys \<le> (case limit of None \<Rightarrow> 1000 | Some n \<Rightarrow> unat n)
        \<and> (x \<in> set keys \<longrightarrow> live now (rows t ns x) \<noteq> None \<and> starts_with x p)
        \<and> (length keys < (case limit of None \<Rightarrow> 1000 | Some n \<Rightarrow> unat n) \<longrightarrow>
             live now (rows t ns x) \<noteq> None \<longrightarrow> starts_with x p \<longrightarrow> x \<in> set keys))"
proof -
  have "if r = Kv_Ok
        then kv_get Q None now' ns' k' t' =
               Kv_Value (if ns' = ns \<and> k' = k
                         then (case expires_in of
                                 None \<Rightarrow> Some v
                               | Some ttl \<Rightarrow> if now' < now + (if unat ttl < 2 ^ 63 then int (unat ttl) else int (unat ttl) - 2 ^ 64)
                                             then Some v else None)
                         else live now' (rows t ns' k'))
        else t' = t"
    if put: "kv_put Q to_string fl now ns k v expires_in t = (r, t')"
  proof (cases "r = Kv_Ok")
    case True
    then show ?thesis
      using kv_table.get_after_put [OF table, of to_string fl now ns k v expires_in t t' now' ns' k'] put
      by (cases expires_in) (simp_all add: live_def as_i64_eq)
  next
    case False
    then show ?thesis using put by (auto simp: kv_put_def split: result.splits option.splits if_splits)
  qed
  moreover have "kv_get Q None now' ns' k' t' = Kv_Value (if ns' = ns \<and> k' = k then None else live now' (rows t ns' k'))"
    if "kv_delete Q None ns k t = (r, t')"
    using that by (auto simp: kv_delete_def kv_get_def kv_table.get_live [OF table] kv_table.rows_delete [OF table] live_def)
  moreover have "distinct keys \<and> length keys \<le> (case limit of None \<Rightarrow> 1000 | Some n \<Rightarrow> unat n)
        \<and> (x \<in> set keys \<longrightarrow> live now (rows t ns x) \<noteq> None \<and> starts_with x p)
        \<and> (length keys < (case limit of None \<Rightarrow> 1000 | Some n \<Rightarrow> unat n) \<longrightarrow>
             live now (rows t ns x) \<noteq> None \<longrightarrow> starts_with x p \<longrightarrow> x \<in> set keys)"
    if plain: "plain_prefix p" and "kv_list Q None now ns (Some p) limit t = Kv_Keys keys"
  proof -
    define n where "n = (case limit of None \<Rightarrow> 1000 | Some n \<Rightarrow> unat n)"
    have keys: "keys = q_list Q t now ns (Some (p @ ''%'')) n" using that(2) by (simp add: kv_list_def n_def Let_def)
    have "listed now (Some (p @ ''%'')) (rows t ns) = {k. live now (rows t ns k) \<noteq> None \<and> starts_with k p}"
      using like_prefix [OF plain] by (simp add: listed_def)
    then show ?thesis
      unfolding n_def [symmetric] keys
      using kv_table.list_keys [OF table] kv_table.list_size [OF table] kv_table.list_all_keys [OF table] by fastforce
  qed
  ultimately show ?thesis by blast
qed

lemma kv_put_get_witness:
  "\<exists>t'. kv_put row_statements Ok None 100 ''n'' ''k'' ''v'' (Some 60) [] = (Kv_Ok, t')
     \<and> kv_get row_statements None 159 ''n'' ''k'' t' = Kv_Value (Some ''v'')
     \<and> kv_get row_statements None 160 ''n'' ''k'' t' = Kv_Value None
     \<and> kv_get row_statements None 159 ''m'' ''k'' t' = Kv_Value None"
proof -
  define t' where "t' = q_upsert row_statements [] ''n'' ''k'' ''v'' (Some 160)"
  have put: "kv_put row_statements Ok None 100 ''n'' ''k'' ''v'' (Some 60) [] = (Kv_Ok, t')"
    by (simp add: kv_put_def MAX_VALUE_SIZE_def t'_def as_i64_eq)
  note get = kv_put_get [OF postgres_kv.kv_table_axioms, of Ok None 100 "''n''" "''k''" "''v''" "Some 60" "[]" Kv_Ok t']
  show ?thesis
    using put get [of 159 "''n''" "''k''"] get [of 160 "''n''" "''k''"] get [of 159 "''m''" "''k''"]
    by (intro exI [of _ t']) (simp add: live_def)
qed

end
