(* ===== verification/Spec2Isabelle.thy ===== *)
theory Spec2Isabelle
  imports Limiter Net_Guard Registry_Props Durable_Id Ingress_Props Resolve_Props Call_Chain
    Alarm_Props Cron_Scheduler D1_Service Kv_Service
begin

text \<open>
  \<^bold>\<open>The OpenWorkers runner\<close>

  The runner serves HTTP requests with JavaScript workers. A request of a public listener is prepared
  (\<open>src/ingress.rs\<close>), resolved to a worker (\<open>src/resolve_cache.rs\<close>, \<open>src/store.rs\<close>, \<open>src/code_cache.rs\<close>), given a slot and a thread
  (\<open>src/worker_pool.rs\<close>) and run (\<open>bin/main.rs\<close>). What the worker asks for comes back to the runner as operations
  (\<open>src/ops.rs\<close>), bounded per request by limiters (\<open>src/limiter.rs\<close>): fetches and calls of other workers (\<open>src/services/fetch.rs\<close>
  behind \<open>src/services/net_guard.rs\<close>), object storage and the key-value store (\<open>src/services\<close>), WebSockets (\<open>src/websocket.rs\<close>), and
  Durable Objects: their ids, registry, sockets and alarms (\<open>src/durable\<close>) and their storage, which is a database file of the
  D1 service (\<open>src/d1\<close>) with snapshots in object storage. Crons start workers on their own (\<open>src/scheduler.rs\<close>), and the
  console lines of all workers go to a sink and to the streams of the dashboard (\<open>src/log.rs\<close>, \<open>src/logs.rs\<close>).

  \<^bold>\<open>How the code is modelled\<close>

  A struct is a record, an enum a datatype, and a function a definition of the same name, with a suffix or a prefix
  where HOL has the name already. A string is its list of UTF-8 bytes (\<open>Rust_Str\<close>). \<open>Result\<close> is \<^typ>\<open>('a, 'e) result\<close> of \<open>Prelude\<close>;
  a panic is a \<^const>\<open>None\<close> or a constructor of its own. Integers that can wrap are words: the counters of the limiter, the
  depths of calls, the octets and segments of addresses, a time to live. The others are \<^typ>\<open>nat\<close> or \<^typ>\<open>int\<close>, as they count things in memory
  or milliseconds.

  Code with threads or tasks is a machine: a state, a datatype of events with one event per atomic operation, lock
  section, statement or message, and a step function into an option, \<^const>\<open>None\<close> for a step that cannot happen now.
  \<^const>\<open>runs\<close> takes a list of events, so a theorem about all lists is one about all interleavings, and a witness evaluates one
  of them. The locale \<open>step_invariant\<close> of \<open>Prelude\<close> carries an invariant through a run, and every machine interprets it.

  A crate or a service outside the repository is a record of its operations and an argument of the definitions that call it. What its
  documentation promises is a locale, with an interpretation on a concrete instance: \<open>semaphore\<close> (tokio), \<open>lru\<close>,
  \<open>header_map\<close> (http), \<open>ingress_crates\<close>, \<open>id_crates_laws\<close> (HMAC and hex), \<open>limited_body\<close>, \<open>percent_decoder\<close>, \<open>resolve_caches\<close>, \<open>kv_laws\<close>
  (SQLite), \<open>snapshot_store\<close> and \<open>s3_bucket\<close> (S3), \<open>kv_table\<close> (Postgres) and \<open>cron_parser\<close> (croner). Statements of a database
  may fail wherever the code handles a failure.

  \<^bold>\<open>The theories\<close>

  \<^item> \<open>Prelude\<close>, \<open>Rust_Str\<close>: results, words, tallies of tasks, runs and invariants; the functions of \<open>str\<close>. \<open>Semaphore\<close>, \<open>Lru\<close>, \<open>Headers\<close>
    and \<open>Core_Http\<close> are the shared interfaces.
  \<^item> \<open>Limiter\<close> (\<open>src/limiter.rs\<close>): \<open>acquire\<close> by atomic operations and as a whole. The lemmas show that however calls interleave
    at most the configured number pass the total and the permits add up, that both views of \<open>acquire\<close> agree, and that the limiters of an object never block it.
  \<^item> \<open>Net_Guard\<close> (\<open>src/services/net_guard.rs\<close>): the predicates on addresses are membership in a table of blocks, and the three guards let
    exactly the addresses outside of it through.
  \<^item> \<open>Ingress_Config\<close>, \<open>Ingress\<close>, \<open>Ingress_Props\<close>, \<open>Request_Body\<close> (\<open>src/ingress.rs\<close>, \<open>src/request_body.rs\<close>): \<open>Config::from_vars\<close> and \<open>prepare\<close>.
    A configuration that is accepted is consistent; the route and the headers of a prepared request are exactly the documented ones; a client cannot forge what
    only the runner sets.
  \<^item> \<open>Store\<close>, \<open>Code_Cache\<close>, \<open>Resolve_Cache\<close>, \<open>Resolve_Props\<close> (\<open>src/store.rs\<close>, \<open>src/code_cache.rs\<close>, \<open>src/resolve_cache.rs\<close>): what the rows of a worker
    become, a cache bounded by entries and bytes, and the coherence of resolved workers with a database that changes, with the window in which it fails.
  \<^item> \<open>Worker_Pool\<close> (\<open>src/worker_pool.rs\<close>): the bound on the requests of one worker, across the pruning of the semaphores, and the exact count of
    active tasks.
  \<^item> \<open>Request_Handler\<close> (\<open>bin/main.rs\<close>): both listeners, the administration, and every refusal on the way of a request to its worker.
  \<^item> \<open>Fetch_Route\<close>, \<open>Worker_Ops\<close>, \<open>Call_Chain\<close> (\<open>src/services/fetch.rs\<close>, \<open>src/ops.rs\<close>): routes inside the runner and the operations of
    workers; together with the handler, a worker cannot reach the administration, and no chain of calls passes the greatest depth.
  \<^item> \<open>Storage_Service\<close> (\<open>src/services/storage.rs\<close>) and \<open>Kv_Service\<close> (\<open>src/services/kv.rs\<close>): the keys a storage binding reaches, and two gaps in their check; what a
    get and a list of the key-value store return after puts and deletes.
  \<^item> \<open>Websocket\<close> (\<open>src/websocket.rs\<close>): the upgrade, and the tasks that move the frames of a socket in order and within a bound.
  \<^item> \<open>Durable_Id\<close>, \<open>Durable_Sockets\<close>, \<open>Durable_Registry\<close> with \<open>Registry_Inv\<close>, \<open>Registry_Steps\<close> and \<open>Registry_Props\<close> (\<open>src/durable\<close>): ids that round-trip; the
    table of sockets; at most one task per object, no event lost or reordered, exact counts, namespaces that stay stopped.
  \<^item> \<open>Object_Storage\<close> (\<open>src/d1/sqlite/object.rs\<close>): the storage of an object refines a map of keys with an alarm.
  \<^item> \<open>Durable_Alarms\<close>, \<open>Alarm_Inv\<close>, \<open>Alarm_Props\<close> (\<open>src/durable/alarms.rs\<close>): \<open>set\<close>, the loop and the deliveries as tasks. An alarm is not lost
    and is delivered, but for one race, which a concrete run shows.
  \<^item> \<open>D1_Archive\<close>, \<open>D1_Service\<close> (\<open>src/d1/archive.rs\<close>, \<open>src/d1/mod.rs\<close>): a saved snapshot comes back; the space of a namespace, which databases stay open, and the
    queue of a database with the calls it loses count of.
  \<^item> \<open>Cron_Scheduler\<close> (\<open>src/scheduler.rs\<close>): the runs of a cron across any number of runners.
  \<^item> \<open>Log_Sink\<close>, \<open>Logs\<close> (\<open>src/log.rs\<close>, \<open>src/logs.rs\<close>): distinct dates, lines accounted for, streams in order and only for authorized clients.

  \<^bold>\<open>Bounds\<close>

  All functions are total. Two loops count down: the loop that evicts from the code cache has the number of its
  entries as fuel, and each round removes one, so it always ends with the cache within its limits or empty; the ten rounds of
  percent-decoding of a path are the ten of the code. The machines have no bound on the number of tasks or events.

  \<^bold>\<open>What is not modelled\<close>

  The V8 runtime and its caches (\<open>src/runtime.rs\<close>, \<open>src/worker.rs\<close>, \<open>src/wasm_cache.rs\<close>, \<open>src/event_fetch.rs\<close>, \<open>src/event_scheduled.rs\<close>, most of \<open>src/task_executor.rs\<close>):
  what a worker does with an event is left to the events of the machines. The SQL of guests (\<open>src/d1/sqlite.rs\<close> apart from the jobs of objects, \<open>src/services/database.rs\<close>), the JSON
  requests of \<open>src/d1/requests.rs\<close>, metrics and telemetry, the advisory lock of \<open>src/singleton.rs\<close>, the start and the shutdown of the process, the accept loops, the
  settings of the HTTP clients and the removal of the files of deleted databases. The durations of sleeps and timeouts appear only as the choice of the next event.
\<close>

end
